(* ===== verification/Prelude.thy ===== *)
theory Prelude
  imports Main "HOL-Library.Word" "HOL-Library.Monad_Syntax"
begin

text \<open>
  Shared vocabulary of the development: the machine integers of the MIPS target
  (BCM6358, big endian), the layout of multi-byte integers in memory, and the
  bounded reads and writes through which the models touch a C buffer.  A C
  buffer is a list of bytes; an access outside it is the value \<^term>\<open>None\<close>, so
  that ``this routine never leaves its buffer'' is a theorem about the routine.
\<close>

unbundle bit_operations_syntax

section \<open>Machine integers\<close>

type_synonym u8 = "8 word"
type_synonym u16 = "16 word"
type_synonym u32 = "32 word"

named_theorems cmem "bounded reads and writes of C buffers"
named_theorems cval "unsigned values of machine words"

lemma unat_u8 [cval]: "unat (a::u8) < 256"
  using unsigned_less[of a] by simp

lemma unat_u16 [cval]: "unat (a::u16) < 65536"
  using unsigned_less[of a] by simp

lemma unat_u32 [cval]: "unat (a::u32) < 4294967296"
  using unsigned_less[of a] by simp

lemma unat_u8_le [simp]: "unat (a::u8) \<le> 255"
  using unat_u8[of a] by simp

lemma unat_of_nat_u8: "unat (of_nat n :: u8) = n mod 256"
  by (simp add: unat_of_nat)

lemma unat_of_nat_u16: "unat (of_nat n :: u16) = n mod 65536"
  by (simp add: unat_of_nat)

lemma unat_of_nat_u32: "unat (of_nat n :: u32) = n mod 4294967296"
  by (simp add: unat_of_nat)

lemma unat_of_nat_u8_small: "n < 256 \<Longrightarrow> unat (of_nat n :: u8) = n"
  by (simp add: unat_of_nat_u8)

lemma u32_add_1: "unat (a::u32) < 4294967295 \<Longrightarrow> unat (a + 1) = unat a + 1"
  by (simp add: unat_word_ariths)

lemma unat_ucast_u16_u32 [simp]: "unat (ucast (a::u16) :: u32) = unat a"
  using unat_u16[of a] by (simp add: unsigned_ucast_eq take_bit_nat_def)

lemma unat_ucast_u8_u32 [simp]: "unat (ucast (a::u8) :: u32) = unat a"
  using unat_u8[of a] by (simp add: unsigned_ucast_eq take_bit_nat_def)

lemma unat_not_u16: "unat (NOT (w::u16)) = 65535 - unat w"
proof -
  have "NOT w = (- 1) - w" by (simp add: not_eq_complement)
  moreover have "unat ((- 1) - w) = unat (- 1 :: u16) - unat w" by (rule unat_sub) simp
  moreover have "unat (- 1 :: u16) = 65535"
    by (simp add: unsigned_minus_1_eq_mask mask_eq_exp_minus_1)
  ultimately show ?thesis by simp
qed

lemma sint_u32_small: "unat (w::u32) < 2147483648 \<Longrightarrow> sint w = int (unat w)"
proof -
  assume "unat w < 2147483648"
  then have "uint w < 2147483648" "- 2147483648 \<le> uint w"
    using uint_nat[of w] by linarith+
  then show ?thesis unfolding sint_uint by (subst signed_take_bit_int_eq_self) simp_all
qed

section \<open>Big-endian layout\<close>

text \<open>
  The target is big endian, so a 16 or 32 bit load takes its most significant
  byte from the lowest address, and \<^verbatim>\<open>htonl\<close>, \<^verbatim>\<open>ntohl\<close>, \<^verbatim>\<open>htons\<close> and
  \<^verbatim>\<open>ntohs\<close> are the identity.  The models below therefore leave those four out.
\<close>

definition be16 :: "u8 \<Rightarrow> u8 \<Rightarrow> u16" where
  "be16 a b = of_nat (256 * unat a + unat b)"

definition be32 :: "u8 \<Rightarrow> u8 \<Rightarrow> u8 \<Rightarrow> u8 \<Rightarrow> u32" where
  "be32 a b c d = of_nat (16777216 * unat a + 65536 * unat b + 256 * unat c + unat d)"

definition be16_bytes :: "u16 \<Rightarrow> u8 list" where
  "be16_bytes w = [of_nat (unat w div 256), of_nat (unat w)]"

definition be32_bytes :: "u32 \<Rightarrow> u8 list" where
  "be32_bytes w = [of_nat (unat w div 16777216), of_nat (unat w div 65536),
                   of_nat (unat w div 256), of_nat (unat w)]"

lemma length_be16_bytes [simp]: "length (be16_bytes w) = 2"
  by (simp add: be16_bytes_def)

lemma length_be32_bytes [simp]: "length (be32_bytes w) = 4"
  by (simp add: be32_bytes_def)

lemma unat_be16 [cval]: "unat (be16 a b) = 256 * unat a + unat b"
  unfolding be16_def unat_of_nat_u16 using unat_u8[of a] unat_u8[of b] by simp

lemma unat_be32 [cval]:
  "unat (be32 a b c d) = 16777216 * unat a + 65536 * unat b + 256 * unat c + unat d"
  unfolding be32_def unat_of_nat_u32
  using unat_u8[of a] unat_u8[of b] unat_u8[of c] unat_u8[of d] by simp

lemma div_digit: "r < (k::nat) \<Longrightarrow> (k * q + r) div k = q"
  by simp

lemma mod_digit: "r < (k::nat) \<Longrightarrow> (k * q + r) mod k = r"
  by simp

lemma be16_bytes_be16 [simp]: "be16_bytes (be16 a b) = [a, b]"
  unfolding be16_bytes_def list.inject word_unat_eq_iff unat_of_nat_u8 unat_be16
  using unat_u8[of a] unat_u8[of b] by simp

lemma be32_bytes_be32 [simp]: "be32_bytes (be32 a b c d) = [a, b, c, d]"
proof -
  let ?n = "unat (be32 a b c d)"
  have n: "?n = 256 * (256 * (256 * unat a + unat b) + unat c) + unat d"
    by (simp add: unat_be32)
  have 1: "?n div 256 = 256 * (256 * unat a + unat b) + unat c"
    unfolding n using unat_u8[of d] by (rule div_digit)
  have 2: "?n div 65536 = 256 * unat a + unat b"
    using div_digit[OF unat_u8[of c], of "256 * unat a + unat b"] 1
      div_mult2_eq[of ?n 256 256] by simp
  have 3: "?n div 16777216 = unat a"
    using div_digit[OF unat_u8[of b], of "unat a"] 2 div_mult2_eq[of ?n 65536 256] by simp
  show ?thesis
    unfolding be32_bytes_def list.inject word_unat_eq_iff unat_of_nat_u8 1 2 3 unfolding n
    by (simp only: mod_digit unat_u8 mod_less)
qed

lemma be16_of_bytes: "be16 (of_nat (unat w div 256)) (of_nat (unat w)) = w"
  unfolding word_unat_eq_iff unat_be16 unat_of_nat_u8
  using unat_u16[of w] by (simp add: less_mult_imp_div_less)

lemma be32_of_bytes:
  "be32 (of_nat (unat w div 16777216)) (of_nat (unat w div 65536))
        (of_nat (unat w div 256)) (of_nat (unat w)) = w"
  unfolding word_unat_eq_iff unat_be32 unat_of_nat_u8
proof -
  have a: "unat w div 65536 = 256 * (unat w div 16777216) + (unat w div 65536) mod 256"
    using div_mult2_eq[of "unat w" 65536 256] by simp
  have b: "unat w div 256 = 256 * (unat w div 65536) + (unat w div 256) mod 256"
    using div_mult2_eq[of "unat w" 256 256] by simp
  have c: "unat w = 256 * (unat w div 256) + unat w mod 256" by simp
  have d: "unat w div 16777216 < 256" using unat_u32[of w] by simp
  show "16777216 * (unat w div 16777216 mod 256) + 65536 * (unat w div 65536 mod 256) +
    256 * (unat w div 256 mod 256) + unat w mod 256 = unat w"
    unfolding mod_less[OF d] using a b c by linarith
qed

section \<open>C buffers\<close>

definition rd :: "'a list \<Rightarrow> nat \<Rightarrow> 'a option" where
  "rd m k = (if k < length m then Some (m ! k) else None)"

definition wr :: "'a list \<Rightarrow> nat \<Rightarrow> 'a \<Rightarrow> 'a list option" where
  "wr m k b = (if k < length m then Some (m[k := b]) else None)"

definition blit :: "'a list \<Rightarrow> nat \<Rightarrow> 'a list \<Rightarrow> 'a list" where
  "blit m k bs = take k m @ bs @ drop (k + length bs) m"

definition memcpy :: "'a list \<Rightarrow> nat \<Rightarrow> 'a list \<Rightarrow> 'a list option" where
  "memcpy m k bs = (if k + length bs \<le> length m then Some (blit m k bs) else None)"

definition slice :: "'a list \<Rightarrow> nat \<Rightarrow> nat \<Rightarrow> 'a list" where
  "slice m k n = take n (drop k m)"

definition rdn :: "'a list \<Rightarrow> nat \<Rightarrow> nat \<Rightarrow> 'a list option" where
  "rdn m k n = (if k + n \<le> length m then Some (slice m k n) else None)"

definition rd32 :: "u8 list \<Rightarrow> nat \<Rightarrow> u32 option" where
  "rd32 m k = (if k + 4 \<le> length m
     then Some (be32 (m ! k) (m ! (k + 1)) (m ! (k + 2)) (m ! (k + 3))) else None)"

lemma rd_in [cmem]: "k < length m \<Longrightarrow> rd m k = Some (m ! k)"
  by (simp add: rd_def)

lemma rd_out [cmem]: "length m \<le> k \<Longrightarrow> rd m k = None"
  by (simp add: rd_def)

lemma rd_SomeD: "rd m k = Some b \<Longrightarrow> k < length m \<and> b = m ! k"
  by (simp add: rd_def split: if_splits)

lemma length_blit [simp]: "k + length bs \<le> length m \<Longrightarrow> length (blit m k bs) = length m"
  by (simp add: blit_def)

lemma nth_blit:
  "k + length bs \<le> length m \<Longrightarrow> i < length m \<Longrightarrow>
   blit m k bs ! i = (if k \<le> i \<and> i < k + length bs then bs ! (i - k) else m ! i)"
  by (auto simp: blit_def nth_append min_def)

lemma memcpy_in [cmem]: "k + length bs \<le> length m \<Longrightarrow> memcpy m k bs = Some (blit m k bs)"
  by (simp add: memcpy_def)

lemma memcpy_SomeD: "memcpy m k bs = Some m' \<Longrightarrow> k + length bs \<le> length m \<and> m' = blit m k bs"
  by (simp add: memcpy_def split: if_splits)

lemma memcpy_length: "memcpy m k bs = Some m' \<Longrightarrow> length m' = length m"
  by (auto dest: memcpy_SomeD)

lemma wr_in [cmem]: "k < length m \<Longrightarrow> wr m k b = Some (m[k := b])"
  by (simp add: wr_def)

lemma wr_length: "wr m k b = Some m' \<Longrightarrow> length m' = length m"
  by (auto simp: wr_def split: if_splits)

lemma slice_blit_same [simp]:
  "k + length bs \<le> length m \<Longrightarrow> slice (blit m k bs) k (length bs) = bs"
  by (simp add: blit_def slice_def)

lemma length_slice [simp]: "k + n \<le> length m \<Longrightarrow> length (slice m k n) = n"
  by (simp add: slice_def)

lemma nth_slice: "k + n \<le> length m \<Longrightarrow> i < n \<Longrightarrow> slice m k n ! i = m ! (k + i)"
  by (simp add: slice_def)

lemma update_blit: "k < length m \<Longrightarrow> m[k := b] = blit m k [b]"
  by (simp add: blit_def upd_conv_take_nth_drop)

lemma wr_blit: "k < length m \<Longrightarrow> wr m k b = Some (blit m k [b])"
  by (simp add: wr_def update_blit)

lemma blit_blit:
  "k + length a + length b \<le> length m \<Longrightarrow>
   blit (blit m k a) (k + length a) b = blit m k (a @ b)"
  by (simp add: blit_def ac_simps)

lemma blit_append_left: "length pre = k \<Longrightarrow>
  blit (pre @ m) k bs = pre @ blit m 0 bs"
  by (simp add: blit_def)

section \<open>C strings\<close>

text \<open>A C string in a buffer is what precedes the first NUL.\<close>

definition cstr :: "u8 list \<Rightarrow> u8 list" where
  "cstr = takeWhile (\<lambda>b. b \<noteq> 0)"

definition bytes_of :: "string \<Rightarrow> u8 list" where
  "bytes_of s = map (\<lambda>c. of_nat (of_char c)) s"

definition str_of :: "u8 list \<Rightarrow> string" where
  "str_of bs = map (\<lambda>b. char_of (unat b)) bs"

lemma unat_char_byte: "unat (of_nat (of_char c) :: u8) = of_char c"
  unfolding unat_of_nat_u8 by (rule of_char_mod_256)

lemma str_of_bytes_of [simp]: "str_of (bytes_of s) = s"
  by (simp add: str_of_def bytes_of_def unat_char_byte comp_def del: unat_of_nat)

lemma length_bytes_of [simp]: "length (bytes_of s) = length s"
  by (simp add: bytes_of_def)

lemma cstr_no_nul [simp]: "0 \<notin> set (cstr bs)"
  by (auto simp: cstr_def dest: set_takeWhileD)

lemma cstr_id: "0 \<notin> set bs \<Longrightarrow> cstr bs = bs"
  by (simp add: cstr_def takeWhile_eq_all_conv) blast

lemma cstr_append_nul: "0 \<notin> set bs \<Longrightarrow> cstr (bs @ 0 # rest) = bs"
  by (induction bs) (auto simp: cstr_def)

lemma length_cstr_le: "length (cstr bs) \<le> length bs"
  by (simp add: cstr_def length_takeWhile_le)

end
