(* ===== verification/Dhcp_Types.thy ===== *)
theory Dhcp_Types
  imports Prelude
begin

text \<open>
  The data of the DHCP server (\<^verbatim>\<open>udhcp/packet.h\<close>, \<^verbatim>\<open>dhcpd.h\<close>, \<^verbatim>\<open>leases.h\<close>): the
  DHCP message with its wire image, the lease record, the server configuration,
  and the protocol constants.
\<close>

section \<open>Protocol constants\<close>

abbreviation (input) "DHCP_MAGIC \<equiv> (0x63825363 :: u32)"
abbreviation (input) "DHCP_PADDING \<equiv> (0x00 :: u8)"
abbreviation (input) "DHCP_SUBNET \<equiv> (0x01 :: u8)"
abbreviation (input) "DHCP_ROUTER \<equiv> (0x03 :: u8)"
abbreviation (input) "DHCP_DNS_SERVER \<equiv> (0x06 :: u8)"
abbreviation (input) "DHCP_LOG_SERVER \<equiv> (0x07 :: u8)"
abbreviation (input) "DHCP_HOST_NAME \<equiv> (0x0c :: u8)"
abbreviation (input) "DHCP_DOMAIN_NAME \<equiv> (0x0f :: u8)"
abbreviation (input) "DHCP_NTP_SERVER \<equiv> (0x2a :: u8)"
abbreviation (input) "DHCP_TR069_ACS \<equiv> (0x2b :: u8)"
abbreviation (input) "DHCP_REQUESTED_IP \<equiv> (0x32 :: u8)"
abbreviation (input) "DHCP_LEASE_TIME \<equiv> (0x33 :: u8)"
abbreviation (input) "DHCP_OPTION_OVER \<equiv> (0x34 :: u8)"
abbreviation (input) "DHCP_MESSAGE_TYPE \<equiv> (0x35 :: u8)"
abbreviation (input) "DHCP_SERVER_ID \<equiv> (0x36 :: u8)"
abbreviation (input) "DHCP_PARAM_REQ \<equiv> (0x37 :: u8)"
abbreviation (input) "DHCP_T1 \<equiv> (0x3a :: u8)"
abbreviation (input) "DHCP_T2 \<equiv> (0x3b :: u8)"
abbreviation (input) "DHCP_VENDOR \<equiv> (0x3c :: u8)"
abbreviation (input) "DHCP_CLIENT_ID \<equiv> (0x3d :: u8)"
abbreviation (input) "DHCP_TFTP_SERVER_NAME \<equiv> (0x42 :: u8)"
abbreviation (input) "DHCP_BOOTFILE_NAME \<equiv> (0x43 :: u8)"
abbreviation (input) "DHCP_USER_CLASS \<equiv> (0x4D :: u8)"
abbreviation (input) "DHCP_STATIC_ROUTE \<equiv> (0x79 :: u8)"
abbreviation (input) "DHCP_VENDOR_IDENTIFYING \<equiv> (0x7d :: u8)"
abbreviation (input) "DHCP_OUTBOUND_PROXY \<equiv> (0x78 :: u8)"
abbreviation (input) "DHCP_TFTP_SERVER_NAME_VDF \<equiv> (0x96 :: u8)"
abbreviation (input) "DHCP_END \<equiv> (0xFF :: u8)"

abbreviation (input) "BOOTREQUEST \<equiv> (1 :: u8)"
abbreviation (input) "BOOTREPLY \<equiv> (2 :: u8)"
abbreviation (input) "ETH_10MB \<equiv> (1 :: u8)"
abbreviation (input) "ETH_10MB_LEN \<equiv> (6 :: u8)"

abbreviation (input) "DHCPDISCOVER \<equiv> (1 :: u8)"
abbreviation (input) "DHCPOFFER \<equiv> (2 :: u8)"
abbreviation (input) "DHCPREQUEST \<equiv> (3 :: u8)"
abbreviation (input) "DHCPDECLINE \<equiv> (4 :: u8)"
abbreviation (input) "DHCPACK \<equiv> (5 :: u8)"
abbreviation (input) "DHCPNAK \<equiv> (6 :: u8)"
abbreviation (input) "DHCPRELEASE \<equiv> (7 :: u8)"
abbreviation (input) "DHCPINFORM \<equiv> (8 :: u8)"

abbreviation (input) "BROADCAST_FLAG \<equiv> (0x8000 :: u16)"
abbreviation (input) "OPTION_FIELD \<equiv> (0 :: nat)"
abbreviation (input) "FILE_FIELD \<equiv> (1 :: nat)"
abbreviation (input) "SNAME_FIELD \<equiv> (2 :: nat)"
abbreviation (input) "MAXRESERVEDIP \<equiv> (8 :: nat)"
abbreviation (input) "SERVER_PORT \<equiv> (67 :: u16)"
abbreviation (input) "CLIENT_PORT \<equiv> (68 :: u16)"

section \<open>The DHCP message\<close>

record dhcpMessage =
  m_op :: u8
  m_htype :: u8
  m_hlen :: u8
  m_hops :: u8
  m_xid :: u32
  m_secs :: u16
  m_flags :: u16
  m_ciaddr :: u32
  m_yiaddr :: u32
  m_siaddr :: u32
  m_giaddr :: u32
  m_chaddr :: "u8 list"
  m_sname :: "u8 list"
  m_file :: "u8 list"
  m_cookie :: u32
  m_options :: "u8 list"

text \<open>The sizes of the four arrays of the C struct.\<close>

definition wf_message :: "dhcpMessage \<Rightarrow> bool" where
  "wf_message p \<longleftrightarrow> length (m_chaddr p) = 16 \<and> length (m_sname p) = 64 \<and>
     length (m_file p) = 128 \<and> length (m_options p) = 1024"

text \<open>
  The struct is read from and written to a socket as it lies in memory, and
  \<^verbatim>\<open>get_option\<close> returns pointers into it, so its memory image is part of the
  model: 1264 bytes, the options starting at offset 240.
\<close>

definition message_image :: "dhcpMessage \<Rightarrow> u8 list" where
  "message_image p =
     [m_op p, m_htype p, m_hlen p, m_hops p] @ be32_bytes (m_xid p) @
     be16_bytes (m_secs p) @ be16_bytes (m_flags p) @
     be32_bytes (m_ciaddr p) @ be32_bytes (m_yiaddr p) @
     be32_bytes (m_siaddr p) @ be32_bytes (m_giaddr p) @
     m_chaddr p @ m_sname p @ m_file p @ be32_bytes (m_cookie p) @ m_options p"

definition at16 :: "u8 list \<Rightarrow> nat \<Rightarrow> u16" where
  "at16 m k = be16 (m ! k) (m ! (k + 1))"

definition at32 :: "u8 list \<Rightarrow> nat \<Rightarrow> u32" where
  "at32 m k = be32 (m ! k) (m ! (k + 1)) (m ! (k + 2)) (m ! (k + 3))"

definition image_message :: "u8 list \<Rightarrow> dhcpMessage" where
  "image_message m = \<lparr>
     m_op = m ! 0, m_htype = m ! 1, m_hlen = m ! 2, m_hops = m ! 3,
     m_xid = at32 m 4, m_secs = at16 m 8, m_flags = at16 m 10,
     m_ciaddr = at32 m 12, m_yiaddr = at32 m 16, m_siaddr = at32 m 20, m_giaddr = at32 m 24,
     m_chaddr = slice m 28 16, m_sname = slice m 44 64, m_file = slice m 108 128,
     m_cookie = at32 m 236, m_options = slice m 240 1024 \<rparr>"

definition message_size :: nat where "message_size = 1264"

abbreviation (input) "SNAME_OFFSET \<equiv> (44 :: nat)"
abbreviation (input) "FILE_OFFSET \<equiv> (108 :: nat)"
abbreviation (input) "OPTIONS_OFFSET \<equiv> (240 :: nat)"

definition zero_message :: dhcpMessage where
  "zero_message = \<lparr>
     m_op = 0, m_htype = 0, m_hlen = 0, m_hops = 0, m_xid = 0, m_secs = 0, m_flags = 0,
     m_ciaddr = 0, m_yiaddr = 0, m_siaddr = 0, m_giaddr = 0,
     m_chaddr = replicate 16 0, m_sname = replicate 64 0, m_file = replicate 128 0,
     m_cookie = 0, m_options = replicate 1024 0 \<rparr>"

lemma wf_zero_message [simp]: "wf_message zero_message"
  by (simp add: wf_message_def zero_message_def)

lemma length_message_image: "wf_message p \<Longrightarrow> length (message_image p) = 1264"
  by (simp add: wf_message_def message_image_def)

lemma wf_image_message: "length m = 1264 \<Longrightarrow> wf_message (image_message m)"
  by (simp add: wf_message_def image_message_def)

lemma message_image_prefix:
  assumes "wf_message p"
  shows "\<exists>pre. length pre = 240 \<and> message_image p = pre @ m_options p"
  using assms
  by (intro exI[of _ "take 240 (message_image p)"]) (simp add: wf_message_def message_image_def)

lemma message_image_options:
  "wf_message p \<Longrightarrow> k < 1024 \<Longrightarrow> message_image p ! (240 + k) = m_options p ! k"
  using message_image_prefix[of p] by (auto simp: nth_append)

lemma slice_message_image_options:
  "wf_message p \<Longrightarrow> slice (message_image p) (240 + k) n = slice (m_options p) k n"
  using message_image_prefix[of p] by (auto simp: slice_def)

lemma at32_be32_bytes:
  "k + 4 \<le> length m \<Longrightarrow> slice m k 4 = be32_bytes w \<Longrightarrow> at32 m k = w"
proof -
  assume k: "k + 4 \<le> length m" and s: "slice m k 4 = be32_bytes w"
  have "m ! (k + i) = be32_bytes w ! i" if "i < 4" for i
    using nth_slice[OF k that] s by simp
  from this[of 0] this[of 1] this[of 2] this[of 3] show ?thesis
    by (simp add: at32_def be32_bytes_def be32_of_bytes del: of_nat_unat)
qed

lemma at16_be16_bytes:
  "k + 2 \<le> length m \<Longrightarrow> slice m k 2 = be16_bytes w \<Longrightarrow> at16 m k = w"
proof -
  assume k: "k + 2 \<le> length m" and s: "slice m k 2 = be16_bytes w"
  have "m ! (k + i) = be16_bytes w ! i" if "i < 2" for i
    using nth_slice[OF k that] s by simp
  from this[of 0] this[of 1] show ?thesis
    by (simp add: at16_def be16_bytes_def be16_of_bytes del: of_nat_unat)
qed

lemma image_message_image:
  assumes "wf_message p"
  shows "image_message (message_image p) = p"
proof -
  note w = assms[unfolded wf_message_def]
  let ?m = "message_image p"
  have len: "length ?m = 1264" using assms by (rule length_message_image)
  have s32: "slice ?m 4 4 = be32_bytes (m_xid p)" "slice ?m 12 4 = be32_bytes (m_ciaddr p)"
    "slice ?m 16 4 = be32_bytes (m_yiaddr p)" "slice ?m 20 4 = be32_bytes (m_siaddr p)"
    "slice ?m 24 4 = be32_bytes (m_giaddr p)" "slice ?m 236 4 = be32_bytes (m_cookie p)"
    using w by (simp_all add: slice_def message_image_def)
  have s16: "slice ?m 8 2 = be16_bytes (m_secs p)" "slice ?m 10 2 = be16_bytes (m_flags p)"
    using w by (simp_all add: slice_def message_image_def)
  have arr: "slice ?m 28 16 = m_chaddr p" "slice ?m 44 64 = m_sname p"
    "slice ?m 108 128 = m_file p" "slice ?m 240 1024 = m_options p"
    using w by (simp_all add: slice_def message_image_def)
  have hd: "?m ! 0 = m_op p" "?m ! 1 = m_htype p" "?m ! 2 = m_hlen p" "?m ! 3 = m_hops p"
    by (simp_all add: message_image_def)
  show ?thesis
    using s32[THEN at32_be32_bytes[rotated]] s16[THEN at16_be16_bytes[rotated]] arr hd len
    by (simp add: image_message_def)
qed

lemma slice_drop: "k' = k + n \<Longrightarrow> slice m k n @ drop k' m = drop k m"
  using append_take_drop_id[of n "drop k m"] by (simp add: slice_def add.commute del: append_take_drop_id)

lemma be32_bytes_at32: "k + 4 \<le> length m \<Longrightarrow> be32_bytes (at32 m k) = slice m k 4"
  by (rule nth_equalityI)
    (auto simp: at32_def nth_slice less_Suc_eq numeral_eq_Suc)

lemma be16_bytes_at16: "k + 2 \<le> length m \<Longrightarrow> be16_bytes (at16 m k) = slice m k 2"
  by (rule nth_equalityI) (auto simp: at16_def nth_slice less_Suc_eq numeral_eq_Suc)

lemma message_image_message:
  assumes "length m = 1264"
  shows "message_image (image_message m) = m"
proof -
  have h: "[m ! 0, m ! 1, m ! 2, m ! 3] = slice m 0 4"
    using assms by (intro nth_equalityI) (auto simp: nth_slice less_Suc_eq numeral_eq_Suc)
  have l: "slice m 240 1024 = drop 240 m" using assms by (simp add: slice_def)
  have "message_image (image_message m) =
    slice m 0 4 @ slice m 4 4 @ slice m 8 2 @ slice m 10 2 @ slice m 12 4 @ slice m 16 4 @
    slice m 20 4 @ slice m 24 4 @ slice m 28 16 @ slice m 44 64 @ slice m 108 128 @ slice m 236 4 @
    drop 240 m"
    using assms by (simp add: message_image_def image_message_def be32_bytes_at32 be16_bytes_at16 h[symmetric] l)
  also have "\<dots> = m" by (simp add: slice_drop)
  finally show ?thesis .
qed

section \<open>Leases and configuration\<close>

record dhcpOfferedAddr =
  l_chaddr :: "u8 list"
  l_yiaddr :: u32
  l_expires :: u32
  l_hostname :: "u8 list"
  l_vendorid :: "u8 list"

definition zero_lease :: dhcpOfferedAddr where
  "zero_lease = \<lparr>l_chaddr = replicate 16 0, l_yiaddr = 0, l_expires = 0,
     l_hostname = replicate 64 0, l_vendorid = replicate 64 0\<rparr>"

text \<open>
  The server configuration.  A \<^verbatim>\<open>char *\<close> that may be \<^verbatim>\<open>NULL\<close> is a \<^typ>\<open>string option\<close>;
  the option list is the list of its data blocks.
\<close>

record server_config =
  c_server :: u32
  c_start :: u32
  c_end :: u32
  c_reservedAddr :: "u32 list"
  c_options :: "u8 list list"
  c_interface :: string
  c_ifindex :: int
  c_arp :: "u8 list"
  c_lease :: u32
  c_max_leases :: u32
  c_remaining :: bool
  c_auto_time :: u32
  c_decline_time :: u32
  c_conflict_time :: u32
  c_offer_time :: u32
  c_min_lease :: u32
  c_lease_file :: "string option"
  c_pidfile :: "string option"
  c_notify_file :: "string option"
  c_siaddr :: u32
  c_sname :: "string option"
  c_boot_file :: "string option"
  c_pIPPhoneDomainName :: "string option"
  c_pIPPhoneDNSServers :: "string option"
  c_pIPPhoneTFTPServer :: "string option"
  c_pIPPhoneTFTPServerName :: "string option"
  c_pOutBoundProxy :: "string option"
  c_pDhcpOpt60 :: "string option"
  c_iIPPhoneVLANQoSEnable :: int
  c_iPPhoneNtp1 :: u32
  c_iPPhoneNtp2 :: u32
  c_vendorid :: "string option"
  c_decline_file :: "string option"

definition zero_config :: server_config where
  "zero_config = \<lparr>
     c_server = 0, c_start = 0, c_end = 0, c_reservedAddr = replicate 8 0, c_options = [],
     c_interface = [], c_ifindex = 0, c_arp = replicate 6 0, c_lease = 0, c_max_leases = 0,
     c_remaining = False, c_auto_time = 0, c_decline_time = 0, c_conflict_time = 0,
     c_offer_time = 0, c_min_lease = 0, c_lease_file = None, c_pidfile = None,
     c_notify_file = None, c_siaddr = 0, c_sname = None, c_boot_file = None,
     c_pIPPhoneDomainName = None, c_pIPPhoneDNSServers = None, c_pIPPhoneTFTPServer = None,
     c_pIPPhoneTFTPServerName = None, c_pOutBoundProxy = None, c_pDhcpOpt60 = None,
     c_iIPPhoneVLANQoSEnable = 0, c_iPPhoneNtp1 = 0, c_iPPhoneNtp2 = 0,
     c_vendorid = None, c_decline_file = None \<rparr>"

end
