(* ===== verification/Dhcp_Options.thy ===== *)
theory Dhcp_Options
  imports Dhcp_Types
begin

text \<open>
  \<^verbatim>\<open>udhcp/options.c\<close>: the table of known options, the lookup of an option in a
  received message (\<^verbatim>\<open>get_option\<close>), the construction of the option field of a
  reply (\<^verbatim>\<open>end_option\<close>, \<^verbatim>\<open>add_option_string\<close>, \<^verbatim>\<open>add_simple_option\<close>) and the sorted
  list of configured options (\<^verbatim>\<open>find_option\<close>, \<^verbatim>\<open>attach_option\<close>).  The outer
  \<^typ>\<open>'a option\<close> of a result is the memory-safety verdict: \<^term>\<open>None\<close> is an access
  outside the buffer.  Log output is left out.
\<close>

section \<open>The option table\<close>

definition TYPE_MASK :: u8 where "TYPE_MASK = 0x0F"
definition OPTION_LIST :: u8 where "OPTION_LIST = 0x80"

abbreviation (input) "OPTION_IP \<equiv> (1 :: u8)"
abbreviation (input) "OPTION_IP_PAIR \<equiv> (2 :: u8)"
abbreviation (input) "OPTION_STRING \<equiv> (3 :: u8)"
abbreviation (input) "OPTION_BOOLEAN \<equiv> (4 :: u8)"
abbreviation (input) "OPTION_U8 \<equiv> (5 :: u8)"
abbreviation (input) "OPTION_U16 \<equiv> (6 :: u8)"
abbreviation (input) "OPTION_S16 \<equiv> (7 :: u8)"
abbreviation (input) "OPTION_U32 \<equiv> (8 :: u8)"
abbreviation (input) "OPTION_S32 \<equiv> (9 :: u8)"
abbreviation (input) "OPTION_IP_STRING \<equiv> (10 :: u8)"

record dhcp_option =
  o_name :: string
  o_flags :: u8
  o_code :: u8

abbreviation dopt :: "string \<Rightarrow> u8 \<Rightarrow> u8 \<Rightarrow> dhcp_option" where
  "dopt n f c \<equiv> \<lparr>o_name = n, o_flags = f, o_code = c\<rparr>"

definition options :: "dhcp_option list" where
  "options = [
     dopt ''subnet'' OPTION_IP 0x01,
     dopt ''timezone'' OPTION_S32 0x02,
     dopt ''option121'' OPTION_STRING 0x79,
     dopt ''router'' (OPTION_IP OR 0x80) 0x03,
     dopt ''timesvr'' (OPTION_IP OR 0x80) 0x04,
     dopt ''namesvr'' (OPTION_IP OR 0x80) 0x05,
     dopt ''dns'' (OPTION_IP OR 0x80) 0x06,
     dopt ''logsvr'' OPTION_IP_STRING 0x07,
     dopt ''cookiesvr'' (OPTION_IP OR 0x80) 0x08,
     dopt ''lprsvr'' (OPTION_IP OR 0x80) 0x09,
     dopt ''hostname'' OPTION_STRING 0x0c,
     dopt ''bootsize'' OPTION_U16 0x0d,
     dopt ''domain'' OPTION_STRING 0x0f,
     dopt ''swapsvr'' OPTION_IP 0x10,
     dopt ''rootpath'' OPTION_STRING 0x11,
     dopt ''ipttl'' OPTION_U8 0x17,
     dopt ''mtu'' OPTION_U16 0x1a,
     dopt ''broadcast'' OPTION_IP 0x1c,
     dopt ''ntpsvr'' (OPTION_IP OR 0x80) 0x2a,
     dopt ''option43'' OPTION_STRING 0x2b,
     dopt ''tr069acs'' OPTION_STRING 0x2b,
     dopt ''wins'' (OPTION_IP OR 0x80) 0x2c,
     dopt ''requestip'' OPTION_IP 0x32,
     dopt ''lease'' OPTION_U32 0x33,
     dopt ''dhcptype'' OPTION_U8 0x35,
     dopt ''serverid'' OPTION_IP 0x36,
     dopt ''renewal'' OPTION_U32 0x3a,
     dopt ''rebinding'' OPTION_U32 0x3b,
     dopt ''clientid'' OPTION_STRING 0x3d,
     dopt ''tftp'' OPTION_IP_STRING 0x42,
     dopt ''bootfile'' OPTION_STRING 0x43]"

text \<open>The indices the C initialiser leaves out are zero; no index exceeds 10.\<close>

definition option_lengths :: "u8 \<Rightarrow> int" where
  "option_lengths t =
     (if t = OPTION_IP then 4 else if t = OPTION_IP_PAIR then 8
      else if t = OPTION_BOOLEAN then 1 else if t = OPTION_STRING then 0
      else if t = OPTION_U8 then 1 else if t = OPTION_U16 then 2
      else if t = OPTION_S16 then 2 else if t = OPTION_U32 then 4
      else if t = OPTION_S32 then 4 else if t = OPTION_IP_STRING then 128 else 0)"

section \<open>Looking an option up in a received message\<close>

text \<open>
  The loop of \<^verbatim>\<open>get_option\<close>.  \<open>img\<close> is the memory image of the message,
  \<open>base\<close> the offset \<^verbatim>\<open>optionptr\<close> points to.  The result is \<open>Some None\<close> for
  \<^verbatim>\<open>NULL\<close> and \<open>Some (Some q)\<close> for the pointer to offset \<open>q\<close>.
\<close>

function get_option_loop ::
  "u8 list \<Rightarrow> u8 \<Rightarrow> nat \<Rightarrow> nat \<Rightarrow> nat \<Rightarrow> u8 \<Rightarrow> nat \<Rightarrow> nat option option" where
  "get_option_loop img code base i len over cur =
     (if i \<ge> len then Some None else do {
        c \<leftarrow> rd img (base + i);
        if c = code then do {
          l \<leftarrow> rd img (base + i + 1);
          if i + 1 + unat l \<ge> len then Some None else Some (Some (base + i + 2)) }
        else if c = DHCP_PADDING then get_option_loop img code base (i + 1) len over cur
        else if c = DHCP_OPTION_OVER then do {
          l \<leftarrow> rd img (base + i + 1);
          if i + 1 + unat l \<ge> len then Some None else do {
            over' \<leftarrow> rd img (base + i + 3);
            l0 \<leftarrow> rd img (base + 1);
            get_option_loop img code base (i + unat l0 + 2) len over' cur } }
        else if c = DHCP_END then
          (if cur = OPTION_FIELD \<and> over AND 1 \<noteq> 0
           then get_option_loop img code FILE_OFFSET 0 128 over FILE_FIELD
           else if cur = FILE_FIELD \<and> over AND 2 \<noteq> 0
           then get_option_loop img code SNAME_OFFSET 0 64 over SNAME_FIELD
           else Some None)
        else do {
          l \<leftarrow> rd img (base + i + 1);
          get_option_loop img code base (i + unat l + 2) len over cur } })"
  by pat_completeness auto
termination
  by (relation "measures [\<lambda>(img, code, base, i, len, over, cur). 2 - cur,
                          \<lambda>(img, code, base, i, len, over, cur). len - i]") auto

declare get_option_loop.simps [simp del]

definition get_option :: "dhcpMessage \<Rightarrow> u8 \<Rightarrow> nat option option" where
  "get_option p code = get_option_loop (message_image p) code OPTIONS_OFFSET 0 308 0 OPTION_FIELD"

section \<open>Building the option field of a reply\<close>

function end_option_loop :: "u8 list \<Rightarrow> nat \<Rightarrow> nat option" where
  "end_option_loop optionptr i = do {
     b \<leftarrow> rd optionptr i;
     if b = DHCP_END then Some i
     else if b = DHCP_PADDING then end_option_loop optionptr (i + 1)
     else do {
       l \<leftarrow> rd optionptr (i + 1);
       end_option_loop optionptr (i + unat l + 2) } }"
  by pat_completeness auto
termination
  by (relation "measure (\<lambda>(m, i). length m - i)") (auto dest!: rd_SomeD)

declare end_option_loop.simps [simp del]

definition end_option :: "u8 list \<Rightarrow> nat option" where
  "end_option optionptr = end_option_loop optionptr 0"

definition add_option_string :: "u8 list \<Rightarrow> u8 list \<Rightarrow> (u8 list \<times> nat) option" where
  "add_option_string optionptr s = do {
     end \<leftarrow> end_option optionptr;
     l \<leftarrow> rd s 1;
     if end + unat l + 2 + 1 \<ge> 1024 then Some (optionptr, 0)
     else do {
       bs \<leftarrow> rdn s 0 (unat l + 2);
       o1 \<leftarrow> memcpy optionptr end bs;
       o2 \<leftarrow> wr o1 (end + unat l + 2) DHCP_END;
       Some (o2, unat l + 2) } }"

text \<open>
  \<^verbatim>\<open>char length = option_lengths[..]\<close> narrows to a signed 8 bit value, and
  \<^verbatim>\<open>memcpy\<close> widens it again to an unsigned 32 bit size.
\<close>

definition simple_option_length :: "u8 \<Rightarrow> 8 word" where
  "simple_option_length code =
     (case find (\<lambda>opt. o_code opt = code) options of
        None \<Rightarrow> 0
      | Some opt \<Rightarrow> word_of_int (option_lengths (o_flags opt AND TYPE_MASK)))"

definition simple_option_bytes :: "int \<Rightarrow> u32 \<Rightarrow> u8 list" where
  "simple_option_bytes n data =
     (if n = 1 then [ucast data] else if n = 2 then be16_bytes (ucast data)
      else if n = 4 then be32_bytes data else [0, 0, 0, 0])"

definition add_simple_option :: "u8 list \<Rightarrow> u8 \<Rightarrow> u32 \<Rightarrow> (u8 list \<times> int) option" where
  "add_simple_option optionptr code data = (let len = simple_option_length code in
     if len = 0 then Some (optionptr, 0)
     else do {
       end \<leftarrow> end_option optionptr;
       o1 \<leftarrow> wr optionptr end code;
       o2 \<leftarrow> wr o1 (end + 1) len;
       bs \<leftarrow> rdn (simple_option_bytes (sint len) data) 0 (unat (scast len :: u32));
       o3 \<leftarrow> memcpy o2 (end + 2) bs;
       o4 \<leftarrow> wr o3 (end + unat len + 2) DHCP_END;
       Some (o4, sint len) })"

section \<open>The configured options\<close>

text \<open>
  A \<^verbatim>\<open>struct option_set\<close> list is the list of its \<^verbatim>\<open>data\<close> blocks, each a code byte,
  a length byte and the value.
\<close>

definition find_option :: "u8 list list \<Rightarrow> u8 \<Rightarrow> u8 list option" where
  "find_option opt_list code = find (\<lambda>d. d ! 0 = code) opt_list"

text \<open>The comparison of the insertion loop is \<^verbatim>\<open>unsigned char < char\<close>, both widened to int.\<close>

fun insert_option :: "u8 list list \<Rightarrow> u8 list \<Rightarrow> u8 \<Rightarrow> u8 list list" where
  "insert_option [] new code = [new]"
| "insert_option (d # ds) new code =
     (if uint (d ! 0) < sint code then d # insert_option ds new code else new # d # ds)"

fun extend_option :: "u8 list list \<Rightarrow> u8 \<Rightarrow> u8 list \<Rightarrow> u8 list list" where
  "extend_option [] code buffer = []"
| "extend_option (d # ds) code buffer =
     (if d ! 0 = code
      then (if unat (d ! 1) + length buffer \<le> 255
            then (d[1 := d ! 1 + of_nat (length buffer)] @ buffer) else d) # ds
      else d # extend_option ds code buffer)"

definition attach_option :: "u8 list list \<Rightarrow> dhcp_option \<Rightarrow> u8 list \<Rightarrow> u8 list list" where
  "attach_option opt_list opt buffer =
     (case find_option opt_list (o_code opt) of
        Some existing \<Rightarrow>
          if o_flags opt AND OPTION_LIST \<noteq> 0 \<or> (240 \<le> o_code opt \<and> o_code opt \<le> 245)
          then extend_option opt_list (o_code opt) buffer
          else opt_list
      | None \<Rightarrow>
          insert_option opt_list (o_code opt # of_nat (length buffer) # buffer) (o_code opt))"

section \<open>Safety of the lookup\<close>

text \<open>The three areas of a message that may hold options: offset and size.\<close>

definition option_area :: "nat \<Rightarrow> nat \<Rightarrow> bool" where
  "option_area base len \<longleftrightarrow> (base, len) \<in> {(OPTIONS_OFFSET, 308), (FILE_OFFSET, 128), (SNAME_OFFSET, 64)}"

text \<open>\<open>q\<close> points at the value of an option of code \<open>c\<close> that lies inside one of them.\<close>

definition option_at :: "u8 list \<Rightarrow> u8 \<Rightarrow> nat \<Rightarrow> bool" where
  "option_at img c q \<longleftrightarrow> (\<exists>base len. option_area base len \<and> base + 2 \<le> q \<and>
     img ! (q - 2) = c \<and> q + unat (img ! (q - 1)) \<le> base + len)"

lemma get_option_loop_safe:
  assumes "length img = 1264" "option_area base len"
  shows "\<exists>r. get_option_loop img code base i len over cur = Some r \<and>
             (\<forall>q. r = Some q \<longrightarrow> option_at img code q)"
  using assms
proof (induction img code base i len over cur rule: get_option_loop.induct)
  case (1 img code base i len over cur)
  have b: "base + len + 2 < length img" using "1.prems" by (auto simp: option_area_def)
  have fa: "option_area FILE_OFFSET 128" and sa: "option_area SNAME_OFFSET 64"
    by (simp_all add: option_area_def)
  show ?case
  proof (cases "i < len")
    case False
    then show ?thesis by (simp add: get_option_loop.simps)
  next
    case True
    have rds: "rd img (base + i) = Some (img ! (base + i))"
      "rd img (base + i + 1) = Some (img ! (base + i + 1))"
      "rd img (base + i + 3) = Some (img ! (base + i + 3))" "rd img (base + 1) = Some (img ! (base + 1))"
      using True b by (simp_all add: rd_def)
    have hit: "option_at img code (base + i + 2)"
      if "img ! (base + i) = code" "i + 1 + unat (img ! (base + i + 1)) < len"
      using that "1.prems"(2) unfolding option_at_def
      by (intro exI[of _ base] exI[of _ len]) simp
    show ?thesis
      using True rds hit "1.IH"(1)[OF _ rds(1)] "1.IH"(2)[OF _ rds(1) _ _ _ rds(2) _ rds(3) rds(4)]
        "1.IH"(3)[OF _ rds(1)] "1.IH"(4)[OF _ rds(1)] "1.IH"(5)[OF _ rds(1) _ _ _ _ rds(2)]
        "1.prems" fa sa
      by (subst get_option_loop.simps) auto
  qed
qed

lemma get_option_some:
  "wf_message p \<Longrightarrow> get_option p c \<noteq> None"
  using get_option_loop_safe[of "message_image p" OPTIONS_OFFSET 308 c 0 0 OPTION_FIELD]
  by (auto simp: get_option_def length_message_image option_area_def)

section \<open>What an option field denotes\<close>

text \<open>
  The abstract option field is a list of options and pad bytes; \<open>enc\<close> lays it out
  as RFC 2132 does.  \<open>repr m os\<close>: the 1024 byte field \<open>m\<close> holds exactly \<open>os\<close>,
  closed by the end option.
\<close>

datatype opt = Pad | Opt u8 "u8 list"

fun wf_opt :: "opt \<Rightarrow> bool" where
  "wf_opt Pad = True"
| "wf_opt (Opt c d) = (c \<noteq> DHCP_PADDING \<and> c \<noteq> DHCP_END \<and> length d \<le> 255)"

fun enc :: "opt list \<Rightarrow> u8 list" where
  "enc [] = []"
| "enc (Pad # os) = DHCP_PADDING # enc os"
| "enc (Opt c d # os) = c # of_nat (length d) # d @ enc os"

definition repr :: "u8 list \<Rightarrow> opt list \<Rightarrow> bool" where
  "repr m os \<longleftrightarrow> length m = 1024 \<and> (\<exists>rest. m = enc os @ DHCP_END # rest) \<and> list_all wf_opt os"

fun lookup_pos :: "u8 \<Rightarrow> nat \<Rightarrow> opt list \<Rightarrow> (nat \<times> u8 list) option" where
  "lookup_pos c k [] = None"
| "lookup_pos c k (Pad # os) = lookup_pos c (k + 1) os"
| "lookup_pos c k (Opt c' d # os) =
     (if c' = c then Some (k, d) else lookup_pos c (k + length d + 2) os)"

lemma enc_append [simp]: "enc (xs @ ys) = enc xs @ enc ys"
  by (induction xs rule: enc.induct) auto

lemma rd_drop: "drop k m = x # xs \<Longrightarrow> rd m k = Some x"
  by (metis rd_def drop_all linorder_not_le list.distinct(1) nth_via_drop)

lemma drop_step: "drop k m = xs @ ys \<Longrightarrow> drop (k + length xs) m = ys"
  using drop_drop[of "length xs" k m] by (simp add: add.commute)

lemma rd_drop_Suc: "drop k m = x # y # xs \<Longrightarrow> rd m (Suc k) = Some y"
  using drop_step[of k m "[x]" "y # xs"] by (auto intro: rd_drop)

lemma unat_opt_len: "length d \<le> 255 \<Longrightarrow> unat (of_nat (length d) :: u8) = length d"
  by (rule unat_of_nat_u8_small) simp

lemma get_option_loop_pad:
  "i < len \<Longrightarrow> rd img (base + i) = Some DHCP_PADDING \<Longrightarrow> c \<noteq> DHCP_PADDING \<Longrightarrow>
   get_option_loop img c base i len over cur = get_option_loop img c base (i + 1) len over cur"
  by (subst get_option_loop.simps) simp

lemma get_option_loop_hit:
  "i < len \<Longrightarrow> rd img (base + i) = Some c \<Longrightarrow> rd img (base + i + 1) = Some l \<Longrightarrow>
   get_option_loop img c base i len over cur =
     Some (if i + 1 + unat l < len then Some (base + i + 2) else None)"
  by (subst get_option_loop.simps) simp

lemma get_option_loop_skip:
  "i < len \<Longrightarrow> rd img (base + i) = Some c' \<Longrightarrow> rd img (base + i + 1) = Some l \<Longrightarrow>
   c' \<notin> {c, DHCP_PADDING, DHCP_OPTION_OVER, DHCP_END} \<Longrightarrow>
   get_option_loop img c base i len over cur =
     get_option_loop img c base (i + unat l + 2) len over cur"
  by (subst get_option_loop.simps) simp

definition fits :: "nat \<Rightarrow> nat \<Rightarrow> (nat \<times> u8 list) option \<Rightarrow> nat option" where
  "fits base len r = (case r of None \<Rightarrow> None
     | Some (k, d) \<Rightarrow> if k + 1 + length d < len then Some (base + k + 2) else None)"

lemma lookup_pos_ge: "lookup_pos c i os = Some (k, d) \<Longrightarrow> i \<le> k"
  by (induction c i os rule: lookup_pos.induct) (auto split: if_splits)

lemma fits_late: "len \<le> i \<Longrightarrow> fits base len (lookup_pos c i os) = None"
  by (auto simp: fits_def dest: lookup_pos_ge split: option.splits)

lemma get_option_loop_enc:
  assumes "drop (base + i) img = enc os @ DHCP_END # rest" "list_all wf_opt os"
    "\<forall>d. Opt DHCP_OPTION_OVER d \<notin> set os" "c \<notin> {DHCP_PADDING, DHCP_END}"
  shows "get_option_loop img c base i len 0 OPTION_FIELD =
    Some (fits base len (lookup_pos c i os))"
  using assms
proof (induction os arbitrary: i)
  case Nil
  then have "rd img (base + i) = Some DHCP_END" by (auto dest: rd_drop)
  with Nil.prems(4) show ?case by (subst get_option_loop.simps) (simp add: fits_def)
next
  case (Cons x os)
  have rest: "list_all wf_opt os" "\<forall>d. Opt DHCP_OPTION_OVER d \<notin> set os"
    using Cons.prems(2,3) by simp_all
  note IH = Cons.IH[OF _ rest Cons.prems(4)]
  show ?case
  proof (cases "i < len")
    case False
    then show ?thesis by (subst get_option_loop.simps) (simp add: fits_late)
  next
    case True
    show ?thesis
    proof (cases x)
      case Pad
      with Cons.prems(1) have d: "drop (base + i) img = DHCP_PADDING # enc os @ DHCP_END # rest"
        by simp
      then have "drop (base + (i + 1)) img = enc os @ DHCP_END # rest"
        using drop_step[of "base + i" img "[DHCP_PADDING]"] by (simp add: add.assoc)
      from IH[OF this] get_option_loop_pad[OF True rd_drop[OF d]] Cons.prems(4) Pad
      show ?thesis by simp
    next
      case (Opt c' d)
      with Cons.prems(1) have
        d: "drop (base + i) img = c' # of_nat (length d) # d @ enc os @ DHCP_END # rest" by simp
      from Opt Cons.prems(2,3) have
        wf: "c' \<notin> {DHCP_PADDING, DHCP_OPTION_OVER, DHCP_END}" "length d \<le> 255" by auto
      have r: "rd img (base + i) = Some c'" "rd img (base + i + 1) = Some (of_nat (length d))"
        using rd_drop[OF d] rd_drop_Suc[OF d] by simp_all
      have "drop (base + (i + length d + 2)) img = enc os @ DHCP_END # rest"
        using drop_step[of "base + i" img "c' # of_nat (length d) # d"] d by (simp add: add.assoc)
      from IH[OF this] get_option_loop_skip[OF True r] get_option_loop_hit[OF True r] Opt wf
      show ?thesis by (cases "c' = c") (simp_all add: unat_opt_len fits_def)
    qed
  qed
qed

lemma end_option_loop_enc:
  assumes "drop i m = enc os @ DHCP_END # rest" "list_all wf_opt os"
  shows "end_option_loop m i = Some (i + length (enc os))"
  using assms
proof (induction os arbitrary: i)
  case Nil
  then show ?case by (subst end_option_loop.simps) (auto dest: rd_drop)
next
  case (Cons x os)
  show ?case
  proof (cases x)
    case Pad
    with Cons.prems have "rd m i = Some DHCP_PADDING" "drop (i + 1) m = enc os @ DHCP_END # rest"
      using drop_step[of i m "[DHCP_PADDING]"] by (auto dest: rd_drop)
    with Pad Cons show ?thesis by (subst end_option_loop.simps) simp
  next
    case (Opt c d)
    with Cons.prems have d: "drop i m = c # of_nat (length d) # d @ enc os @ DHCP_END # rest"
      and wf: "c \<noteq> DHCP_PADDING" "c \<noteq> DHCP_END" "length d \<le> 255" by auto
    have "drop (i + length d + 2) m = enc os @ DHCP_END # rest"
      using drop_step[of i m "c # of_nat (length d) # d"] d by simp
    with Cons.IH[of "i + length d + 2"] Cons.prems Opt wf rd_drop[OF d] rd_drop_Suc[OF d]
    show ?thesis by (subst end_option_loop.simps) (auto simp: unat_opt_len)
  qed
qed

lemma end_option_repr: "repr m os \<Longrightarrow> end_option m = Some (length (enc os))"
  by (auto simp: repr_def end_option_def intro: end_option_loop_enc[of 0, simplified])

lemma repr_size: "repr m os \<Longrightarrow> length (enc os) < 1024"
  by (auto simp: repr_def)

lemma repr_length: "repr m os \<Longrightarrow> length m = 1024"
  by (simp add: repr_def)

lemma get_option_repr:
  assumes "wf_message p" "repr (m_options p) os" "\<forall>d. Opt DHCP_OPTION_OVER d \<notin> set os"
    "c \<notin> {DHCP_PADDING, DHCP_END}"
  shows "get_option p c = Some (fits OPTIONS_OFFSET 308 (lookup_pos c 0 os))"
proof -
  obtain pre where pre: "length pre = 240" "message_image p = pre @ m_options p"
    using message_image_prefix[OF assms(1)] by blast
  from assms(2) obtain rest where "m_options p = enc os @ DHCP_END # rest" "list_all wf_opt os"
    by (auto simp: repr_def)
  with pre assms(3,4) show ?thesis
    unfolding get_option_def by (intro get_option_loop_enc) auto
qed

lemma lookup_pos_append:
  "lookup_pos c k (xs @ ys) =
     (case lookup_pos c k xs of Some r \<Rightarrow> Some r | None \<Rightarrow> lookup_pos c (k + length (enc xs)) ys)"
  by (induction c k xs rule: lookup_pos.induct) (auto simp: add.assoc split: option.split)

lemma lookup_pos_slice:
  "lookup_pos c k os = Some (j, d) \<Longrightarrow>
   k \<le> j \<and> (\<exists>pre post. enc os = pre @ c # of_nat (length d) # d @ post \<and> length pre = j - k)"
proof (induction c k os rule: lookup_pos.induct)
  case (2 c k os)
  then obtain pre post where "k + 1 \<le> j" "enc os = pre @ c # of_nat (length d) # d @ post"
    "length pre = j - (k + 1)" by auto
  then show ?case by (intro conjI exI[of _ "DHCP_PADDING # pre"] exI[of _ post]) auto
next
  case (3 c k c' d' os)
  show ?case
  proof (cases "c' = c")
    case True
    with 3 show ?thesis by (intro conjI exI[of _ "[]"] exI[of _ "enc os"]) auto
  next
    case False
    with 3 obtain pre post where "k + length d' + 2 \<le> j"
      "enc os = pre @ c # of_nat (length d) # d @ post" "length pre = j - (k + length d' + 2)" by auto
    then show ?thesis
      by (intro conjI exI[of _ "c' # of_nat (length d') # d' @ pre"] exI[of _ post]) auto
  qed
qed simp

text \<open>A found option's pointer leads to its length byte and its data.\<close>

lemma lookup_pos_data:
  assumes "wf_message p" "repr (m_options p) os" "lookup_pos c 0 os = Some (k, d)"
  shows "slice (message_image p) (OPTIONS_OFFSET + k + 2) (length d) = d"
    and "message_image p ! (OPTIONS_OFFSET + k + 1) = of_nat (length d)"
proof -
  from lookup_pos_slice[OF assms(3)] obtain pre post where
    e: "enc os = pre @ c # of_nat (length d) # d @ post" "length pre = k" by auto
  from assms(2) obtain rest where m: "m_options p = enc os @ DHCP_END # rest" "length (m_options p) = 1024"
    by (auto simp: repr_def)
  have "slice (message_image p) (240 + (k + 2)) (length d) = slice (m_options p) (k + 2) (length d)"
    by (rule slice_message_image_options[OF assms(1)])
  also have "\<dots> = d" using m e by (simp add: slice_def)
  finally show "slice (message_image p) (OPTIONS_OFFSET + k + 2) (length d) = d"
    by (simp add: add.assoc)
  have "k + 1 < 1024" using m e by simp
  from message_image_options[OF assms(1) this] m e
  show "message_image p ! (OPTIONS_OFFSET + k + 1) = of_nat (length d)"
    by (simp add: nth_append add.assoc)
qed

section \<open>The writers refine appending an option\<close>

lemma blit_repr:
  assumes "repr m os" "wf_opt (Opt c d)" "length (enc os) + length d + 3 \<le> 1024"
  shows "repr (blit m (length (enc os)) (c # of_nat (length d) # d @ [DHCP_END])) (os @ [Opt c d])"
  using assms by (auto simp: repr_def blit_def)

lemma add_option_string_repr:
  assumes "repr m os" "wf_opt (Opt c d)"
  shows "add_option_string m (c # of_nat (length d) # d @ junk) = Some
    (if length (enc os) + length d + 3 < 1024
     then (blit m (length (enc os)) (c # of_nat (length d) # d @ [DHCP_END]), length d + 2)
     else (m, 0))"
proof -
  let ?e = "length (enc os)" and ?b = "c # of_nat (length d) # d"
  have l: "unat (of_nat (length d) :: u8) = length d" using assms(2) by (simp add: unat_opt_len)
  have m: "length m = 1024" using assms(1) by (rule repr_length)
  have s: "rd (?b @ junk) 1 = Some (of_nat (length d))" "rdn (?b @ junk) 0 (length d + 2) = Some ?b"
    by (simp_all add: rd_def rdn_def slice_def)
  show ?thesis
  proof (cases "?e + length d + 3 < 1024")
    case True
    have "blit (blit m ?e ?b) (?e + length ?b) [DHCP_END] = blit m ?e (?b @ [DHCP_END])"
      using True m by (intro blit_blit) simp
    with True m s l end_option_repr[OF assms(1)] show ?thesis
      by (simp add: add_option_string_def memcpy_in wr_blit add.assoc)
  next
    case False
    with s l end_option_repr[OF assms(1)] show ?thesis by (simp add: add_option_string_def)
  qed
qed

definition simple_code :: "u8 \<Rightarrow> bool" where
  "simple_code c \<longleftrightarrow> simple_option_length c \<in> {1, 2, 4} \<and> wf_opt (Opt c [])"

lemma add_simple_option_repr:
  fixes data :: u32
  assumes "repr m os" "simple_code c" "length (enc os) + unat (simple_option_length c) + 3 \<le> 1024"
  defines "d \<equiv> simple_option_bytes (sint (simple_option_length c)) data"
  shows "length d = unat (simple_option_length c)"
    and "add_simple_option m c data =
     Some (blit m (length (enc os)) (c # of_nat (length d) # d @ [DHCP_END]), int (length d))"
proof -
  let ?e = "length (enc os)" and ?l = "simple_option_length c"
  have l: "?l \<in> {1, 2, 4}" using assms(2) by (simp add: simple_code_def)
  then show len: "length d = unat ?l" by (auto simp: d_def simple_option_bytes_def)
  have m: "length m = 1024" using assms(1) by (rule repr_length)
  have l': "of_nat (length d) = ?l" "sint ?l = int (length d)" "unat (scast ?l :: u32) = length d"
    "?l \<noteq> 0"
    using l len by auto
  have 1: "wr m ?e c = Some (blit m ?e [c])" using assms(3) m by (intro wr_blit) simp
  have 2: "wr (blit m ?e [c]) (?e + 1) ?l = Some (blit m ?e [c, ?l])"
    using assms(3) m blit_blit[of ?e "[c]" "[?l]" m] by (simp add: wr_blit)
  have 3: "memcpy (blit m ?e [c, ?l]) (?e + 2) d = Some (blit m ?e (c # ?l # d))"
    using assms(3) m len blit_blit[of ?e "[c, ?l]" d m] by (simp add: memcpy_in)
  have 4: "wr (blit m ?e (c # ?l # d)) (?e + unat ?l + 2) DHCP_END
      = Some (blit m ?e (c # ?l # d @ [DHCP_END]))"
    using assms(3) m len blit_blit[of ?e "c # ?l # d" "[DHCP_END]" m] by (simp add: wr_blit)
  have 5: "rdn d 0 (length d) = Some d" by (simp add: rdn_def slice_def)
  show "add_simple_option m c data =
     Some (blit m ?e (c # of_nat (length d) # d @ [DHCP_END]), int (length d))"
    unfolding add_simple_option_def Let_def d_def[symmetric] end_option_repr[OF assms(1)] l'(1,3)
    using 1 2 3 4 5 l'(2,4) by simp
qed

lemma simple_option_lengths:
  "simple_option_length DHCP_SUBNET = 4" "simple_option_length DHCP_MESSAGE_TYPE = 1"
  "simple_option_length DHCP_SERVER_ID = 4" "simple_option_length DHCP_LEASE_TIME = 4"
  "simple_option_length DHCP_T1 = 4" "simple_option_length DHCP_T2 = 4"
  "simple_option_length DHCP_LOG_SERVER = 0x80" "simple_option_length DHCP_TFTP_SERVER_NAME = 0x80"
  by (simp_all add: simple_option_length_def options_def option_lengths_def TYPE_MASK_def)

section \<open>The option field as an interface\<close>

text \<open>
  A configured option is a block: code, length, data.  The reply builders only rely
  on two laws of the field: an option that fits is appended, one that does not leaves
  the field as it is.
\<close>

definition wf_block :: "u8 list \<Rightarrow> bool" where
  "wf_block b \<longleftrightarrow> 2 \<le> length b \<and> length b = unat (b ! 1) + 2 \<and> b ! 0 \<noteq> DHCP_PADDING \<and> b ! 0 \<noteq> DHCP_END"

definition block_opt :: "u8 list \<Rightarrow> opt" where
  "block_opt b = Opt (b ! 0) (drop 2 b)"

fun add_blocks :: "('f \<Rightarrow> u8 list \<Rightarrow> ('f \<times> nat) option) \<Rightarrow> 'f \<Rightarrow> u8 list list \<Rightarrow> 'f option" where
  "add_blocks add f [] = Some f"
| "add_blocks add f (b # bs) = do { (f', n) \<leftarrow> add f b; add_blocks add f' bs }"

lemma wf_block_decomp:
  assumes "wf_block b"
  shows "b = b ! 0 # of_nat (length (drop 2 b)) # drop 2 b" and "wf_opt (block_opt b)"
proof -
  have b1: "of_nat (length (drop 2 b)) = b ! 1"
    using assms by (simp add: wf_block_def del: of_nat_diff)
  have "b = b ! 0 # b ! 1 # drop 2 b"
    using assms by (cases b; cases "tl b") (auto simp: wf_block_def)
  then show "b = b ! 0 # of_nat (length (drop 2 b)) # drop 2 b" unfolding b1 .
  show "wf_opt (block_opt b)"
    using assms unat_u8[of "b ! 1"] by (simp add: wf_block_def block_opt_def)
qed

lemma wf_block_append:
  assumes "wf_block b"
  shows "b ! 0 # of_nat (length (drop 2 b)) # drop 2 b @ xs = b @ xs"
  using arg_cong[OF wf_block_decomp(1)[OF assms], of "\<lambda>z. z @ xs"] by (simp only: append_Cons)

locale option_field =
  fixes denotes :: "'f \<Rightarrow> opt list \<Rightarrow> bool"
    and add :: "'f \<Rightarrow> u8 list \<Rightarrow> ('f \<times> nat) option"
    and room :: "opt list \<Rightarrow> opt \<Rightarrow> bool"
  assumes add_fits: "denotes f os \<Longrightarrow> wf_block b \<Longrightarrow> room os (block_opt b) \<Longrightarrow>
      \<exists>f' n. add f b = Some (f', n) \<and> 0 < n \<and> denotes f' (os @ [block_opt b])"
    and add_full: "denotes f os \<Longrightarrow> wf_block b \<Longrightarrow> \<not> room os (block_opt b) \<Longrightarrow> add f b = Some (f, 0)"
begin

fun accepted :: "opt list \<Rightarrow> opt list \<Rightarrow> opt list" where
  "accepted os [] = os"
| "accepted os (x # xs) = accepted (if room os x then os @ [x] else os) xs"

lemma add_blocks_accepted:
  "denotes f os \<Longrightarrow> list_all wf_block bs \<Longrightarrow>
   \<exists>f'. add_blocks add f bs = Some f' \<and> denotes f' (accepted os (map block_opt bs))"
proof (induction bs arbitrary: f os)
  case (Cons b bs)
  show ?case
  proof (cases "room os (block_opt b)")
    case True
    with Cons.prems add_fits[of f os b] obtain f1 n where
      "add f b = Some (f1, n)" "denotes f1 (os @ [block_opt b])" by auto
    with Cons.IH[of f1 "os @ [block_opt b]"] Cons.prems True show ?thesis by simp
  next
    case False
    with Cons.IH[of f os] Cons.prems add_full[of f os b] show ?thesis by simp
  qed
qed simp

lemma accepted_prefix: "\<exists>zs. accepted os xs = os @ zs \<and> set zs \<subseteq> set xs"
proof (induction xs arbitrary: os)
  case (Cons x xs)
  from Cons[of "if room os x then os @ [x] else os"] obtain zs where
    "accepted os (x # xs) = (if room os x then os @ [x] else os) @ zs" "set zs \<subseteq> set xs" by auto
  then show ?case by (intro exI[of _ "(if room os x then [x] else []) @ zs"]) auto
qed simp

end

definition room_1024 :: "opt list \<Rightarrow> opt \<Rightarrow> bool" where
  "room_1024 os x \<longleftrightarrow> length (enc os) + length (enc [x]) + 1 < 1024"

lemma add_option_string_block:
  assumes "repr m os" "wf_block b"
  shows "add_option_string m b = Some
    (if room_1024 os (block_opt b) then (blit m (length (enc os)) (b @ [DHCP_END]), length b) else (m, 0))"
proof -
  let ?d = "drop 2 b"
  note dec = wf_block_decomp[OF assms(2)]
  have bl: "length ?d + 2 = length b" using assms(2) by (simp add: wf_block_def)
  have room: "room_1024 os (block_opt b) \<longleftrightarrow> length (enc os) + length ?d + 3 < 1024"
    by (simp add: room_1024_def block_opt_def)
  have "add_option_string m (b ! 0 # of_nat (length ?d) # ?d @ []) = Some
    (if length (enc os) + length ?d + 3 < 1024
     then (blit m (length (enc os)) (b ! 0 # of_nat (length ?d) # ?d @ [DHCP_END]), length ?d + 2)
     else (m, 0))"
    using dec(2) unfolding block_opt_def by (intro add_option_string_repr[OF assms(1)]) simp
  then show ?thesis
    unfolding wf_block_append[OF assms(2)] append_Nil2 wf_block_decomp(1)[OF assms(2), symmetric]
      bl room .
qed

interpretation opts: option_field repr add_option_string room_1024
proof
  fix m os b
  assume r: "repr m os" and w: "wf_block b" and room: "room_1024 os (block_opt b)"
  let ?d = "drop 2 b"
  have "repr (blit m (length (enc os)) (b ! 0 # of_nat (length ?d) # ?d @ [DHCP_END])) (os @ [block_opt b])"
    unfolding block_opt_def
    using r wf_block_decomp(2)[OF w] room
    by (intro blit_repr) (auto simp: block_opt_def room_1024_def)
  then have "repr (blit m (length (enc os)) (b @ [DHCP_END])) (os @ [block_opt b])"
    unfolding wf_block_append[OF w] .
  then show "\<exists>f' n. add_option_string m b = Some (f', n) \<and> 0 < n \<and> repr f' (os @ [block_opt b])"
    using add_option_string_block[OF r w] room w by (auto simp: wf_block_def)
next
  fix m os b
  assume "repr m os" "wf_block b" "\<not> room_1024 os (block_opt b)"
  then show "add_option_string m b = Some (m, 0)" by (simp add: add_option_string_block)
qed

section \<open>The configured option list\<close>

text \<open>
  Invariant of \<^verbatim>\<open>server_config.options\<close>: well-formed blocks in strictly ascending order
  of their codes, all of them below 128 (every code of the table is).
\<close>

definition wf_optset :: "u8 list list \<Rightarrow> bool" where
  "wf_optset ds \<longleftrightarrow> list_all wf_block ds \<and> (\<forall>d \<in> set ds. d ! 0 < 128) \<and>
     sorted_wrt (\<lambda>a b. a ! 0 < b ! 0) ds"

lemma sint_small: "(c::u8) < 128 \<Longrightarrow> sint c = uint c"
  by (simp add: sint_uint signed_take_bit_eq_if_positive word_less_def
      bit_iff_odd take_bit_int_eq_self_iff)

lemma options_codes: "list_all (\<lambda>opt. 0 < o_code opt \<and> o_code opt < 128) options"
  by (simp add: options_def)

lemma find_option_Some: "find_option ds c = Some d \<Longrightarrow> d \<in> set ds \<and> d ! 0 = c"
  by (auto simp: find_option_def find_Some_iff)

lemma find_option_None: "find_option ds c = None \<longleftrightarrow> (\<forall>d \<in> set ds. d ! 0 \<noteq> c)"
  by (auto simp: find_option_def find_None_iff)

lemma set_insert_option: "set (insert_option ds new c) = insert new (set ds)"
  by (induction ds) auto

lemma insert_option_sorted:
  assumes "sorted_wrt (\<lambda>a b. a ! 0 < b ! 0) ds" "\<forall>d \<in> set ds. d ! 0 \<noteq> c"
    "c < 128" "new ! 0 = c"
  shows "sorted_wrt (\<lambda>a b. a ! 0 < b ! 0) (insert_option ds new c)"
  using assms
proof (induction ds)
  case (Cons d ds)
  have iff: "uint (d ! 0) < sint c \<longleftrightarrow> d ! 0 < c" for d :: "u8 list"
    using assms(3) by (simp add: sint_small word_less_def)
  from Cons show ?case by (auto simp: iff set_insert_option not_less dest: order.strict_trans1
        order.not_eq_order_implies_strict)
qed simp

lemma find_insert_option:
  assumes "find_option ds c = None" "new ! 0 = c"
  shows "find_option (insert_option ds new c) c' = (if c' = c then Some new else find_option ds c')"
  using assms by (induction ds) (auto simp: find_option_def split: if_splits)

lemma find_extend_option:
  assumes "list_all wf_block ds"
  shows "find_option (extend_option ds c buf) c' =
    (case find_option ds c' of None \<Rightarrow> None
     | Some d \<Rightarrow> Some (if c' = c \<and> unat (d ! 1) + length buf \<le> 255
                     then d[1 := d ! 1 + of_nat (length buf)] @ buf else d))"
  using assms by (induction ds) (auto simp: find_option_def nth_append wf_block_def split: option.split)

lemma extend_block_wf:
  assumes "wf_block d" "unat (d ! 1) + length buf \<le> 255"
  shows "wf_block (d[1 := d ! 1 + of_nat (length buf)] @ buf)"
    "(d[1 := d ! 1 + of_nat (length buf)] @ buf) ! 0 = d ! 0"
proof -
  have "unat (d ! 1 + of_nat (length buf)) = unat (d ! 1) + length buf"
    using assms(2) by (simp add: unat_word_ariths unat_of_nat)
  with assms show "wf_block (d[1 := d ! 1 + of_nat (length buf)] @ buf)"
    "(d[1 := d ! 1 + of_nat (length buf)] @ buf) ! 0 = d ! 0"
    by (auto simp: wf_block_def nth_append)
qed

lemma extend_option_codes:
  "list_all wf_block ds \<Longrightarrow> map (\<lambda>d. d ! 0) (extend_option ds c buf) = map (\<lambda>d. d ! 0) ds"
  by (induction ds) (auto simp: extend_block_wf[simplified])

lemma extend_option_wf: "list_all wf_block ds \<Longrightarrow> list_all wf_block (extend_option ds c buf)"
  by (induction ds) (auto simp: extend_block_wf[simplified])

lemma sorted_codes: "sorted_wrt (\<lambda>a b. a ! 0 < b ! 0) ds \<longleftrightarrow> sorted_wrt (<) (map (\<lambda>d. d ! 0) ds)"
  by (simp add: sorted_wrt_map)

lemma wf_optset_codes:
  "wf_optset ds \<longleftrightarrow> list_all wf_block ds \<and> (\<forall>c \<in> set (map (\<lambda>d. d ! 0) ds). c < 128) \<and>
     sorted_wrt (<) (map (\<lambda>d. d ! 0) ds)"
  by (auto simp: wf_optset_def sorted_codes)

lemma attach_option_wf:
  assumes "wf_optset ds" "0 < o_code opt" "o_code opt < 128" "length buf \<le> 255"
  shows "wf_optset (attach_option ds opt buf)"
proof (cases "find_option ds (o_code opt)")
  case None
  let ?new = "o_code opt # of_nat (length buf) # buf"
  have "wf_block ?new" using assms by (auto simp: wf_block_def unat_opt_len)
  moreover have "sorted_wrt (\<lambda>a b. a ! 0 < b ! 0) (insert_option ds ?new (o_code opt))"
    using assms None by (intro insert_option_sorted) (auto simp: wf_optset_def find_option_None)
  ultimately show ?thesis
    using None assms by (simp add: attach_option_def wf_optset_def set_insert_option list_all_iff)
next
  case (Some d)
  with assms(1) show ?thesis
    by (auto simp: attach_option_def wf_optset_codes extend_option_wf extend_option_codes
        simp del: set_map)
qed

section \<open>Properties\<close>

text \<open>A DISCOVER as a client sends it, for the concrete instances below.\<close>

definition sample_options :: "u8 list" where
  "sample_options = [53, 1, 1, 50, 4, 192, 168, 1, 7, 255] @ replicate 1014 0"

definition sample_message :: dhcpMessage where
  "sample_message = zero_message\<lparr>m_op := BOOTREQUEST, m_cookie := DHCP_MAGIC, m_options := sample_options\<rparr>"

lemma wf_sample_message [simp]: "wf_message sample_message"
  by (simp add: sample_message_def sample_options_def wf_message_def zero_message_def)

lemma repr_sample [simp]: "repr (m_options sample_message) [Opt 53 [1], Opt 50 [192, 168, 1, 7]]"
  by (simp add: sample_message_def sample_options_def repr_def)

text \<open>
  C16: looking an option up never reads outside the message, always ends, and a pointer it
  returns addresses the value of an option with the code asked for that lies wholly inside
  the option, file or sname area, whatever bytes the message holds.
\<close>

theorem get_option_safe:
  assumes "wf_message p"
  shows "\<exists>r. get_option p c = Some r \<and> (\<forall>q. r = Some q \<longrightarrow> option_at (message_image p) c q)"
  using assms unfolding get_option_def
  by (intro get_option_loop_safe) (simp_all add: length_message_image option_area_def)

theorem get_option_safe_witness:
  "\<exists>r. get_option sample_message DHCP_MESSAGE_TYPE = Some r \<and>
     (\<forall>q. r = Some q \<longrightarrow> option_at (message_image sample_message) DHCP_MESSAGE_TYPE q)"
  by (rule get_option_safe[OF wf_sample_message])

text \<open>
  C17: on a message whose option field encodes the options \<open>os\<close> (none of them the overload
  option), \<^verbatim>\<open>get_option\<close> is the lookup of the first option with that code, provided the
  option ends within the first 308 bytes of the field; the pointer leads to its data and
  the byte before it is its length.
\<close>

theorem get_option_refines_lookup:
  assumes "wf_message p" "repr (m_options p) os" "\<forall>d. Opt DHCP_OPTION_OVER d \<notin> set os"
    "c \<notin> {DHCP_PADDING, DHCP_END}"
  shows "get_option p c = Some (fits OPTIONS_OFFSET 308 (lookup_pos c 0 os)) \<and>
    (\<forall>k d. lookup_pos c 0 os = Some (k, d) \<longrightarrow>
       slice (message_image p) (OPTIONS_OFFSET + k + 2) (length d) = d \<and>
       message_image p ! (OPTIONS_OFFSET + k + 1) = of_nat (length d))"
  using get_option_repr[OF assms] lookup_pos_data[OF assms(1,2)] by blast

theorem get_option_refines_lookup_witness:
  "get_option sample_message DHCP_REQUESTED_IP = Some (Some 245) \<and>
   slice (message_image sample_message) 245 4 = [192, 168, 1, 7]"
  using get_option_refines_lookup[OF wf_sample_message repr_sample, of DHCP_REQUESTED_IP]
  by (simp add: fits_def numeral_2_eq_2[symmetric])

text \<open>
  C18: adding a configured option to a reply and reading it back returns its data, and no
  other option of the reply is affected.
\<close>

theorem add_option_string_get_option:
  assumes p: "wf_message p" "repr (m_options p) os" "\<forall>d. Opt DHCP_OPTION_OVER d \<notin> set os"
    and b: "wf_block b" "b ! 0 \<noteq> DHCP_OPTION_OVER" "lookup_pos (b ! 0) 0 os = None"
    and room: "length (enc os) + length b \<le> 308"
  shows "\<exists>m' q. add_option_string (m_options p) b = Some (m', length b) \<and>
    get_option (p\<lparr>m_options := m'\<rparr>) (b ! 0) = Some (Some q) \<and>
    slice (message_image (p\<lparr>m_options := m'\<rparr>)) q (length b - 2) = drop 2 b \<and>
    (\<forall>c. c \<noteq> b ! 0 \<longrightarrow> c \<notin> {DHCP_PADDING, DHCP_END} \<longrightarrow>
       get_option (p\<lparr>m_options := m'\<rparr>) c = get_option p c)"
proof -
  have r: "room_1024 os (block_opt b)"
    using room b(1) by (auto simp: room_1024_def block_opt_def wf_block_def)
  from opts.add_fits[OF p(2) b(1) r] add_option_string_block[OF p(2) b(1)] r obtain m' where
    m': "add_option_string (m_options p) b = Some (m', length b)" "repr m' (os @ [block_opt b])" by auto
  define p' where "p' = p\<lparr>m_options := m'\<rparr>"
  have p': "wf_message p'" "repr (m_options p') (os @ [block_opt b])"
    "\<forall>d. Opt DHCP_OPTION_OVER d \<notin> set (os @ [block_opt b])"
    using p m' b(2) repr_length[OF m'(2)] by (auto simp: p'_def wf_message_def block_opt_def)
  have new: "lookup_pos (b ! 0) 0 (os @ [block_opt b]) = Some (length (enc os), drop 2 b)"
    using b(3) by (simp add: lookup_pos_append block_opt_def)
  have old: "lookup_pos c 0 (os @ [block_opt b]) = lookup_pos c 0 os" if "c \<noteq> b ! 0" for c
    using that by (simp add: lookup_pos_append block_opt_def split: option.split)
  have "get_option p' (b ! 0) = Some (Some (240 + length (enc os) + 2))"
    using get_option_repr[OF p', of "b ! 0"] new room b(1) by (auto simp: fits_def wf_block_def)
  moreover have "slice (message_image p') (240 + length (enc os) + 2) (length b - 2) = drop 2 b"
    using lookup_pos_data(1)[OF p'(1,2) new] by simp
  moreover have "get_option p' c = get_option p c" if "c \<noteq> b ! 0" "c \<notin> {DHCP_PADDING, DHCP_END}" for c
    using get_option_repr[OF p' that(2)] get_option_repr[OF p that(2)] old[OF that(1)] by simp
  ultimately show ?thesis using m'(1) unfolding p'_def by blast
qed

theorem add_option_string_get_option_witness:
  "\<exists>m' q. add_option_string (m_options sample_message) [12, 2, 72, 71] = Some (m', 4) \<and>
    get_option (sample_message\<lparr>m_options := m'\<rparr>) 12 = Some (Some q) \<and>
    slice (message_image (sample_message\<lparr>m_options := m'\<rparr>)) q 2 = [72, 71]"
proof -
  define b :: "u8 list" where "b = [12, 2, 72, 71]"
  have b: "wf_block b" "b ! 0 = 12" "length b = 4" "drop 2 b = [72, 71]"
    by (simp_all add: b_def wf_block_def)
  from add_option_string_get_option[OF wf_sample_message repr_sample _ b(1)] b(2-)
  obtain m' q where "add_option_string (m_options sample_message) b = Some (m', 4)"
    "get_option (sample_message\<lparr>m_options := m'\<rparr>) 12 = Some (Some q)"
    "slice (message_image (sample_message\<lparr>m_options := m'\<rparr>)) q 2 = [72, 71]" by auto
  then show ?thesis unfolding b_def by blast
qed

text \<open>
  \<^verbatim>\<open>add_simple_option\<close> appends its code with the value in network order, for every
  code of the table with a fixed length of one, two or four bytes, as long as 3 bytes
  beside the value are left in the field.
\<close>

theorem add_simple_option_refines:
  assumes "repr m os" "simple_code c" "length (enc os) + unat (simple_option_length c) + 3 \<le> 1024"
  shows "\<exists>m' d. add_simple_option m c data = Some (m', int (length d)) \<and>
     repr m' (os @ [Opt c d]) \<and> length d = unat (simple_option_length c) \<and>
     (length d = 4 \<longrightarrow> d = be32_bytes data) \<and> (length d = 1 \<longrightarrow> d = [ucast data])"
proof -
  let ?d = "simple_option_bytes (sint (simple_option_length c)) data"
  note a = add_simple_option_repr[OF assms, of data]
  have l: "simple_option_length c \<in> {1, 2, 4}" "wf_opt (Opt c [])"
    using assms(2) by (simp_all add: simple_code_def)
  have "wf_opt (Opt c ?d)" using a(1) l by auto
  then have "repr (blit m (length (enc os)) (c # of_nat (length ?d) # ?d @ [DHCP_END])) (os @ [Opt c ?d])"
    using assms a(1) by (intro blit_repr) simp_all
  with a l show ?thesis
    by (intro exI[of _ "blit m (length (enc os)) (c # of_nat (length ?d) # ?d @ [DHCP_END])"]
        exI[of _ ?d]) (auto simp: simple_option_bytes_def)
qed

theorem add_simple_option_refines_witness:
  "\<exists>m' d. add_simple_option (m_options sample_message) DHCP_LEASE_TIME 864000 = Some (m', int (length d)) \<and>
     repr m' [Opt 53 [1], Opt 50 [192, 168, 1, 7], Opt DHCP_LEASE_TIME d] \<and> d = be32_bytes 864000"
  using add_simple_option_refines[OF repr_sample, of DHCP_LEASE_TIME 864000]
  by (auto simp: simple_code_def simple_option_lengths)

text \<open>
  Attaching a configured option keeps the option list well formed, sorted by code
  and free of duplicates; a new option is found as configured, a value of a list-valued
  option is appended to the existing one, and every other option stays as it was.
\<close>

theorem attach_option_correct:
  assumes "wf_optset ds" "opt \<in> set options" "length buf \<le> 255"
  shows "wf_optset (attach_option ds opt buf) \<and>
    (\<forall>c. c \<noteq> o_code opt \<longrightarrow> find_option (attach_option ds opt buf) c = find_option ds c) \<and>
    (case find_option ds (o_code opt) of
       None \<Rightarrow> find_option (attach_option ds opt buf) (o_code opt) =
                 Some (o_code opt # of_nat (length buf) # buf)
     | Some d \<Rightarrow> find_option (attach_option ds opt buf) (o_code opt) =
         Some (if o_flags opt AND OPTION_LIST \<noteq> 0 \<and> unat (d ! 1) + length buf \<le> 255
               then d[1 := d ! 1 + of_nat (length buf)] @ buf else d))"
proof (intro conjI)
  have c: "0 < o_code opt" "o_code opt < 128"
    using assms(2) options_codes by (auto simp: list_all_iff)
  then have c': "\<not> 240 \<le> o_code opt" by (simp add: word_less_nat_alt word_le_nat_alt)
  have wf: "list_all wf_block ds" using assms(1) by (simp add: wf_optset_def)
  show "wf_optset (attach_option ds opt buf)" using assms c by (intro attach_option_wf)
  show "\<forall>c. c \<noteq> o_code opt \<longrightarrow> find_option (attach_option ds opt buf) c = find_option ds c"
    using wf by (auto simp: attach_option_def find_extend_option find_insert_option
        split: option.split)
  show "case find_option ds (o_code opt) of
       None \<Rightarrow> find_option (attach_option ds opt buf) (o_code opt) =
                 Some (o_code opt # of_nat (length buf) # buf)
     | Some d \<Rightarrow> find_option (attach_option ds opt buf) (o_code opt) =
         Some (if o_flags opt AND OPTION_LIST \<noteq> 0 \<and> unat (d ! 1) + length buf \<le> 255
               then d[1 := d ! 1 + of_nat (length buf)] @ buf else d)"
    using wf c' by (auto simp: attach_option_def find_extend_option find_insert_option
        split: option.split)
qed

theorem attach_option_correct_witness:
  "wf_optset (attach_option [[6, 4, 10, 0, 0, 1]] (dopt ''router'' (OPTION_IP OR 0x80) 3) [10, 0, 0, 2]) \<and>
   find_option (attach_option [[6, 4, 10, 0, 0, 1]] (dopt ''router'' (OPTION_IP OR 0x80) 3) [10, 0, 0, 2]) 3 =
     Some [3, 4, 10, 0, 0, 2]"
  using attach_option_correct[of "[[6, 4, 10, 0, 0, 1]]" "dopt ''router'' (OPTION_IP OR 0x80) 3" "[10, 0, 0, 2]"]
  by (simp add: wf_optset_def wf_block_def options_def find_option_def)



text \<open>
  \<^verbatim>\<open>add_simple_option\<close> on a code of type \<^verbatim>\<open>OPTION_IP_STRING\<close> leaves its buffers: the
  table length 128 does not fit the signed \<^verbatim>\<open>char\<close> it is stored in.
\<close>

theorem add_simple_option_ip_string_faults:
  "add_simple_option m DHCP_LOG_SERVER data = None \<and>
   add_simple_option m DHCP_TFTP_SERVER_NAME data = None"
proof -
  have "rdn (simple_option_bytes (sint (0x80 :: u8)) data) 0 (unat (scast (0x80 :: u8) :: u32)) = None"
    by (simp add: simple_option_bytes_def rdn_def)
  then show ?thesis
    unfolding add_simple_option_def simple_option_lengths Let_def
    by (auto split: Option.bind_splits)
qed

end
