(* ===== verification/Dhcp_Packet.thy ===== *)
theory Dhcp_Packet
  imports Dhcp_Options
begin

text \<open>
  \<^verbatim>\<open>udhcp/packet.c\<close>: receiving a message, the Internet checksum, and the two ways a
  reply leaves the gateway, as a hand-made IP/UDP frame on a packet socket
  (\<^verbatim>\<open>raw_packet\<close>) or through the kernel's UDP stack (\<^verbatim>\<open>kernel_packet\<close>).  What the
  kernel answers to each system call is the parameter \<^verbatim>\<open>sock_env\<close>.
\<close>

section \<open>Receiving\<close>

text \<open>\<open>rr\<close> is what \<^verbatim>\<open>read\<close> delivers: nothing on an error, else the datagram.\<close>

definition get_packet :: "u8 list option \<Rightarrow> (dhcpMessage \<times> int) option" where
  "get_packet rr =
     (case rr of None \<Rightarrow> Some (zero_message, - 1)
      | Some dgram \<Rightarrow>
          let bytes = take message_size dgram;
              img = blit (replicate message_size 0) 0 bytes;
              packet = image_message img;
              n = int (length bytes) in
          if m_cookie packet \<noteq> DHCP_MAGIC then Some (packet, - 1)
          else if m_op packet = BOOTREQUEST then do {
            vendor \<leftarrow> get_option packet DHCP_VENDOR;
            (case vendor of None \<Rightarrow> Some (packet, n)
             | Some q \<Rightarrow> do {
                 l \<leftarrow> rd img (q - 1);
                 if l = 7 then do {
                   name \<leftarrow> rdn img q 7;
                   if name = bytes_of ''MSFT 98'' \<and> m_flags packet AND BROADCAST_FLAG = 0
                   then Some (packet\<lparr>m_flags := m_flags packet OR BROADCAST_FLAG\<rparr>, n)
                   else Some (packet, n) }
                 else Some (packet, n) }) }
          else Some (packet, n))"

section \<open>The length of a reply\<close>

definition calc_length :: "dhcpMessage \<Rightarrow> (dhcpMessage \<times> nat) option" where
  "calc_length payload = do {
     end \<leftarrow> end_option (m_options payload);
     let payload_length = message_size - 1024 + end + 1;
     if odd payload_length
     then do {
       o' \<leftarrow> wr (m_options payload) (payload_length + 1 - 1 - OPTIONS_OFFSET) 0;
       Some (payload\<lparr>m_options := o'\<rparr>, payload_length + 1) }
     else Some (payload, payload_length) }"

section \<open>The Internet checksum\<close>

fun sum16 :: "u8 list \<Rightarrow> u32 \<Rightarrow> u32" where
  "sum16 (a # b # r) s = sum16 r (s + ucast (be16 a b))"
| "sum16 [a] s = s + ucast a"
| "sum16 [] s = s"

text \<open>\<^verbatim>\<open>sum\<close> is a signed 32 bit integer; its right shift is the flooring division.\<close>

function fold16 :: "int \<Rightarrow> int" where
  "fold16 s = (if s div 65536 = 0 then s else fold16 (s mod 65536 + s div 65536))"
  by pat_completeness auto
termination
proof (relation "measure (\<lambda>s. if s < 0 then nat (- s) + 65536 else nat s)")
  fix s :: int
  assume nz: "s div 65536 \<noteq> 0"
  define q r where "q = s div 65536" and "r = s mod 65536"
  have eq: "s = 65536 * q + r" and r: "0 \<le> r" "r < 65536" by (simp_all add: q_def r_def)
  from nz have "q \<noteq> 0" by (simp add: q_def)
  with eq r show "(s mod 65536 + s div 65536, s) \<in> measure (\<lambda>s. if s < 0 then nat (- s) + 65536 else nat s)"
    unfolding q_def[symmetric] r_def[symmetric] by (cases "q < 0") auto
qed simp

declare fold16.simps [simp del]

definition checksum :: "u8 list \<Rightarrow> u16" where
  "checksum bs = NOT (word_of_int (fold16 (sint (sum16 bs 0))))"

section \<open>Sending\<close>

record sock_env =
  e_socket :: bool
  e_bindtodevice :: bool
  e_reuseaddr :: bool
  e_bind :: bool
  e_connect :: bool
  e_result :: int

datatype frame =
    RawFrame (rf_bytes: "u8 list") (rf_dest: "u8 list") (rf_ifindex: int)
  | UdpDatagram (ud_bytes: "u8 list") (ud_source: u32) (ud_sport: u16) (ud_dest: u32) (ud_dport: u16)
      (ud_ifname: "string option")

text \<open>
  The outcome of a send: the frame handed to the kernel if it came to that, the return
  value, and the number of descriptors left open.
\<close>

record send_outcome =
  s_frame :: "frame option"
  s_result :: int
  s_leaked :: nat

definition ip_header :: "u8 \<Rightarrow> u16 \<Rightarrow> u8 \<Rightarrow> u16 \<Rightarrow> u32 \<Rightarrow> u32 \<Rightarrow> u8 list" where
  "ip_header version_ihl tot_len ttl check saddr daddr =
     [version_ihl, 0] @ be16_bytes tot_len @ [0, 0, 0, 0, ttl, 17] @ be16_bytes check @
     be32_bytes saddr @ be32_bytes daddr"

definition udp_header :: "u16 \<Rightarrow> u16 \<Rightarrow> u16 \<Rightarrow> u16 \<Rightarrow> u8 list" where
  "udp_header source dest len check =
     be16_bytes source @ be16_bytes dest @ be16_bytes len @ be16_bytes check"

definition raw_frame :: "u8 list \<Rightarrow> u32 \<Rightarrow> u16 \<Rightarrow> u32 \<Rightarrow> u16 \<Rightarrow> u8 list" where
  "raw_frame data source_ip source_port dest_ip dest_port =
     (let payload_length = length data;
          udp_len = of_nat (8 + payload_length);
          udp_check = checksum (ip_header 0 udp_len 0 0 source_ip dest_ip @
                                udp_header source_port dest_port udp_len 0 @ data);
          tot_len = of_nat (20 + 8 + payload_length);
          ip_check = checksum (ip_header 0x45 tot_len 64 0 source_ip dest_ip) in
      ip_header 0x45 tot_len 64 ip_check source_ip dest_ip @
      udp_header source_port dest_port udp_len udp_check @ data)"

definition raw_packet ::
  "sock_env \<Rightarrow> dhcpMessage \<Rightarrow> u32 \<Rightarrow> u16 \<Rightarrow> u32 \<Rightarrow> u16 \<Rightarrow> u8 list \<Rightarrow> int \<Rightarrow> send_outcome option" where
  "raw_packet env payload source_ip source_port dest_ip dest_port dest_arp ifindex = do {
     (payload', payload_length) \<leftarrow> calc_length payload;
     if \<not> e_socket env then Some \<lparr>s_frame = None, s_result = - 1, s_leaked = 0\<rparr>
     else do {
       arp \<leftarrow> rdn dest_arp 0 6;
       if \<not> e_bind env then Some \<lparr>s_frame = None, s_result = - 1, s_leaked = 0\<rparr>
       else do {
         data \<leftarrow> rdn (message_image payload') 0 payload_length;
         Some \<lparr>s_frame = Some (RawFrame
                   (raw_frame data source_ip source_port dest_ip dest_port) arp ifindex),
               s_result = e_result env, s_leaked = 0\<rparr> } } }"

definition kernel_packet ::
  "sock_env \<Rightarrow> dhcpMessage \<Rightarrow> u32 \<Rightarrow> u16 \<Rightarrow> u32 \<Rightarrow> u16 \<Rightarrow> string option \<Rightarrow> send_outcome option" where
  "kernel_packet env payload source_ip source_port dest_ip dest_port ifname = do {
     (payload', payload_length) \<leftarrow> calc_length payload;
     if \<not> e_socket env then Some \<lparr>s_frame = None, s_result = - 1, s_leaked = 0\<rparr>
     else if ifname \<noteq> None \<and> \<not> e_bindtodevice env
     then Some \<lparr>s_frame = None, s_result = - 1, s_leaked = 0\<rparr>
     else if \<not> e_reuseaddr env then Some \<lparr>s_frame = None, s_result = - 1, s_leaked = 1\<rparr>
     else if \<not> e_bind env then Some \<lparr>s_frame = None, s_result = - 1, s_leaked = 1\<rparr>
     else if \<not> e_connect env then Some \<lparr>s_frame = None, s_result = - 1, s_leaked = 1\<rparr>
     else do {
       data \<leftarrow> rdn (message_image payload') 0 payload_length;
       Some \<lparr>s_frame = Some (UdpDatagram data source_ip source_port dest_ip dest_port ifname),
             s_result = e_result env, s_leaked = 0\<rparr> } }"

text \<open>
  \<open>opens\<close> is the outcome of the successive attempts to open \<^verbatim>\<open>/proc/uptime\<close>: the line
  read from it, or nothing.  After the twelfth failure the uptime is taken as 0.
\<close>

definition atol :: "string \<Rightarrow> int" where
  "atol s = (let t = dropWhile (\<lambda>c. c \<in> {CHR '' '', CHR 0x09, CHR 0x0A, CHR 0x0B, CHR 0x0C, CHR 0x0D}) s;
       neg = (t \<noteq> [] \<and> hd t = CHR ''-'');
       u = (if t \<noteq> [] \<and> hd t \<in> {CHR ''-'', CHR ''+''} then tl t else t);
       v = foldl (\<lambda>n c. 10 * n + (int (of_char c) - 48)) 0 (takeWhile (\<lambda>c. c \<in> set ''0123456789'') u)
     in if neg then - v else v)"

fun getSysUpTime_loop :: "(nat \<Rightarrow> string option) \<Rightarrow> nat \<Rightarrow> nat \<Rightarrow> int" where
  "getSysUpTime_loop opens k 0 = 0"
| "getSysUpTime_loop opens k (Suc left) =
     (case opens k of Some line \<Rightarrow> atol (take 31 line)
      | None \<Rightarrow> getSysUpTime_loop opens (k + 1) left)"

definition getSysUpTime :: "(nat \<Rightarrow> string option) \<Rightarrow> int" where
  "getSysUpTime opens = getSysUpTime_loop opens 0 12"

section \<open>Arithmetic of the checksum\<close>

fun words16 :: "u8 list \<Rightarrow> nat" where
  "words16 (a # b # r) = unat (be16 a b) + words16 r"
| "words16 [a] = unat a"
| "words16 [] = 0"

lemma words16_bound: "words16 bs \<le> 65535 * length bs"
proof (induction bs rule: words16.induct)
  case (1 a b r)
  then show ?case using unat_u16[of "be16 a b"] by simp
next
  case (2 a)
  then show ?case using unat_u8[of a] by simp
qed simp

lemma words16_append: "even (length xs) \<Longrightarrow> words16 (xs @ ys) = words16 xs + words16 ys"
  by (induction xs rule: words16.induct) auto

lemma sum16_words16:
  "unat s + words16 bs < 4294967296 \<Longrightarrow> unat (sum16 bs s) = unat s + words16 bs"
proof (induction bs s rule: sum16.induct)
  case (1 a b r s)
  have "unat (s + ucast (be16 a b)) = unat s + unat (be16 a b)"
    using 1(2) by (simp add: unat_word_ariths)
  with 1 show ?case by simp
next
  case (2 a s)
  then show ?case by (simp add: unat_word_ariths)
qed simp

lemma fold16_small: "0 \<le> s \<Longrightarrow> s < 65536 \<Longrightarrow> fold16 s = s"
  by (subst fold16.simps) (simp add: zdiv_eq_0_iff)

text \<open>Folding reduces modulo 65535, into 1..65535 for a positive sum.\<close>

lemma fold16_mod:
  "0 < s \<Longrightarrow> 0 < fold16 s \<and> fold16 s < 65536 \<and> fold16 s mod 65535 = s mod 65535"
proof (induction s rule: fold16.induct)
  case (1 s)
  show ?case
  proof (cases "s div 65536 = 0")
    case True
    then have "s < 65536" using "1.prems" by (simp add: zdiv_eq_0_iff)
    with "1.prems" show ?thesis by (simp add: fold16_small)
  next
    case False
    have pos: "0 < s mod 65536 + s div 65536"
      using False "1.prems" by (simp add: pos_imp_zdiv_nonneg_iff add_nonneg_pos order.not_eq_order_implies_strict)
    have "s = (s mod 65536 + s div 65536) + 65535 * (s div 65536)"
      using div_mult_mod_eq[of s 65536] by linarith
    then have "(s mod 65536 + s div 65536) mod 65535 = s mod 65535"
      by (metis mod_mult_self2)
    with "1.IH"[OF False pos] False show ?thesis by (subst (1 2 3) fold16.simps) simp
  qed
qed

lemma fold16_zero [simp]: "fold16 0 = 0"
  by (simp add: fold16_small)

lemma checksum_value:
  assumes "length bs \<le> 32767"
  shows "int (unat (checksum bs)) = 65535 - fold16 (int (words16 bs))"
proof -
  have w: "words16 bs < 2147483648" using words16_bound[of bs] assms by simp
  then have u: "unat (sum16 bs 0) = words16 bs" using sum16_words16[of 0 bs] by simp
  with w have s: "sint (sum16 bs 0) = int (words16 bs)" by (simp add: sint_u32_small)
  define f where "f = fold16 (int (words16 bs))"
  have f: "0 \<le> f" "f < 65536"
    using fold16_mod[of "int (words16 bs)"] by (cases "words16 bs = 0"; simp add: f_def)+
  have "unat (word_of_int f :: u16) = nat f"
    using f by (simp add: unsigned_of_int take_bit_int_eq_self nat_eq_iff)
  then show ?thesis using f by (simp add: checksum_def s f_def[symmetric] unat_not_u16)
qed

lemma be16_bytes_words16: "words16 (be16_bytes w) = unat w"
  unfolding be16_bytes_def words16.simps be16_of_bytes by simp

text \<open>
  The law of the Internet checksum: storing the checksum of a block computed over a zero
  field into that field makes the checksum of the block zero.
\<close>

lemma checksum_verifies:
  assumes "even (length pre)" "length pre + length post + 2 \<le> 32767"
  shows "checksum (pre @ be16_bytes (checksum (pre @ [0, 0] @ post)) @ post) = 0"
proof -
  let ?z = "pre @ [0, 0] @ post" and ?w = "be16_bytes (checksum (pre @ [0, 0] @ post))"
  define S where "S = int (words16 ?z)"
  have z: "words16 ?z = words16 pre + words16 post"
    using assms(1) by (simp add: words16_append be16_def)
  have c: "int (unat (checksum ?z)) = 65535 - fold16 S"
    using assms(2) unfolding S_def by (intro checksum_value) simp
  have T: "int (words16 (pre @ ?w @ post)) = S + (65535 - fold16 S)"
    unfolding S_def[symmetric] using assms(1) c z
    by (simp add: words16_append be16_bytes_words16 S_def be16_def)
  have f: "0 \<le> fold16 S" "fold16 S < 65536" "fold16 S mod 65535 = S mod 65535"
    using fold16_mod[of S] by (cases "S = 0"; simp add: S_def)+
  have T0: "0 < S + (65535 - fold16 S)"
    using f by (cases "S = 0") (auto simp: S_def)
  from fold16_mod[OF T0] have g: "0 < fold16 (S + (65535 - fold16 S))"
    "fold16 (S + (65535 - fold16 S)) < 65536"
    "fold16 (S + (65535 - fold16 S)) mod 65535 = (S + (65535 - fold16 S)) mod 65535" by auto
  have "(S - fold16 S) mod 65535 = 0" using f(3) by (simp add: mod_diff_eq[symmetric])
  then have "(S + (65535 - fold16 S)) mod 65535 = 0"
    using mod_add_self2[of "S - fold16 S" 65535] by (simp add: algebra_simps)
  with g have "fold16 (S + (65535 - fold16 S)) = 65535"
    by (auto simp: mod_eq_0_iff_dvd elim!: dvdE)
  with T have "int (unat (checksum (pre @ ?w @ post))) = 0"
    using checksum_value[of "pre @ ?w @ post"] assms(2) by simp
  then show ?thesis by (simp only: of_nat_eq_0_iff unat_eq_zero)
qed

section \<open>Length and layout of what is sent\<close>

lemma length_ip_header [simp]: "length (ip_header v t l c s d) = 20"
  by (simp add: ip_header_def)

lemma length_udp_header [simp]: "length (udp_header s d l c) = 8"
  by (simp add: udp_header_def)

lemma length_raw_frame [simp]: "length (raw_frame data s sp d dp) = 28 + length data"
  by (simp add: raw_frame_def Let_def)

lemma calc_length_repr:
  assumes "wf_message p" "repr (m_options p) os"
  shows "\<exists>p' n. calc_length p = Some (p', n) \<and> even n \<and>
    241 + length (enc os) \<le> n \<and> n \<le> 242 + length (enc os) \<and> n \<le> 1264 \<and>
    wf_message p' \<and> repr (m_options p') os \<and> p' = p\<lparr>m_options := m_options p'\<rparr>"
proof -
  let ?e = "length (enc os)"
  have e: "end_option (m_options p) = Some ?e" using assms(2) by (rule end_option_repr)
  have lt: "?e < 1024" using assms(2) by (rule repr_size)
  show ?thesis
  proof (cases "odd (241 + ?e)")
    case True
    with lt have lt': "Suc ?e < 1024" by (cases "?e = 1023") auto
    from assms(2) obtain rest where m: "m_options p = enc os @ DHCP_END # rest" "length (m_options p) = 1024"
      "list_all wf_opt os" by (auto simp: repr_def)
    then obtain x rest' where r: "rest = x # rest'" using lt' by (cases rest) auto
    have "(m_options p)[Suc ?e := 0] = enc os @ DHCP_END # 0 # rest'"
      using m r by (simp add: list_update_append)
    then have "repr ((m_options p)[Suc ?e := 0]) os" using m r by (auto simp: repr_def)
    with True e lt' m(2) assms(1) show ?thesis
      by (auto simp: calc_length_def message_size_def wr_def wf_message_def Let_def)
  next
    case False
    with e lt assms show ?thesis by (auto simp: calc_length_def message_size_def Let_def)
  qed
qed

text \<open>The bytes the sender takes from the message are its image, cut after the end option.\<close>

definition sent_payload :: "dhcpMessage \<Rightarrow> u8 list option" where
  "sent_payload p = do { (p', n) \<leftarrow> calc_length p; rdn (message_image p') 0 n }"

lemma sent_payload_image:
  assumes "wf_message p" "repr (m_options p) os"
  shows "\<exists>bs. sent_payload p = Some bs \<and> even (length bs) \<and> length bs \<le> 1264 \<and>
    (\<exists>pad. bs = take (241 + length (enc os)) (message_image p) @ pad \<and> set pad \<subseteq> {0})"
proof -
  let ?e = "length (enc os)"
  from calc_length_repr[OF assms] obtain p' n where c: "calc_length p = Some (p', n)" "even n"
    "241 + ?e \<le> n" "n \<le> 242 + ?e" "n \<le> 1264" "wf_message p'" "repr (m_options p') os"
    "p' = p\<lparr>m_options := m_options p'\<rparr>" by blast
  have l: "length (message_image p') = 1264" using c(6) by (rule length_message_image)
  have l0: "length (message_image p) = 1264" using assms(1) by (rule length_message_image)
  have o: "take (Suc ?e) (m_options p') = take (Suc ?e) (m_options p)"
    using assms(2) c(7) by (auto simp: repr_def)
  have hd: "take 240 (message_image p') = take 240 (message_image p)"
    using assms(1) c(6) by (subst c(8)) (simp add: message_image_def wf_message_def)
  have t: "take (241 + ?e) (message_image q) = take 240 (message_image q) @ take (Suc ?e) (m_options q)"
    if "wf_message q" for q
    using message_image_prefix[OF that] by auto
  have pre: "take (241 + ?e) (message_image p') = take (241 + ?e) (message_image p)"
    unfolding t[OF c(6)] t[OF assms(1)] o hd ..
  show ?thesis
  proof (cases "n = 241 + ?e")
    case True
    then show ?thesis using c(1,2,5) l l0 pre
      by (auto simp: sent_payload_def rdn_def slice_def intro!: exI[of _ "[]"])
  next
    case False
    then have n: "n = Suc (241 + ?e)" using c(3,4) by simp
    have odd: "odd (241 + ?e)" using n c(2) by simp
    have z: "m_options p' ! Suc ?e = 0"
      using c(1) odd end_option_repr[OF assms(2)] repr_length[OF assms(2)] n c(5)
      by (auto simp: calc_length_def message_size_def wr_def Let_def)
    have "message_image p' ! (241 + ?e) = 0"
      using message_image_options[OF c(6), of "Suc ?e"] z n c(5) by simp
    then have "take n (message_image p') = take (241 + ?e) (message_image p) @ [0]"
      unfolding n pre[symmetric] using l n c(5)
        take_Suc_conv_app_nth[of "241 + ?e" "message_image p'"] by simp
    then show ?thesis using c(1,2,5) l l0 n
      by (auto simp: sent_payload_def rdn_def slice_def intro!: exI[of _ "[0]"])
  qed
qed

lemma get_packet_image:
  assumes "length bs \<le> 1264"
  shows "blit (replicate message_size 0) 0 bs = bs @ replicate (1264 - length bs) 0"
  using assms by (simp add: blit_def message_size_def)

lemma option_at_in: "option_at img c q \<Longrightarrow> 2 \<le> q \<and> q + unat (img ! (q - 1)) \<le> 1264"
  by (auto simp: option_at_def option_area_def)

lemma get_option_in:
  assumes "wf_message p" "get_option p c = Some (Some q)"
  shows "option_at (message_image p) c q"
  using get_option_loop_safe[of "message_image p" OPTIONS_OFFSET 308 c 0 0 OPTION_FIELD] assms
  by (auto simp: get_option_def length_message_image option_area_def)

text \<open>The buffer after \<^verbatim>\<open>read\<close>, and the flags the vendor check leaves behind.\<close>

definition received :: "u8 list \<Rightarrow> u8 list" where
  "received dgram = take 1264 dgram @ replicate (1264 - length dgram) 0"

definition forced_flags :: "u8 list \<Rightarrow> nat \<Rightarrow> u16 \<Rightarrow> u16" where
  "forced_flags img q fl = (if img ! (q - 1) = 7 \<and> slice img q 7 = bytes_of ''MSFT 98'' \<and>
     fl AND BROADCAST_FLAG = 0 then fl OR BROADCAST_FLAG else fl)"

lemma length_received [simp]: "length (received dgram) = 1264"
  by (simp add: received_def)

lemma received_blit:
  "blit (replicate message_size 0) 0 (take message_size dgram) = received dgram"
  using get_packet_image[of "take 1264 dgram"] by (simp add: message_size_def min_def received_def)

lemma forced_flags_mask: "forced_flags img q fl AND 0x7FFF = fl AND 0x7FFF"
  by (simp add: forced_flags_def bit.conj_disj_distrib2)

lemma get_packet_cases:
  fixes dgram :: "u8 list"
  defines "p \<equiv> image_message (received dgram)"
  shows "get_packet (Some dgram) =
    (if m_cookie p \<noteq> DHCP_MAGIC then Some (p, - 1)
     else Some (p\<lparr>m_flags := (case get_option p DHCP_VENDOR of
                    Some (Some q) \<Rightarrow> if m_op p = BOOTREQUEST
                      then forced_flags (received dgram) q (m_flags p) else m_flags p
                  | _ \<Rightarrow> m_flags p)\<rparr>, int (min 1264 (length dgram))))"
proof -
  have wf: "wf_message p" unfolding p_def by (simp add: wf_image_message)
  have mi: "message_image p = received dgram" unfolding p_def by (simp add: message_image_message)
  from get_option_some[OF wf] obtain v where v: "get_option p DHCP_VENDOR = Some v" by blast
  have q: "2 \<le> q \<and> q + unat (received dgram ! (q - 1)) \<le> 1264" if "v = Some q" for q
    using option_at_in[OF get_option_in[OF wf, of DHCP_VENDOR q]] v that mi by auto
  have r: "rd (received dgram) (q - 1) = Some (received dgram ! (q - 1))"
    "received dgram ! (q - 1) = 7 \<Longrightarrow> rdn (received dgram) q 7 = Some (slice (received dgram) q 7)"
    if "v = Some q" for q
    using q[OF that] by (auto simp: rd_def rdn_def)
  show ?thesis
    using v r received_blit[of dgram] unfolding forced_flags_def p_def
    by (auto simp: get_packet_def Let_def message_size_def min.commute split: option.split)
qed

lemma received_sent_payload:
  assumes "wf_message p" "repr (m_options p) os"
  shows "\<exists>bs p'. sent_payload p = Some bs \<and> length bs \<le> 1264 \<and> image_message (received bs) = p' \<and>
    p' = p\<lparr>m_options := m_options p'\<rparr> \<and> repr (m_options p') os"
proof -
  let ?e = "length (enc os)"
  from sent_payload_image[OF assms(1,2)] obtain bs pad where bs: "sent_payload p = Some bs"
    "length bs \<le> 1264" "bs = take (241 + ?e) (message_image p) @ pad" "set pad \<subseteq> {0}" by blast
  from message_image_prefix[OF assms(1)] obtain pre where
    pre: "length pre = 240" "message_image p = pre @ m_options p" by blast
  have e: "?e < 1024" using assms(2) by (rule repr_size)
  from bs(4) have pad: "pad = replicate (length pad) 0"
    by (metis replicate_eqI singletonD subsetD)
  define z :: "u8 list" where "z = replicate (1023 - ?e) 0"
  define p' where "p' = p\<lparr>m_options := enc os @ DHCP_END # z\<rparr>"
  have lp: "length pad \<le> 1023 - ?e" using bs(2,3) pre repr_length[OF assms(2)] e by simp
  have t: "take (Suc ?e) (m_options p) = enc os @ [DHCP_END]" using assms(2) by (auto simp: repr_def)
  have "received bs = bs @ replicate (1264 - length bs) 0" using bs(2) by (simp add: received_def)
  also have "\<dots> = pre @ enc os @ [DHCP_END] @ pad @ replicate (1023 - ?e - length pad) 0"
    using bs(3) pre t e repr_length[OF assms(2)] by (simp add: min_def)
  also have "pad @ replicate (1023 - ?e - length pad) 0 = z"
    unfolding z_def using lp by (subst pad) (simp flip: replicate_add)
  also have "pre @ enc os @ [DHCP_END] @ z = message_image p'"
    using pre unfolding p'_def by (simp add: message_image_def)
  finally have r: "received bs = message_image p'" .
  have wf': "wf_message p'" using assms(1) e by (simp add: p'_def z_def wf_message_def)
  have "image_message (received bs) = p'" unfolding r using wf' by (rule image_message_image)
  moreover have "repr (m_options p') os" using assms(2) e by (auto simp: p'_def z_def repr_def)
  ultimately show ?thesis using bs(1,2) by (auto simp: p'_def)
qed

section \<open>Properties\<close>

text \<open>
  C19: receiving never reads outside the message buffer, whatever the datagram holds and
  however long it is; a non-negative result is the number of bytes received and comes
  with the DHCP cookie, and only the broadcast flag may differ from what was received.
\<close>

theorem get_packet_total:
  "\<exists>p n. get_packet rr = Some (p, n) \<and> wf_message p \<and> (n = - 1 \<or>
     (\<exists>dgram fl. rr = Some dgram \<and> n = int (min 1264 (length dgram)) \<and> m_cookie p = DHCP_MAGIC \<and>
        p = image_message (received dgram)\<lparr>m_flags := fl\<rparr> \<and>
        fl AND 0x7FFF = m_flags (image_message (received dgram)) AND 0x7FFF))"
proof (cases rr)
  case None
  then show ?thesis by (simp add: get_packet_def)
next
  case (Some dgram)
  let ?p = "image_message (received dgram)"
  have wf: "wf_message (?p\<lparr>m_flags := fl\<rparr>)" for fl
    using wf_image_message[of "received dgram"] by (simp add: wf_message_def)
  show ?thesis
  proof (cases "m_cookie ?p = DHCP_MAGIC")
    case False
    then show ?thesis using Some wf[of "m_flags ?p"] by (simp add: get_packet_cases)
  next
    case True
    define fl where "fl = (case get_option ?p DHCP_VENDOR of
        Some (Some q) \<Rightarrow> if m_op ?p = BOOTREQUEST
          then forced_flags (received dgram) q (m_flags ?p) else m_flags ?p
      | _ \<Rightarrow> m_flags ?p)"
    have "fl AND 0x7FFF = m_flags ?p AND 0x7FFF"
      by (auto simp: fl_def forced_flags_mask split: option.split)
    with True Some wf[of fl] show ?thesis by (auto simp: get_packet_cases fl_def[symmetric])
  qed
qed





text \<open>
  \<^verbatim>\<open>kernel_packet\<close> leaves its socket open exactly when \<^verbatim>\<open>SO_REUSEADDR\<close>, \<^verbatim>\<open>bind\<close> or
  \<^verbatim>\<open>connect\<close> fails after the socket was opened (and bound to its device).
\<close>

theorem kernel_packet_leak:
  assumes "wf_message p" "repr (m_options p) os"
  shows "\<exists>r. kernel_packet env p sip sport dip dport ifname = Some r \<and>
    (s_leaked r = 1 \<longleftrightarrow> e_socket env \<and> (ifname = None \<or> e_bindtodevice env) \<and>
       \<not> (e_reuseaddr env \<and> e_bind env \<and> e_connect env)) \<and>
    (s_frame r \<noteq> None \<longrightarrow> s_leaked r = 0 \<and> sent_payload p = Some (ud_bytes (the (s_frame r))))"
proof -
  from calc_length_repr[OF assms] obtain p' n where c: "calc_length p = Some (p', n)" "n \<le> 1264"
    "wf_message p'" by blast
  then have "rdn (message_image p') 0 n = Some (take n (message_image p'))"
    by (simp add: rdn_def slice_def length_message_image)
  with c(1) show ?thesis by (auto simp: kernel_packet_def sent_payload_def)
qed

theorem kernel_packet_leak_witness:
  "\<exists>r. kernel_packet \<lparr>e_socket = True, e_bindtodevice = True, e_reuseaddr = True, e_bind = False,
      e_connect = True, e_result = 0\<rparr> sample_message 0 67 1 68 None = Some r \<and> s_leaked r = 1"
  using kernel_packet_leak[OF wf_sample_message repr_sample, of
      "\<lparr>e_socket = True, e_bindtodevice = True, e_reuseaddr = True, e_bind = False,
        e_connect = True, e_result = 0\<rparr>" 0 67 1 68 None]
  by auto

text \<open>
  The uptime is the number the first readable \<^verbatim>\<open>/proc/uptime\<close> of twelve attempts starts
  with, and 0 when all twelve fail.
\<close>

theorem getSysUpTime_value:
  "getSysUpTime opens = (case find (\<lambda>k. opens k \<noteq> None) [0..<12] of
     None \<Rightarrow> 0 | Some k \<Rightarrow> atol (take 31 (the (opens k))))"
proof -
  have "getSysUpTime_loop opens k n = (case find (\<lambda>k. opens k \<noteq> None) [k..<k + n] of
     None \<Rightarrow> 0 | Some j \<Rightarrow> atol (take 31 (the (opens j))))" for k n
  proof (induction n arbitrary: k)
    case (Suc n)
    have "[k..<k + Suc n] = k # [Suc k..<Suc k + n]" by (simp add: upt_conv_Cons)
    with Suc[of "k + 1"] show ?case by (auto split: option.split)
  qed simp
  from this[of 0 12] show ?thesis by (simp add: getSysUpTime_def)
qed

end
