(* ===== verification/Dhcp_Net.thy ===== *)
theory Dhcp_Net
  imports Dhcp_Types
begin

text \<open>
  \<^verbatim>\<open>udhcp/socket.c\<close> and \<^verbatim>\<open>udhcp/arpping.c\<close>: reading the address of an interface,
  opening the server's sockets, and the ARP probe that decides whether an address is in
  use.  The kernel's answers are parameters: \<open>if_answer\<close> for the ioctls of an
  interface, \<open>sock_answer\<close> for the calls that open a socket, and the list of
  \<open>arp_event\<close>s that arrive on the ARP socket before it falls silent.  Interface names
  fit the kernel's 16 byte name field.
\<close>

section \<open>Interfaces and sockets\<close>

record if_answer =
  i_socket :: bool
  i_addr :: "u32 option"
  i_index :: "int option"
  i_hwaddr :: "u8 list option"

record if_info =
  x_ifindex :: int
  x_addr :: u32
  x_arp :: "u8 list"

record if_result =
  r_ret :: int
  r_info :: if_info
  r_open :: nat

text \<open>\<open>want_addr\<close> is false when the caller passes \<^verbatim>\<open>NULL\<close> for the address.\<close>

definition read_interface :: "if_answer \<Rightarrow> bool \<Rightarrow> if_info \<Rightarrow> if_result" where
  "read_interface a want_addr x =
     (if \<not> i_socket a then \<lparr>r_ret = - 1, r_info = x, r_open = 0\<rparr>
      else case (if want_addr then i_addr a else Some (x_addr x)) of
        None \<Rightarrow> \<lparr>r_ret = - 1, r_info = x, r_open = 1\<rparr>
      | Some ad \<Rightarrow>
         (let x1 = x\<lparr>x_addr := ad\<rparr> in
          case i_index a of
            None \<Rightarrow> \<lparr>r_ret = - 1, r_info = x1, r_open = 1\<rparr>
          | Some idx \<Rightarrow>
             (let x2 = x1\<lparr>x_ifindex := idx\<rparr> in
              case i_hwaddr a of
                None \<Rightarrow> \<lparr>r_ret = - 1, r_info = x2, r_open = 1\<rparr>
              | Some hw \<Rightarrow> \<lparr>r_ret = 0, r_info = x2\<lparr>x_arp := take 6 hw\<rparr>, r_open = 0\<rparr>)))"

record sock_answer =
  k_fd :: int
  k_reuseaddr :: bool
  k_broadcast :: bool
  k_bindtodevice :: bool
  k_bind :: bool

text \<open>The result of opening a socket: the return value and the descriptors then open.\<close>

definition listen_socket :: "sock_answer \<Rightarrow> int \<times> nat" where
  "listen_socket k =
     (if k_fd k < 0 then (- 1, 0)
      else if \<not> k_reuseaddr k then (- 1, 0)
      else if \<not> k_broadcast k then (- 1, 0)
      else if \<not> k_bindtodevice k then (- 1, 0)
      else if \<not> k_bind k then (- 1, 0)
      else (k_fd k, 1))"

definition dhcpd_listen_socket :: "sock_answer \<Rightarrow> int \<times> nat" where
  "dhcpd_listen_socket k =
     (if k_fd k < 0 then (- 1, 0)
      else if \<not> k_reuseaddr k then (- 1, 0)
      else if \<not> k_broadcast k then (- 1, 0)
      else if \<not> k_bind k then (- 1, 0)
      else (k_fd k, 1))"

definition raw_socket :: "sock_answer \<Rightarrow> int \<times> nat" where
  "raw_socket k =
     (if k_fd k < 0 then (- 1, 0) else if \<not> k_bind k then (- 1, 0) else (k_fd k, 1))"

section \<open>ARP probes\<close>

record arpMsg =
  a_dest :: "u8 list"
  a_source :: "u8 list"
  a_proto :: u16
  a_htype :: u16
  a_ptype :: u16
  a_hlen :: u8
  a_plen :: u8
  a_operation :: u16
  a_sHaddr :: "u8 list"
  a_sInaddr :: u32
  a_tHaddr :: "u8 list"
  a_tInaddr :: u32

abbreviation (input) "ARPOP_REQUEST \<equiv> (1 :: u16)"
abbreviation (input) "ARPOP_REPLY \<equiv> (2 :: u16)"

definition MAC_BCAST_ADDR :: "u8 list" where
  "MAC_BCAST_ADDR = replicate 6 0xff"

definition mkArpMsg :: "u16 \<Rightarrow> u32 \<Rightarrow> u8 list \<Rightarrow> u32 \<Rightarrow> u8 list \<Rightarrow> arpMsg" where
  "mkArpMsg opcode tInaddr tHaddr sInaddr sHaddr = \<lparr>
     a_dest = MAC_BCAST_ADDR, a_source = take 6 sHaddr, a_proto = 0x0806,
     a_htype = 1, a_ptype = 0x0800, a_hlen = 6, a_plen = 4, a_operation = opcode,
     a_sHaddr = take 6 sHaddr, a_sInaddr = sInaddr,
     a_tHaddr = (if opcode = ARPOP_REPLY then take 6 tHaddr else replicate 6 0),
     a_tInaddr = tInaddr \<rparr>"

text \<open>The frame on the wire: 42 bytes and 18 bytes of padding.\<close>

definition arp_image :: "arpMsg \<Rightarrow> u8 list" where
  "arp_image a = a_dest a @ a_source a @ be16_bytes (a_proto a) @ be16_bytes (a_htype a) @
     be16_bytes (a_ptype a) @ [a_hlen a, a_plen a] @ be16_bytes (a_operation a) @
     a_sHaddr a @ be32_bytes (a_sInaddr a) @ a_tHaddr a @ be32_bytes (a_tInaddr a) @ replicate 18 0"

text \<open>
  What a pass through the loop of \<^verbatim>\<open>arpCheck\<close> sees, with the seconds that went by:
  \<^verbatim>\<open>select\<close> fails (interrupted or not), or a frame is readable (\<open>None\<close>: \<^verbatim>\<open>recv\<close>
  fails).  After the last event nothing arrives any more, and the next \<^verbatim>\<open>select\<close> waits
  for the remaining time.
\<close>

datatype arp_event = SelectFails bool int | Readable "arpMsg option" int

definition arp_match :: "u32 \<Rightarrow> u8 list \<Rightarrow> arpMsg \<Rightarrow> bool" where
  "arp_match inaddr haddr m \<longleftrightarrow>
     a_operation m = ARPOP_REPLY \<and> a_tHaddr m = take 6 haddr \<and> a_sInaddr m = inaddr"

fun arp_loop :: "u32 \<Rightarrow> u8 list \<Rightarrow> arp_event list \<Rightarrow> int \<Rightarrow> arpMsg \<Rightarrow> int \<Rightarrow> int" where
  "arp_loop inaddr haddr [] timeout m rv = rv"
| "arp_loop inaddr haddr (SelectFails eintr dt # es) timeout m rv =
     (if timeout \<le> 0 then rv
      else arp_loop inaddr haddr es (timeout - dt) m (if eintr then rv else 0))"
| "arp_loop inaddr haddr (Readable got dt # es) timeout m rv =
     (if timeout \<le> 0 then rv
      else let m' = (case got of None \<Rightarrow> m | Some x \<Rightarrow> x);
               rv' = (if got = None then 0 else rv) in
        if arp_match inaddr haddr m' then 0
        else arp_loop inaddr haddr es (timeout - dt) m' rv')"

record arp_env =
  p_sendto :: bool
  p_events :: "arp_event list"

definition arpCheck :: "arp_env \<Rightarrow> u32 \<Rightarrow> u32 \<Rightarrow> u8 list \<Rightarrow> int \<Rightarrow> int" where
  "arpCheck env inaddr addr haddr timeout =
     arp_loop inaddr haddr (p_events env) timeout
       (mkArpMsg ARPOP_REQUEST inaddr [] addr haddr) (if p_sendto env then 1 else 0)"

definition arpping :: "arp_env \<Rightarrow> u32 \<Rightarrow> u32 \<Rightarrow> u8 list \<Rightarrow> int" where
  "arpping env yiaddr ip arp = arpCheck env yiaddr ip (take 6 arp) 2"

section \<open>Lemmas\<close>

lemma read_interface_complete:
  "i_socket a \<Longrightarrow> i_addr a = Some ad \<Longrightarrow> i_index a = Some idx \<Longrightarrow> i_hwaddr a = Some hw \<Longrightarrow>
   read_interface a True x = \<lparr>r_ret = 0,
     r_info = x\<lparr>x_addr := ad, x_ifindex := idx, x_arp := take 6 hw\<rparr>, r_open = 0\<rparr>"
  by (simp add: read_interface_def Let_def)

text \<open>Reading twice with the same answers changes nothing more.\<close>

lemma read_interface_idem:
  "r_info (read_interface a w (r_info (read_interface a w x))) = r_info (read_interface a w x)"
  by (auto simp: read_interface_def Let_def split: option.split)

lemma length_arp_image:
  "length sh = 6 \<Longrightarrow> length th = 6 \<Longrightarrow> length (arp_image (mkArpMsg op ti th si sh)) = 60"
  by (simp add: arp_image_def mkArpMsg_def MAC_BCAST_ADDR_def)

text \<open>The events that are looked at before the time is used up.\<close>

fun event_time :: "arp_event \<Rightarrow> int" where
  "event_time (SelectFails e dt) = dt"
| "event_time (Readable g dt) = dt"

fun seen :: "int \<Rightarrow> arp_event list \<Rightarrow> arp_event list" where
  "seen timeout [] = []"
| "seen timeout (e # es) = (if timeout \<le> 0 then [] else e # seen (timeout - event_time e) es)"

fun bad_event :: "u32 \<Rightarrow> u8 list \<Rightarrow> arp_event \<Rightarrow> bool" where
  "bad_event ad hw (SelectFails eintr dt) = (\<not> eintr)"
| "bad_event ad hw (Readable None dt) = True"
| "bad_event ad hw (Readable (Some m) dt) = arp_match ad hw m"

lemma arp_loop_value:
  assumes "\<not> arp_match ad hw m" "rv \<in> {0, 1}"
  shows "arp_loop ad hw es timeout m rv =
    (if rv = 1 \<and> (\<forall>e \<in> set (seen timeout es). \<not> bad_event ad hw e) then 1 else 0)"
  using assms
proof (induction ad hw es timeout m rv rule: arp_loop.induct)
  case (3 ad hw got dt es timeout m rv)
  then show ?case by (cases got) (auto simp: Let_def)
qed auto

section \<open>Properties\<close>

text \<open>
  C31: the ARP probe reports an address as free exactly when the request went out and,
  within the time it waits, no valid reply for the address came in and no socket call
  failed for a reason other than an interruption.
\<close>

theorem arpping_free_iff:
  "arpping env yiaddr ip arp = 1 \<longleftrightarrow>
     p_sendto env \<and> (\<forall>e \<in> set (seen 2 (p_events env)). \<not> bad_event yiaddr (take 6 arp) e)"
proof -
  have "\<not> arp_match yiaddr (take 6 arp) (mkArpMsg ARPOP_REQUEST yiaddr [] ip (take 6 arp))"
    by (simp add: arp_match_def mkArpMsg_def)
  then show ?thesis by (simp add: arpping_def arpCheck_def arp_loop_value)
qed

theorem arpping_free_iff_witness:
  "arpping \<lparr>p_sendto = True, p_events = [SelectFails True 1,
      Readable (Some (mkArpMsg ARPOP_REPLY 1 [2, 2, 2, 2, 2, 2] 9 [3, 3, 3, 3, 3, 3])) 1]\<rparr> 9 1
     [2, 2, 2, 2, 2, 2] \<noteq> 1"
  unfolding arpping_free_iff by (simp add: arp_match_def mkArpMsg_def)

text \<open>
  \<^verbatim>\<open>read_interface\<close> succeeds exactly when the kernel answers all the queries; on a
  failure after the socket was opened the socket stays open.
\<close>

theorem read_interface_result:
  "(r_ret (read_interface a w x) = 0 \<longleftrightarrow>
      i_socket a \<and> (w \<longrightarrow> i_addr a \<noteq> None) \<and> i_index a \<noteq> None \<and> i_hwaddr a \<noteq> None) \<and>
   r_ret (read_interface a w x) \<in> {0, - 1} \<and>
   r_open (read_interface a w x) = (if i_socket a \<and> r_ret (read_interface a w x) \<noteq> 0 then 1 else 0)"
  by (auto simp: read_interface_def Let_def split: option.split)

theorem read_interface_result_witness:
  "r_open (read_interface \<lparr>i_socket = True, i_addr = None, i_index = None, i_hwaddr = None\<rparr> True
      \<lparr>x_ifindex = 0, x_addr = 0, x_arp = []\<rparr>) = 1"
  using read_interface_result[of "\<lparr>i_socket = True, i_addr = None, i_index = None, i_hwaddr = None\<rparr>" True
      "\<lparr>x_ifindex = 0, x_addr = 0, x_arp = []\<rparr>"] by simp

end
