(* ===== verification/Dhcp_Leases.thy ===== *)
theory Dhcp_Leases
  imports Dhcp_Options Dhcp_Net
begin

text \<open>
  \<^verbatim>\<open>udhcp/leases.c\<close>: the lease table and the choice of an address.  The table is
  allocated with \<^verbatim>\<open>max_leases\<close> entries when the server starts, so a loop up to
  \<^verbatim>\<open>max_leases\<close> runs over the whole list; a pointer to an entry is its index.  \<open>now\<close>
  is the uptime, which does not advance while one message is handled.
\<close>

section \<open>The lease table\<close>

definition blank_chaddr :: "u8 list \<Rightarrow> bool" where
  "blank_chaddr chaddr \<longleftrightarrow> (\<forall>b \<in> set chaddr. b = 0)"

definition clear_lease :: "dhcpOfferedAddr list \<Rightarrow> u8 list \<Rightarrow> u32 \<Rightarrow> dhcpOfferedAddr list" where
  "clear_lease leases chaddr yiaddr =
     map (\<lambda>l. if (\<not> blank_chaddr chaddr \<and> l_chaddr l = chaddr) \<or> (yiaddr \<noteq> 0 \<and> l_yiaddr l = yiaddr)
               then zero_lease else l) leases"

definition lease_expired :: "dhcpOfferedAddr \<Rightarrow> u32 \<Rightarrow> bool" where
  "lease_expired l now \<longleftrightarrow> l_expires l < now"

fun oldest_loop :: "dhcpOfferedAddr list \<Rightarrow> nat \<Rightarrow> u32 \<Rightarrow> nat option \<Rightarrow> nat option" where
  "oldest_loop [] i oldest_lease oldest = oldest"
| "oldest_loop (l # ls) i oldest_lease oldest =
     (if oldest_lease > l_expires l then oldest_loop ls (i + 1) (l_expires l) (Some i)
      else oldest_loop ls (i + 1) oldest_lease oldest)"

definition oldest_expired_lease :: "dhcpOfferedAddr list \<Rightarrow> u32 \<Rightarrow> nat option" where
  "oldest_expired_lease leases now = oldest_loop leases 0 now None"

definition add_lease ::
  "dhcpOfferedAddr list \<Rightarrow> u32 \<Rightarrow> u8 list \<Rightarrow> u32 \<Rightarrow> u32 \<Rightarrow> dhcpOfferedAddr list \<times> nat option" where
  "add_lease leases now chaddr yiaddr lease =
     (let ls = clear_lease leases chaddr yiaddr in
      case oldest_expired_lease ls now of
        None \<Rightarrow> (ls, None)
      | Some i \<Rightarrow> (ls[i := (ls ! i)\<lparr>l_chaddr := chaddr, l_yiaddr := yiaddr, l_expires := now + lease\<rparr>],
                  Some i))"

fun find_index :: "('a \<Rightarrow> bool) \<Rightarrow> nat \<Rightarrow> 'a list \<Rightarrow> nat option" where
  "find_index P i [] = None"
| "find_index P i (x # xs) = (if P x then Some i else find_index P (i + 1) xs)"

definition find_lease_by_chaddr :: "dhcpOfferedAddr list \<Rightarrow> u8 list \<Rightarrow> nat option" where
  "find_lease_by_chaddr leases chaddr = find_index (\<lambda>l. l_chaddr l = chaddr) 0 leases"

definition find_lease_two_by_chaddr :: "dhcpOfferedAddr list \<Rightarrow> u8 list \<Rightarrow> nat option" where
  "find_lease_two_by_chaddr leases2 chaddr = find_index (\<lambda>l. l_chaddr l = chaddr) 0 leases2"

definition find_lease_by_yiaddr :: "dhcpOfferedAddr list \<Rightarrow> u32 \<Rightarrow> nat option" where
  "find_lease_by_yiaddr leases yiaddr = find_index (\<lambda>l. l_yiaddr l = yiaddr) 0 leases"

section \<open>Choosing an address\<close>

text \<open>As in C, the result is 0 for a reserved address and 1 otherwise.\<close>

fun reserved_loop :: "u32 list \<Rightarrow> u32 \<Rightarrow> u32" where
  "reserved_loop [] ip = 1"
| "reserved_loop (a # as) ip = (if a = 0 then 1 else if a = ip then 0 else reserved_loop as ip)"

definition reservedIp :: "server_config \<Rightarrow> u32 \<Rightarrow> u32" where
  "reservedIp cfg ip = reserved_loop (take MAXRESERVEDIP (c_reservedAddr cfg)) ip"

record net_env =
  n_if :: if_answer
  n_arp :: "u32 \<Rightarrow> arp_env"

definition refresh_interface :: "net_env \<Rightarrow> server_config \<Rightarrow> server_config" where
  "refresh_interface env cfg =
     (let x = r_info (read_interface (n_if env) True
            \<lparr>x_ifindex = c_ifindex cfg, x_addr = c_server cfg, x_arp = c_arp cfg\<rparr>) in
      cfg\<lparr>c_ifindex := x_ifindex x, c_server := x_addr x, c_arp := x_arp x\<rparr>)"

definition check_ip :: "net_env \<Rightarrow> server_config \<Rightarrow> u32 \<Rightarrow> int \<times> server_config" where
  "check_ip env cfg addr =
     (let cfg' = refresh_interface env cfg in
      (if arpping (n_arp env addr) addr (c_server cfg') (c_arp cfg') = 0 then 1 else 0, cfg'))"

definition router_of :: "server_config \<Rightarrow> u32" where
  "router_of cfg =
     (case find_option (c_options cfg) DHCP_ROUTER of
        None \<Rightarrow> 0
      | Some d \<Rightarrow> at32 d 2)"

definition not_taken :: "dhcpOfferedAddr list \<Rightarrow> u32 \<Rightarrow> bool \<Rightarrow> u32 \<Rightarrow> bool" where
  "not_taken leases now check_expired addr \<longleftrightarrow>
     (case find_lease_by_yiaddr leases addr of
        None \<Rightarrow> True
      | Some i \<Rightarrow> check_expired \<and> lease_expired (leases ! i) now)"

partial_function (option) find_address_loop ::
  "net_env \<Rightarrow> dhcpOfferedAddr list \<Rightarrow> u32 \<Rightarrow> bool \<Rightarrow> u32 \<Rightarrow> server_config \<Rightarrow> u32 \<Rightarrow> (u32 \<times> server_config) option" where
  "find_address_loop env leases now check_expired router_ip cfg addr =
     (if addr \<le> c_end cfg then
        if addr AND 0xFF = 0 then find_address_loop env leases now check_expired router_ip cfg (addr + 1)
        else if addr AND 0xFF = 0xFF then find_address_loop env leases now check_expired router_ip cfg (addr + 1)
        else if reservedIp cfg addr = 0 then find_address_loop env leases now check_expired router_ip cfg (addr + 1)
        else if addr = c_server cfg \<or> addr = router_ip
        then find_address_loop env leases now check_expired router_ip cfg (addr + 1)
        else if not_taken leases now check_expired addr then
          (let (r, cfg') = check_ip env cfg addr in
           if r = 0 then Some (addr, cfg')
           else find_address_loop env leases now check_expired router_ip cfg' (addr + 1))
        else find_address_loop env leases now check_expired router_ip cfg (addr + 1)
      else Some (0, cfg))"

definition find_address ::
  "net_env \<Rightarrow> dhcpOfferedAddr list \<Rightarrow> u32 \<Rightarrow> server_config \<Rightarrow> bool \<Rightarrow> (u32 \<times> server_config) option" where
  "find_address env leases now cfg check_expired =
     find_address_loop env leases now check_expired (router_of cfg) cfg (c_start cfg)"

section \<open>Search in the table\<close>

lemma find_index_Some:
  "find_index P i xs = Some j \<Longrightarrow>
   i \<le> j \<and> j - i < length xs \<and> P (xs ! (j - i)) \<and> (\<forall>k < j - i. \<not> P (xs ! k))"
proof (induction P i xs rule: find_index.induct)
  case (2 P i x xs)
  show ?case
  proof (cases "P x")
    case True
    with 2(2) show ?thesis by simp
  next
    case False
    with 2 have IH: "i + 1 \<le> j" "j - (i + 1) < length xs" "P (xs ! (j - (i + 1)))"
      "\<forall>k < j - (i + 1). \<not> P (xs ! k)" by simp_all
    then have "j - i = Suc (j - (i + 1))" by simp
    with IH False show ?thesis by (auto simp: less_Suc_eq_0_disj)
  qed
qed simp

lemma find_index_None: "find_index P i xs = None \<longleftrightarrow> (\<forall>x \<in> set xs. \<not> P x)"
  by (induction P i xs rule: find_index.induct) auto

lemma find_index_unique:
  assumes "j < length xs" "P (xs ! j)" "\<forall>k < length xs. P (xs ! k) \<longrightarrow> k = j"
  shows "find_index P 0 xs = Some j"
proof (cases "find_index P 0 xs")
  case None
  then have "\<not> P (xs ! j)" using assms(1) by (simp add: find_index_None)
  with assms(2) show ?thesis by contradiction
next
  case (Some k)
  from find_index_Some[OF this] assms(3) have "k = j" by auto
  with Some show ?thesis by simp
qed

lemma oldest_loop_None:
  "oldest_loop ls i ol r = None \<Longrightarrow> r = None \<and> (\<forall>l \<in> set ls. ol \<le> l_expires l)"
  by (induction ls i ol r rule: oldest_loop.induct) (auto simp: not_less split: if_splits)

lemma oldest_loop_Some:
  "oldest_loop ls i ol r = Some j \<Longrightarrow>
   (r = Some j \<and> (\<forall>l \<in> set ls. ol \<le> l_expires l)) \<or>
   (i \<le> j \<and> j - i < length ls \<and> l_expires (ls ! (j - i)) < ol \<and>
    (\<forall>l \<in> set ls. l_expires (ls ! (j - i)) \<le> l_expires l))"
proof (induction ls i ol r rule: oldest_loop.induct)
  case (2 l ls i ol r)
  show ?case
  proof (cases "l_expires l < ol")
    case True
    with 2 have "(j = i \<and> (\<forall>l' \<in> set ls. l_expires l \<le> l_expires l')) \<or>
      (i + 1 \<le> j \<and> j - (i + 1) < length ls \<and> l_expires (ls ! (j - (i + 1))) < l_expires l \<and>
       (\<forall>l' \<in> set ls. l_expires (ls ! (j - (i + 1))) \<le> l_expires l'))" by auto
    then show ?thesis
    proof
      assume "i + 1 \<le> j \<and> j - (i + 1) < length ls \<and> l_expires (ls ! (j - (i + 1))) < l_expires l \<and>
       (\<forall>l' \<in> set ls. l_expires (ls ! (j - (i + 1))) \<le> l_expires l')"
      moreover from this have "(l # ls) ! (j - i) = ls ! (j - (i + 1))" by (simp add: nth_Cons')
      ultimately show ?thesis using True by (auto intro: less_imp_le)
    qed (use True in auto)
  next
    case False
    with 2 have "(r = Some j \<and> (\<forall>l' \<in> set ls. ol \<le> l_expires l')) \<or>
      (i + 1 \<le> j \<and> j - (i + 1) < length ls \<and> l_expires (ls ! (j - (i + 1))) < ol \<and>
       (\<forall>l' \<in> set ls. l_expires (ls ! (j - (i + 1))) \<le> l_expires l'))" by auto
    then show ?thesis
    proof
      assume a: "i + 1 \<le> j \<and> j - (i + 1) < length ls \<and> l_expires (ls ! (j - (i + 1))) < ol \<and>
       (\<forall>l' \<in> set ls. l_expires (ls ! (j - (i + 1))) \<le> l_expires l')"
      moreover from a have "(l # ls) ! (j - i) = ls ! (j - (i + 1))" by (simp add: nth_Cons')
      ultimately show ?thesis using False by auto
    qed (use False in auto)
  qed
qed simp

lemma oldest_expired_None:
  "oldest_expired_lease ls now = None \<longleftrightarrow> (\<forall>l \<in> set ls. \<not> lease_expired l now)"
proof
  assume "\<forall>l \<in> set ls. \<not> lease_expired l now"
  then have "\<not> (i < length ls \<and> l_expires (ls ! i) < now)" for i
    by (auto simp: lease_expired_def)
  then show "oldest_expired_lease ls now = None"
    using oldest_loop_Some[of ls 0 now None] unfolding oldest_expired_lease_def
    by (cases "oldest_loop ls 0 now None") auto
qed (auto simp: oldest_expired_lease_def lease_expired_def not_less dest: oldest_loop_None)

lemma oldest_expired_Some:
  assumes "oldest_expired_lease ls now = Some j"
  shows "j < length ls" "lease_expired (ls ! j) now"
    "\<forall>l \<in> set ls. l_expires (ls ! j) \<le> l_expires l"
proof -
  from oldest_loop_Some[of ls 0 now None j] assms
  have "j < length ls \<and> l_expires (ls ! j) < now \<and> (\<forall>l \<in> set ls. l_expires (ls ! j) \<le> l_expires l)"
    unfolding oldest_expired_lease_def by simp
  then show "j < length ls" "lease_expired (ls ! j) now"
    "\<forall>l \<in> set ls. l_expires (ls ! j) \<le> l_expires l"
    by (simp_all add: lease_expired_def)
qed

section \<open>The table invariant\<close>

text \<open>
  No two entries carry the same non-zero address or the same non-blank hardware address,
  and every hardware address has 16 bytes.
\<close>

definition lease_inv :: "dhcpOfferedAddr list \<Rightarrow> bool" where
  "lease_inv ls \<longleftrightarrow> (\<forall>l \<in> set ls. length (l_chaddr l) = 16) \<and>
     (\<forall>i < length ls. \<forall>j < length ls. i \<noteq> j \<longrightarrow>
        (\<not> blank_chaddr (l_chaddr (ls ! i)) \<longrightarrow> l_chaddr (ls ! i) \<noteq> l_chaddr (ls ! j)) \<and>
        (l_yiaddr (ls ! i) \<noteq> 0 \<longrightarrow> l_yiaddr (ls ! i) \<noteq> l_yiaddr (ls ! j)))"

definition lease_matches :: "u8 list \<Rightarrow> u32 \<Rightarrow> dhcpOfferedAddr \<Rightarrow> bool" where
  "lease_matches chaddr yiaddr l \<longleftrightarrow>
     (\<not> blank_chaddr chaddr \<and> l_chaddr l = chaddr) \<or> (yiaddr \<noteq> 0 \<and> l_yiaddr l = yiaddr)"

lemma blank_zero_lease [simp]: "blank_chaddr (l_chaddr zero_lease)" "l_yiaddr zero_lease = 0"
  "length (l_chaddr zero_lease) = 16" "l_expires zero_lease = 0"
  by (simp_all add: blank_chaddr_def zero_lease_def)

lemma length_clear_lease [simp]: "length (clear_lease ls ch yi) = length ls"
  by (simp add: clear_lease_def)

lemma clear_lease_nth:
  "i < length ls \<Longrightarrow> clear_lease ls ch yi ! i = (if lease_matches ch yi (ls ! i) then zero_lease else ls ! i)"
  by (simp add: clear_lease_def lease_matches_def)

lemma not_matches_zero [simp]: "\<not> lease_matches ch yi zero_lease"
  using blank_zero_lease by (auto simp: lease_matches_def)

lemma clear_lease_no_match: "l \<in> set (clear_lease ls ch yi) \<Longrightarrow> \<not> lease_matches ch yi l"
  by (auto simp: clear_lease_def lease_matches_def[symmetric] split: if_splits)

lemma clear_lease_inv: "lease_inv ls \<Longrightarrow> lease_inv (clear_lease ls ch yi)"
  unfolding lease_inv_def by (auto simp: clear_lease_nth) (auto simp: clear_lease_def)

lemma add_lease_cases:
  "add_lease ls now ch yi d = (ls', r) \<Longrightarrow>
   (case r of
      None \<Rightarrow> ls' = clear_lease ls ch yi \<and> (\<forall>l \<in> set ls'. \<not> lease_expired l now)
    | Some i \<Rightarrow> i < length ls \<and> lease_expired (clear_lease ls ch yi ! i) now \<and>
        ls' = (clear_lease ls ch yi)[i := (clear_lease ls ch yi ! i)
                \<lparr>l_chaddr := ch, l_yiaddr := yi, l_expires := now + d\<rparr>])"
  using oldest_expired_Some[of "clear_lease ls ch yi" now] oldest_expired_None[of "clear_lease ls ch yi" now]
  by (auto simp: add_lease_def Let_def split: option.splits)

lemma lease_inv_update:
  assumes "lease_inv ls" "i < length ls" "length ch = 16" "\<forall>l \<in> set ls. \<not> lease_matches ch yi l"
    "l_chaddr l = ch" "l_yiaddr l = yi"
  shows "lease_inv (ls[i := l])"
proof -
  have nm: "\<not> lease_matches ch yi (ls ! j)" if "j < length ls" for j using assms(4) that by simp
  have d: "(\<not> blank_chaddr (l_chaddr (ls[i := l] ! a)) \<longrightarrow> l_chaddr (ls[i := l] ! a) \<noteq> l_chaddr (ls[i := l] ! b)) \<and>
      (l_yiaddr (ls[i := l] ! a) \<noteq> 0 \<longrightarrow> l_yiaddr (ls[i := l] ! a) \<noteq> l_yiaddr (ls[i := l] ! b))"
    if "a < length ls" "b < length ls" "a \<noteq> b" for a b
  proof -
    consider "a = i" | "b = i" | "a \<noteq> i" "b \<noteq> i" by blast
    then show ?thesis
    proof cases
      case 3
      with assms(1) that show ?thesis by (simp add: lease_inv_def)
    qed (use nm[OF that(1)] nm[OF that(2)] that assms(5,6) in \<open>auto simp: lease_matches_def\<close>)
  qed
  have "\<forall>x \<in> set (ls[i := l]). length (l_chaddr x) = 16"
    using assms(1,3,5) set_update_subset_insert[of ls i l] by (auto simp: lease_inv_def)
  with d show ?thesis unfolding lease_inv_def length_list_update by blast
qed

lemma add_lease_inv:
  assumes "lease_inv ls" "length ch = 16"
  shows "lease_inv (fst (add_lease ls now ch yi d))"
proof -
  obtain ls' r where a: "add_lease ls now ch yi d = (ls', r)" by fastforce
  show ?thesis
  proof (cases r)
    case None
    with add_lease_cases[OF a] a show ?thesis by (simp add: clear_lease_inv assms)
  next
    case (Some i)
    with add_lease_cases[OF a] have i: "i < length ls"
      "ls' = (clear_lease ls ch yi)[i := (clear_lease ls ch yi ! i)
                \<lparr>l_chaddr := ch, l_yiaddr := yi, l_expires := now + d\<rparr>]" by simp_all
    with a show ?thesis
      by (auto intro!: lease_inv_update[of _ _ ch yi] clear_lease_inv assms dest: clear_lease_no_match)
  qed
qed

lemma add_lease_entry:
  assumes "add_lease ls now ch yi d = (ls', Some i)"
  shows "length ls' = length ls" "i < length ls'"
    "l_chaddr (ls' ! i) = ch" "l_yiaddr (ls' ! i) = yi" "l_expires (ls' ! i) = now + d"
    "\<And>k. k < length ls' \<Longrightarrow> k \<noteq> i \<Longrightarrow>
       ls' ! k = (if lease_matches ch yi (ls ! k) then zero_lease else ls ! k)"
    "\<And>k. k < length ls' \<Longrightarrow> k \<noteq> i \<Longrightarrow> \<not> lease_matches ch yi (ls' ! k)"
  using add_lease_cases[OF assms] by (auto simp: clear_lease_nth)

lemma add_lease_find:
  assumes "add_lease ls now ch yi d = (ls', Some i)"
  shows "\<not> blank_chaddr ch \<Longrightarrow> find_lease_by_chaddr ls' ch = Some i"
    and "yi \<noteq> 0 \<Longrightarrow> find_lease_by_yiaddr ls' yi = Some i"
  unfolding find_lease_by_chaddr_def find_lease_by_yiaddr_def
  using add_lease_entry(2,3,4)[OF assms] add_lease_entry(7)[OF assms]
  by (auto intro!: find_index_unique simp: lease_matches_def)

text \<open>An expired entry is a place for a new lease.\<close>

lemma add_lease_room:
  assumes "add_lease ls now ch yi d = (ls', r)" "l \<in> set ls" "lease_expired l now" "0 < now"
  shows "r \<noteq> None"
proof -
  obtain k where k: "k < length ls" "ls ! k = l" using assms(2) by (auto simp: in_set_conv_nth)
  have "lease_expired (clear_lease ls ch yi ! k) now" using k assms(3,4) by (simp add: clear_lease_nth lease_expired_def)
  moreover have "clear_lease ls ch yi ! k \<in> set (clear_lease ls ch yi)" using k(1) by simp
  ultimately show ?thesis using add_lease_cases[OF assms(1)] by (cases r) auto
qed

text \<open>The entry of a known client is cleared first, so there is always a place for it.\<close>

lemma add_lease_known:
  assumes "add_lease ls now ch yi d = (ls', r)" "i < length ls" "l_chaddr (ls ! i) = ch" "\<not> blank_chaddr ch" "0 < now"
  shows "r \<noteq> None"
proof -
  have "clear_lease ls ch yi ! i = zero_lease" using assms(2-4) by (simp add: clear_lease_nth lease_matches_def)
  then have "zero_lease \<in> set (clear_lease ls ch yi)" using assms(2) by (metis length_clear_lease nth_mem)
  moreover have "lease_expired zero_lease now" using assms(5) by (simp add: lease_expired_def)
  ultimately show ?thesis using add_lease_cases[OF assms(1)] by (cases r) auto
qed

text \<open>A lease still running is not disturbed by leases for other clients and addresses.\<close>

lemma add_lease_frame:
  assumes "add_lease ls now ch yi d = (ls', r)" "k < length ls" "\<not> lease_matches ch yi (ls ! k)"
    "\<not> lease_expired (ls ! k) now"
  shows "ls' ! k = ls ! k"
  using add_lease_cases[OF assms(1)] assms(2-)
  by (cases r) (auto simp: clear_lease_nth nth_list_update)

section \<open>The search for an address\<close>

lemma refresh_interface_frame [simp]:
  "c_end (refresh_interface env cfg) = c_end cfg" "c_start (refresh_interface env cfg) = c_start cfg"
  "c_reservedAddr (refresh_interface env cfg) = c_reservedAddr cfg"
  "c_options (refresh_interface env cfg) = c_options cfg"
  by (simp_all add: refresh_interface_def Let_def)

lemma refresh_interface_idem [simp]:
  "refresh_interface env (refresh_interface env cfg) = refresh_interface env cfg"
proof -
  define x where "x = r_info (read_interface (n_if env) True
    \<lparr>x_ifindex = c_ifindex cfg, x_addr = c_server cfg, x_arp = c_arp cfg\<rparr>)"
  have eta: "\<lparr>x_ifindex = x_ifindex x, x_addr = x_addr x, x_arp = x_arp x\<rparr> = x" by simp
  have idem: "r_info (read_interface (n_if env) True x) = x" by (simp add: x_def read_interface_idem)
  have r: "refresh_interface env cfg = cfg\<lparr>c_ifindex := x_ifindex x, c_server := x_addr x, c_arp := x_arp x\<rparr>"
    by (simp add: refresh_interface_def x_def Let_def)
  show ?thesis unfolding r by (simp add: refresh_interface_def Let_def eta idem)
qed

definition candidate ::
  "net_env \<Rightarrow> dhcpOfferedAddr list \<Rightarrow> u32 \<Rightarrow> bool \<Rightarrow> u32 \<Rightarrow> server_config \<Rightarrow> u32 \<Rightarrow> bool" where
  "candidate env leases now ce router cfg a \<longleftrightarrow>
     a AND 0xFF \<noteq> 0 \<and> a AND 0xFF \<noteq> 0xFF \<and> reservedIp cfg a \<noteq> 0 \<and>
     a \<noteq> c_server cfg \<and> a \<noteq> router \<and> not_taken leases now ce a \<and>
     arpping (n_arp env a) a (c_server cfg) (c_arp cfg) \<noteq> 0"

text \<open>One pass of the loop, for a configuration that is up to date with its interface.\<close>

lemma find_address_loop_step:
  assumes "refresh_interface env cfg = cfg"
  shows "find_address_loop env ls now ce router cfg a =
    (if a \<le> c_end cfg
     then if candidate env ls now ce router cfg a then Some (a, cfg)
          else find_address_loop env ls now ce router cfg (a + 1)
     else Some (0, cfg))"
  using assms by (subst find_address_loop.simps) (simp add: candidate_def check_ip_def Let_def)

lemma find_address_loop_first:
  assumes "refresh_interface env cfg = cfg" "unat (c_end cfg) < 4294967295"
  shows "\<exists>r. find_address_loop env ls now ce router cfg a = Some (r, cfg) \<and>
    ((r = 0 \<and> (\<forall>b. a \<le> b \<and> b \<le> c_end cfg \<longrightarrow> \<not> candidate env ls now ce router cfg b)) \<or>
     (a \<le> r \<and> r \<le> c_end cfg \<and> candidate env ls now ce router cfg r \<and>
      (\<forall>b. a \<le> b \<and> b < r \<longrightarrow> \<not> candidate env ls now ce router cfg b)))"
proof (induction "unat (c_end cfg) + 1 - unat a" arbitrary: a rule: less_induct)
  case less
  note step = find_address_loop_step[OF assms(1), of ls now ce router a]
  show ?case
  proof (cases "a \<le> c_end cfg \<and> \<not> candidate env ls now ce router cfg a")
    case False
    with step show ?thesis by auto
  next
    case True
    then have le: "unat a \<le> unat (c_end cfg)" by (simp add: word_le_nat_alt)
    with assms(2) have u: "unat (a + 1) = unat a + 1" by (simp add: u32_add_1)
    have s: "find_address_loop env ls now ce router cfg a =
        find_address_loop env ls now ce router cfg (a + 1)" using step True by simp
    have ge: "a + 1 \<le> b \<longleftrightarrow> a \<le> b \<and> b \<noteq> a" for b
      using u by (auto simp: word_le_nat_alt word_unat_eq_iff)
    have "unat (c_end cfg) + 1 - unat (a + 1) < unat (c_end cfg) + 1 - unat a" using u le by simp
    from less[OF this] obtain r where r: "find_address_loop env ls now ce router cfg (a + 1) = Some (r, cfg)"
      and alt: "(r = 0 \<and> (\<forall>b. a + 1 \<le> b \<and> b \<le> c_end cfg \<longrightarrow> \<not> candidate env ls now ce router cfg b)) \<or>
        (a + 1 \<le> r \<and> r \<le> c_end cfg \<and> candidate env ls now ce router cfg r \<and>
         (\<forall>b. a + 1 \<le> b \<and> b < r \<longrightarrow> \<not> candidate env ls now ce router cfg b))" by blast
    from alt True ge show ?thesis unfolding s by (intro exI[of _ r] conjI r) metis
  qed
qed

text \<open>Whatever the interface reports, the search ends when the pool does not reach the top address.\<close>

definition admissible ::
  "server_config \<Rightarrow> dhcpOfferedAddr list \<Rightarrow> u32 \<Rightarrow> bool \<Rightarrow> u32 \<Rightarrow> u32 \<Rightarrow> bool" where
  "admissible cfg leases now ce router a \<longleftrightarrow>
     a \<le> c_end cfg \<and> reservedIp cfg a \<noteq> 0 \<and> a \<noteq> router \<and> not_taken leases now ce a"

lemma reservedIp_refresh [simp]: "reservedIp (refresh_interface env cfg) = reservedIp cfg"
  by (simp add: reservedIp_def[abs_def])

lemma find_address_loop_returns:
  assumes "unat (c_end cfg) < 4294967295"
  shows "\<exists>r cfg'. find_address_loop env ls now ce router cfg a = Some (r, cfg') \<and>
    (cfg' = cfg \<or> cfg' = refresh_interface env cfg) \<and>
    (r = 0 \<or> a \<le> r \<and> admissible cfg ls now ce router r)"
proof -
  have current: "\<exists>r. find_address_loop env ls now ce router (refresh_interface env cfg) b = Some (r, refresh_interface env cfg)
      \<and> (r = 0 \<or> b \<le> r \<and> admissible cfg ls now ce router r)" for b
    using find_address_loop_first[of env "refresh_interface env cfg" ls now ce router b] assms
    by (auto simp: candidate_def admissible_def)
  show ?thesis
  proof (induction "unat (c_end cfg) + 1 - unat a" arbitrary: a rule: less_induct)
    case less
    show ?case
    proof (cases "a \<le> c_end cfg")
      case False
      then show ?thesis by (subst find_address_loop.simps) simp
    next
      case True
      then have le: "unat a \<le> unat (c_end cfg)" by (simp add: word_le_nat_alt)
      with assms have u: "unat (a + 1) = unat a + 1" by (simp add: u32_add_1)
      then have mono: "a + 1 \<le> r \<Longrightarrow> a \<le> r" for r by (simp add: word_le_nat_alt)
      have "unat (c_end cfg) + 1 - unat (a + 1) < unat (c_end cfg) + 1 - unat a" using u le by simp
      from less[OF this] obtain r c where 1: "find_address_loop env ls now ce router cfg (a + 1) = Some (r, c)"
        "c = cfg \<or> c = refresh_interface env cfg" "r = 0 \<or> a \<le> r \<and> admissible cfg ls now ce router r"
        using mono by blast
      from current[of "a + 1"] obtain r' where
        2: "find_address_loop env ls now ce router (refresh_interface env cfg) (a + 1) = Some (r', refresh_interface env cfg)"
        "r' = 0 \<or> a \<le> r' \<and> admissible cfg ls now ce router r'" using mono by blast
      show ?thesis
        using 1 2 True by (subst find_address_loop.simps) (simp add: check_ip_def Let_def admissible_def)
    qed
  qed
qed

text \<open>A pool that reaches the top address and offers no candidate is searched forever.\<close>

lemma find_address_loop_result:
  assumes "find_address_loop env ls now ce router cfg a = Some y"
    "refresh_interface env cfg = cfg" "c_end cfg = 0xFFFFFFFF"
  shows "candidate env ls now ce router cfg (fst y)"
proof -
  have "refresh_interface env cfg = cfg \<longrightarrow> c_end cfg = 0xFFFFFFFF \<longrightarrow>
      candidate env ls now ce router cfg (fst y)"
  proof (rule find_address_loop.raw_induct[OF _ assms(1)], intro impI)
    fix loop env leases now check_expired router_ip cfg addr y
    assume IH: "\<And>env leases now check_expired router_ip cfg addr y.
        loop env leases now check_expired router_ip cfg addr = Some y \<Longrightarrow>
        refresh_interface env cfg = cfg \<longrightarrow> c_end cfg = 0xFFFFFFFF \<longrightarrow>
        candidate env leases now check_expired router_ip cfg (fst y)"
      and body: "(if addr \<le> c_end cfg then
        if addr AND 0xFF = 0 then loop env leases now check_expired router_ip cfg (addr + 1)
        else if addr AND 0xFF = 0xFF then loop env leases now check_expired router_ip cfg (addr + 1)
        else if reservedIp cfg addr = 0 then loop env leases now check_expired router_ip cfg (addr + 1)
        else if addr = c_server cfg \<or> addr = router_ip
        then loop env leases now check_expired router_ip cfg (addr + 1)
        else if not_taken leases now check_expired addr then
          (let (r, cfg') = check_ip env cfg addr in
           if r = 0 then Some (addr, cfg')
           else loop env leases now check_expired router_ip cfg' (addr + 1))
        else loop env leases now check_expired router_ip cfg (addr + 1)
      else Some (0, cfg)) = Some y"
      and cur: "refresh_interface env cfg = cfg" and top: "c_end cfg = 0xFFFFFFFF"
    have "loop env leases now check_expired router_ip cfg (addr + 1) = Some y \<or>
        (y = (addr, cfg) \<and> candidate env leases now check_expired router_ip cfg addr)"
      using body cur top unat_u32[of addr]
      by (simp add: candidate_def check_ip_def Let_def word_le_nat_alt split: if_splits)
    with IH cur top show "candidate env leases now check_expired router_ip cfg (fst y)" by fastforce
  qed
  with assms(2,3) show ?thesis by blast
qed

section \<open>The table as an interface\<close>

text \<open>
  What the daemon relies on: an added lease is found under its client, and a client
  whose lease still runs keeps it while leases for other clients and addresses are added.
\<close>

locale lease_store =
  fixes ok :: "'t \<Rightarrow> bool"
    and holds :: "'t \<Rightarrow> u8 list \<Rightarrow> u32 \<Rightarrow> u32 \<Rightarrow> bool"
    and add :: "'t \<Rightarrow> u32 \<Rightarrow> u8 list \<Rightarrow> u32 \<Rightarrow> u32 \<Rightarrow> 't \<times> nat option"
    and clear :: "'t \<Rightarrow> u8 list \<Rightarrow> u32 \<Rightarrow> 't"
  assumes add_ok: "ok t \<Longrightarrow> length ch = 16 \<Longrightarrow> ok (fst (add t now ch yi d))"
    and clear_ok: "ok t \<Longrightarrow> ok (clear t ch yi)"
    and add_holds: "ok t \<Longrightarrow> length ch = 16 \<Longrightarrow> \<not> blank_chaddr ch \<Longrightarrow> add t now ch yi d = (t', Some i) \<Longrightarrow>
      holds t' ch yi (now + d)"
    and add_keeps: "ok t \<Longrightarrow> length ch = 16 \<Longrightarrow> holds t ch' yi' ex \<Longrightarrow> \<not> blank_chaddr ch' \<Longrightarrow> ch' \<noteq> ch \<Longrightarrow> yi' \<noteq> yi \<Longrightarrow>
      \<not> ex < now \<Longrightarrow> holds (fst (add t now ch yi d)) ch' yi' ex"
    and clear_keeps: "ok t \<Longrightarrow> holds t ch' yi' ex \<Longrightarrow> \<not> blank_chaddr ch' \<Longrightarrow> ch' \<noteq> ch \<Longrightarrow> yi' \<noteq> yi \<Longrightarrow>
      holds (clear t ch yi) ch' yi' ex"
    and holds_unique: "ok t \<Longrightarrow> holds t ch yi ex \<Longrightarrow> holds t ch' yi ex' \<Longrightarrow> yi \<noteq> 0 \<Longrightarrow> ch = ch'"
begin

lemma two_clients:
  assumes "ok t" "length ch1 = 16" "length ch2 = 16" "\<not> blank_chaddr ch1" "\<not> blank_chaddr ch2"
    "ch1 \<noteq> ch2" "yi1 \<noteq> yi2" "add t now ch1 yi1 d1 = (t1, Some i)" "add t1 now ch2 yi2 d2 = (t2, Some j)"
    "\<not> now + d1 < now"
  shows "ok t2 \<and> holds t2 ch1 yi1 (now + d1) \<and> holds t2 ch2 yi2 (now + d2)"
proof -
  have ok1: "ok t1" using add_ok[OF assms(1,2), of now yi1 d1] assms(8) by simp
  have h1: "holds t1 ch1 yi1 (now + d1)" by (rule add_holds[OF assms(1,2,4,8)])
  have "ok t2" using add_ok[OF ok1 assms(3), of now yi2 d2] assms(9) by simp
  moreover have "holds t2 ch1 yi1 (now + d1)"
    using add_keeps[OF ok1 assms(3) h1 assms(4,6,7,10), of d2] assms(9) by simp
  moreover have "holds t2 ch2 yi2 (now + d2)" by (rule add_holds[OF ok1 assms(3,5,9)])
  ultimately show ?thesis by blast
qed

end

definition holds_lease :: "dhcpOfferedAddr list \<Rightarrow> u8 list \<Rightarrow> u32 \<Rightarrow> u32 \<Rightarrow> bool" where
  "holds_lease ls ch yi ex \<longleftrightarrow> (\<exists>i. find_lease_by_chaddr ls ch = Some i \<and> l_yiaddr (ls ! i) = yi \<and> l_expires (ls ! i) = ex)"

lemma holds_leaseI:
  assumes "lease_inv ls" "\<not> blank_chaddr ch" "k < length ls" "l_chaddr (ls ! k) = ch"
    "l_yiaddr (ls ! k) = yi" "l_expires (ls ! k) = ex"
  shows "holds_lease ls ch yi ex"
proof -
  have "find_lease_by_chaddr ls ch = Some k"
    unfolding find_lease_by_chaddr_def
  proof (rule find_index_unique)
    show "\<forall>j < length ls. l_chaddr (ls ! j) = ch \<longrightarrow> j = k"
      using assms(1-4) unfolding lease_inv_def by metis
  qed (use assms in auto)
  with assms show ?thesis by (simp add: holds_lease_def)
qed

lemma holds_leaseD:
  "holds_lease ls ch yi ex \<Longrightarrow>
   \<exists>k < length ls. l_chaddr (ls ! k) = ch \<and> l_yiaddr (ls ! k) = yi \<and> l_expires (ls ! k) = ex"
  unfolding holds_lease_def find_lease_by_chaddr_def by (auto dest: find_index_Some)

interpretation lt: lease_store lease_inv holds_lease add_lease clear_lease
proof
  fix ls now ch yi d ls' i
  assume "lease_inv ls" "length ch = 16" "\<not> blank_chaddr ch" "add_lease ls now ch yi d = (ls', Some i)"
  then show "holds_lease ls' ch yi (now + d)"
    using add_lease_find(1) add_lease_entry(3-5) by (auto simp: holds_lease_def)
next
  fix ls ch' yi' ex ch yi now d
  assume inv: "lease_inv ls" and len16: "length ch = 16" and h: "holds_lease ls ch' yi' ex" and b: "\<not> blank_chaddr ch'"
    and ne: "ch' \<noteq> ch" "yi' \<noteq> yi" and run: "\<not> ex < now"
  obtain k where k: "k < length ls" "l_chaddr (ls ! k) = ch'" "l_yiaddr (ls ! k) = yi'" "l_expires (ls ! k) = ex"
    using holds_leaseD[OF h] by blast
  obtain ls' r where a: "add_lease ls now ch yi d = (ls', r)" by fastforce
  have nm: "\<not> lease_matches ch yi (ls ! k)" using k ne by (simp add: lease_matches_def)
  have "ls' ! k = ls ! k"
    using add_lease_frame[OF a k(1) nm] k(4) run by (simp add: lease_expired_def)
  moreover have len: "length ls' = length ls" using add_lease_cases[OF a] by (auto split: option.splits)
  ultimately show "holds_lease (fst (add_lease ls now ch yi d)) ch' yi' ex"
    using k b inv len16 add_lease_inv[OF inv len16, of now yi d] a
    by (intro holds_leaseI[where k = k]) auto
next
  fix ls ch' yi' ex ch yi
  assume inv: "lease_inv ls" and h: "holds_lease ls ch' yi' ex" and b: "\<not> blank_chaddr ch'"
    and ne: "ch' \<noteq> ch" "yi' \<noteq> yi"
  obtain k where k: "k < length ls" "l_chaddr (ls ! k) = ch'" "l_yiaddr (ls ! k) = yi'" "l_expires (ls ! k) = ex"
    using holds_leaseD[OF h] by blast
  then have "clear_lease ls ch yi ! k = ls ! k" using ne by (simp add: clear_lease_nth lease_matches_def)
  with k b inv show "holds_lease (clear_lease ls ch yi) ch' yi' ex"
    by (intro holds_leaseI[where k = k] clear_lease_inv) auto
next
  fix ls ch yi ex ch' ex'
  assume "lease_inv ls" "holds_lease ls ch yi ex" "holds_lease ls ch' yi ex'" "yi \<noteq> 0"
  then show "ch = ch'" by (fastforce dest!: holds_leaseD simp: lease_inv_def)
qed (simp_all add: add_lease_inv clear_lease_inv)

section \<open>Properties\<close>

definition sample_leases :: "dhcpOfferedAddr list" where
  "sample_leases = [zero_lease\<lparr>l_chaddr := 1 # replicate 15 0, l_yiaddr := 0xC0A80102, l_expires := 900\<rparr>,
     zero_lease, zero_lease]"

lemma Cons_neq_replicate [simp]: "b \<noteq> c \<Longrightarrow> b # xs \<noteq> replicate n c" "b \<noteq> c \<Longrightarrow> replicate n c \<noteq> b # xs"
  by (cases n; simp)+

lemma sample_leases_inv [simp]: "lease_inv sample_leases"
  by (simp add: sample_leases_def lease_inv_def zero_lease_def blank_chaddr_def All_less_Suc)

text \<open>
  C9: the lease table never gives one address or one client to two entries: adding and
  clearing leases keep all non-zero addresses and all non-blank hardware addresses of the
  table distinct.
\<close>

theorem lease_table_invariant:
  assumes "lease_inv ls" "length ch = 16"
  shows "lease_inv (fst (add_lease ls now ch yi d)) \<and> lease_inv (clear_lease ls ch yi)"
  using lt.add_ok[OF assms] lt.clear_ok[OF assms(1)] by blast

theorem lease_table_invariant_witness:
  "lease_inv (fst (add_lease sample_leases 100 (2 # replicate 15 0) 0xC0A80103 60))"
  using lease_table_invariant[OF sample_leases_inv, of "2 # replicate 15 0"] by simp

text \<open>
  C26: an added lease is found under its client and under its address, with the end time
  asked for; every entry of another client and address whose lease has not expired is left
  as it was; and when the table has no room (no expired entry and no older entry of this
  client or address) nothing but those older entries is touched.
\<close>

theorem add_lease_correct:
  assumes "add_lease ls now ch yi d = (ls', r)"
  shows "(case r of
      Some i \<Rightarrow> i < length ls' \<and> l_chaddr (ls' ! i) = ch \<and> l_yiaddr (ls' ! i) = yi \<and>
        l_expires (ls' ! i) = now + d \<and>
        (\<not> blank_chaddr ch \<longrightarrow> find_lease_by_chaddr ls' ch = Some i) \<and>
        (yi \<noteq> 0 \<longrightarrow> find_lease_by_yiaddr ls' yi = Some i)
    | None \<Rightarrow> ls' = clear_lease ls ch yi \<and> (\<forall>l \<in> set ls'. \<not> lease_expired l now)) \<and>
    (\<forall>k < length ls. \<not> lease_matches ch yi (ls ! k) \<longrightarrow> \<not> lease_expired (ls ! k) now \<longrightarrow> ls' ! k = ls ! k)"
proof -
  have "\<forall>k < length ls. \<not> lease_matches ch yi (ls ! k) \<longrightarrow> \<not> lease_expired (ls ! k) now \<longrightarrow> ls' ! k = ls ! k"
    using add_lease_frame[OF assms] by blast
  with add_lease_cases[OF assms] add_lease_entry add_lease_find assms show ?thesis
    by (cases r) auto
qed

theorem add_lease_correct_witness:
  "\<exists>ls' i. add_lease sample_leases 100 (2 # replicate 15 0) 0xC0A80103 60 = (ls', Some i) \<and>
     find_lease_by_chaddr ls' (2 # replicate 15 0) = Some i \<and> ls' ! 0 = sample_leases ! 0"
proof -
  have "\<exists>ls'. add_lease sample_leases 100 (2 # replicate 15 0) 0xC0A80103 60 = (ls', Some 1)"
    by (simp add: add_lease_def sample_leases_def clear_lease_def zero_lease_def blank_chaddr_def
        oldest_expired_lease_def Let_def)
  then obtain ls' where a: "add_lease sample_leases 100 (2 # replicate 15 0) 0xC0A80103 60 = (ls', Some 1)" ..
  have "\<not> lease_matches (2 # replicate 15 0) 0xC0A80103 (sample_leases ! 0)"
    "\<not> lease_expired (sample_leases ! 0) 100" "0 < length sample_leases"
    by (simp_all add: sample_leases_def lease_matches_def lease_expired_def zero_lease_def)
  with add_lease_correct[OF a] a show ?thesis by (auto simp: blank_chaddr_def)
qed

text \<open>
  Two clients that are granted two different addresses one after the other both hold
  their lease afterwards.
\<close>

theorem two_clients_both_served:
  assumes "lease_inv ls" "length ch1 = 16" "length ch2 = 16" "\<not> blank_chaddr ch1" "\<not> blank_chaddr ch2"
    "ch1 \<noteq> ch2" "yi1 \<noteq> yi2" "add_lease ls now ch1 yi1 d1 = (ls1, Some i)"
    "add_lease ls1 now ch2 yi2 d2 = (ls2, Some j)" "\<not> now + d1 < now"
  shows "lease_inv ls2 \<and> holds_lease ls2 ch1 yi1 (now + d1) \<and> holds_lease ls2 ch2 yi2 (now + d2)"
  using assms by (rule lt.two_clients)

theorem two_clients_both_served_witness:
  "\<exists>ls1 ls2 i j. add_lease sample_leases 100 (2 # replicate 15 0) 0xC0A80103 60 = (ls1, Some i) \<and>
     add_lease ls1 100 (3 # replicate 15 0) 0xC0A80104 60 = (ls2, Some j) \<and>
     holds_lease ls2 (2 # replicate 15 0) 0xC0A80103 160"
proof -
  have "\<exists>ls1 ls2. add_lease sample_leases 100 (2 # replicate 15 0) 0xC0A80103 60 = (ls1, Some 1) \<and>
     add_lease ls1 100 (3 # replicate 15 0) 0xC0A80104 60 = (ls2, Some 2)"
    by (simp add: add_lease_def sample_leases_def clear_lease_def zero_lease_def blank_chaddr_def
        oldest_expired_lease_def Let_def)
  then obtain ls1 ls2 where a: "add_lease sample_leases 100 (2 # replicate 15 0) 0xC0A80103 60 = (ls1, Some 1)"
    "add_lease ls1 100 (3 # replicate 15 0) 0xC0A80104 60 = (ls2, Some 2)" by blast
  have "holds_lease ls2 (2 # replicate 15 0) 0xC0A80103 (100 + 60)"
    using two_clients_both_served[OF sample_leases_inv _ _ _ _ _ _ a] by (simp add: blank_chaddr_def)
  with a show ?thesis by auto
qed

lemma find_address_candidate:
  assumes "refresh_interface env cfg = cfg" "c_end cfg < 0xFFFFFFFF" "0 < c_start cfg"
    "c_start cfg \<le> b" "b \<le> c_end cfg" "candidate env ls now ce (router_of cfg) cfg b"
  shows "\<exists>r. find_address env ls now cfg ce = Some (r, cfg) \<and> r \<noteq> 0"
proof -
  have "unat (c_end cfg) < 4294967295" using assms(2) by (simp add: word_less_nat_alt)
  from find_address_loop_first[OF assms(1) this, of ls now ce "router_of cfg" "c_start cfg"] assms(3-6)
  show ?thesis unfolding find_address_def by auto
qed

text \<open>
  C10: for a pool that does not end at 255.255.255.255, the search for an address always
  returns; it returns the lowest address of the pool that is a usable host address, not
  reserved, not the gateway or router itself, not leased (or leased and expired, when
  asked) and not answering ARP, and it returns 0 exactly when the pool has none.
\<close>

theorem find_address_first_candidate:
  assumes "refresh_interface env cfg = cfg" "c_end cfg < 0xFFFFFFFF" "0 < c_start cfg"
  shows "\<exists>r. find_address env ls now cfg ce = Some (r, cfg) \<and>
    (if \<exists>b. c_start cfg \<le> b \<and> b \<le> c_end cfg \<and> candidate env ls now ce (router_of cfg) cfg b
     then c_start cfg \<le> r \<and> r \<le> c_end cfg \<and> candidate env ls now ce (router_of cfg) cfg r \<and>
       (\<forall>b. c_start cfg \<le> b \<and> b < r \<longrightarrow> \<not> candidate env ls now ce (router_of cfg) cfg b)
     else r = 0)"
proof -
  have "unat (c_end cfg) < 4294967295" using assms(2) by (simp add: word_less_nat_alt)
  from find_address_loop_first[OF assms(1) this, of ls now ce "router_of cfg" "c_start cfg"]
  obtain r where "find_address env ls now cfg ce = Some (r, cfg)" and
    "(r = 0 \<and> (\<forall>b. c_start cfg \<le> b \<and> b \<le> c_end cfg \<longrightarrow> \<not> candidate env ls now ce (router_of cfg) cfg b)) \<or>
     (c_start cfg \<le> r \<and> r \<le> c_end cfg \<and> candidate env ls now ce (router_of cfg) cfg r \<and>
      (\<forall>b. c_start cfg \<le> b \<and> b < r \<longrightarrow> \<not> candidate env ls now ce (router_of cfg) cfg b))"
    unfolding find_address_def by blast
  then show ?thesis by (intro exI[of _ r]) auto
qed

lemma reserved_loop_zeros [simp]: "reserved_loop (replicate n 0) ip = 1"
  by (cases n) simp_all

definition sample_config :: server_config where
  "sample_config = zero_config\<lparr>c_server := 0xC0A80101, c_start := 0xC0A80102, c_end := 0xC0A80103,
     c_arp := [2, 2, 2, 2, 2, 2], c_ifindex := 4, c_interface := ''br0'', c_lease := 864000,
     c_offer_time := 60, c_min_lease := 60, c_max_leases := 3,
     c_lease_file := Some ''/var/leases''\<rparr>"

definition sample_env :: net_env where
  "sample_env = \<lparr>n_if = \<lparr>i_socket = True, i_addr = Some 0xC0A80101, i_index = Some 4,
       i_hwaddr = Some [2, 2, 2, 2, 2, 2]\<rparr>,
     n_arp = (\<lambda>a. \<lparr>p_sendto = True, p_events = []\<rparr>)\<rparr>"

lemma sample_refresh [simp]: "refresh_interface sample_env sample_config = sample_config"
  by (simp add: refresh_interface_def read_interface_def sample_env_def sample_config_def zero_config_def Let_def)

lemma sample_config_pool: "c_start sample_config = 0xC0A80102" "c_end sample_config = 0xC0A80103"
  "router_of sample_config = 0"
  by (simp_all add: sample_config_def zero_config_def router_of_def find_option_def)

theorem find_address_first_candidate_witness:
  "find_address sample_env sample_leases 100 sample_config False = Some (0xC0A80103, sample_config)"
proof -
  have no: "\<not> candidate sample_env sample_leases 100 False 0 sample_config 0xC0A80102"
    by (simp add: candidate_def not_taken_def find_lease_by_yiaddr_def sample_leases_def)
  have yes: "candidate sample_env sample_leases 100 False 0 sample_config 0xC0A80103"
    by (simp add: candidate_def not_taken_def find_lease_by_yiaddr_def sample_leases_def zero_lease_def
        sample_config_def zero_config_def reservedIp_def sample_env_def arpping_def arpCheck_def)
  have "c_end sample_config < 0xFFFFFFFF" "0 < c_start sample_config" by (simp_all add: sample_config_pool)
  from find_address_first_candidate[OF sample_refresh this, of sample_leases 100 False]
  obtain x where x: "find_address sample_env sample_leases 100 sample_config False = Some (x, sample_config)"
    "if \<exists>b. 0xC0A80102 \<le> b \<and> b \<le> 0xC0A80103 \<and> candidate sample_env sample_leases 100 False 0 sample_config b
     then 0xC0A80102 \<le> x \<and> x \<le> 0xC0A80103 \<and> candidate sample_env sample_leases 100 False 0 sample_config x \<and>
       (\<forall>b. 0xC0A80102 \<le> b \<and> b < x \<longrightarrow> \<not> candidate sample_env sample_leases 100 False 0 sample_config b)
     else x = 0"
    unfolding sample_config_pool by blast
  have "\<exists>b. 0xC0A80102 \<le> b \<and> b \<le> 0xC0A80103 \<and> candidate sample_env sample_leases 100 False 0 sample_config b"
    using yes by (intro exI[of _ "0xC0A80103"]) simp
  with x(2) have "0xC0A80102 \<le> x" "x \<le> 0xC0A80103" "candidate sample_env sample_leases 100 False 0 sample_config x"
    by auto
  moreover have "x = 0xC0A80102 \<or> x = 0xC0A80103" if "0xC0A80102 \<le> x" "x \<le> 0xC0A80103"
    using that by (auto simp: word_le_nat_alt word_unat_eq_iff)
  ultimately show ?thesis using x(1) no by auto
qed



end
