(* ===== verification/Cstrings.thy ===== *)
theory Cstrings
  imports Prelude
begin

text \<open>
  The part of the C library the network code uses on strings: searching and splitting
  (\<^verbatim>\<open>strchr\<close>, \<^verbatim>\<open>strstr\<close>, \<^verbatim>\<open>strtok_r\<close>), numbers (\<^verbatim>\<open>strtol\<close>, \<^verbatim>\<open>printf\<close> of \<^verbatim>\<open>%d\<close> and
  \<^verbatim>\<open>%2.2x\<close>) and dotted-decimal addresses (\<^verbatim>\<open>inet_aton\<close>, \<^verbatim>\<open>inet_addr\<close>, \<^verbatim>\<open>inet_ntoa\<close>).  A C
  string is the list of its characters before the terminating NUL.
\<close>

section \<open>Searching and splitting\<close>

fun strchr :: "char \<Rightarrow> string \<Rightarrow> nat option" where
  "strchr c [] = None"
| "strchr c (x # xs) = (if x = c then Some 0 else map_option Suc (strchr c xs))"

fun is_prefix :: "string \<Rightarrow> string \<Rightarrow> bool" where
  "is_prefix [] ys = True"
| "is_prefix (x # xs) [] = False"
| "is_prefix (x # xs) (y # ys) = (x = y \<and> is_prefix xs ys)"

fun strstr :: "string \<Rightarrow> string \<Rightarrow> nat option" where
  "strstr [] needle = (if needle = [] then Some 0 else None)"
| "strstr (x # xs) needle =
     (if is_prefix needle (x # xs) then Some 0 else map_option Suc (strstr xs needle))"

fun split_on :: "char \<Rightarrow> string \<Rightarrow> string list" where
  "split_on c [] = [[]]"
| "split_on c (x # xs) =
     (if x = c then [] # split_on c xs
      else case split_on c xs of [] \<Rightarrow> [[x]] | w # ws \<Rightarrow> (x # w) # ws)"

text \<open>The tokens \<^verbatim>\<open>strtok_r\<close> yields one after the other: it skips empty fields.\<close>

definition strtok :: "char \<Rightarrow> string \<Rightarrow> string list" where
  "strtok c s = filter (\<lambda>w. w \<noteq> []) (split_on c s)"

lemma strchr_Some: "strchr c s = Some k \<Longrightarrow> k < length s \<and> s ! k = c"
  by (induction c s arbitrary: k rule: strchr.induct) (auto split: if_splits)

lemma is_prefix_take: "is_prefix xs ys \<longleftrightarrow> take (length xs) ys = xs"
  by (induction xs ys rule: is_prefix.induct) auto

lemma strstr_Some:
  "strstr s n = Some k \<Longrightarrow> k \<le> length s \<and> take (length n) (drop k s) = n \<and>
     (\<forall>j < k. take (length n) (drop j s) \<noteq> n)"
proof (induction s n arbitrary: k rule: strstr.induct)
  case (2 x xs n)
  show ?case
  proof (cases "is_prefix n (x # xs)")
    case True
    with 2 show ?thesis by (auto simp: is_prefix_take)
  next
    case False
    with 2(2) obtain j where j: "k = Suc j" "strstr xs n = Some j" by auto
    from 2(1)[OF False j(2)] False j(1) show ?thesis
      by (auto simp: is_prefix_take less_Suc_eq_0_disj)
  qed
qed (auto split: if_splits)

section \<open>Numbers\<close>

definition digit :: "nat \<Rightarrow> char" where
  "digit d = char_of (48 + d)"

fun dec :: "nat \<Rightarrow> string" where
  "dec n = (if n < 10 then [digit n] else dec (n div 10) @ [digit (n mod 10)])"

declare dec.simps [simp del]

definition is_digit :: "char \<Rightarrow> bool" where
  "is_digit c \<longleftrightarrow> 48 \<le> (of_char c :: nat) \<and> (of_char c :: nat) \<le> 57"

definition digit_val :: "char \<Rightarrow> nat" where
  "digit_val c = of_char c - 48"

definition num_of :: "string \<Rightarrow> nat" where
  "num_of s = foldl (\<lambda>n c. 10 * n + digit_val c) 0 s"

definition hex_digit :: "nat \<Rightarrow> char" where
  "hex_digit d = (if d < 10 then char_of (48 + d) else char_of (87 + d))"

definition hex2 :: "u8 \<Rightarrow> string" where
  "hex2 b = [hex_digit (unat b div 16), hex_digit (unat b mod 16)]"

definition is_space :: "char \<Rightarrow> bool" where
  "is_space c \<longleftrightarrow> (of_char c :: nat) = 32 \<or> (9 \<le> (of_char c :: nat) \<and> (of_char c :: nat) \<le> 13)"

text \<open>\<^verbatim>\<open>strtol(s, &end, 10)\<close>: the value and what \<^verbatim>\<open>end\<close> points to.\<close>

definition strtol :: "string \<Rightarrow> int \<times> string" where
  "strtol s =
     (let t = dropWhile is_space s;
          neg = (t \<noteq> [] \<and> hd t = CHR ''-'');
          u = (if t \<noteq> [] \<and> (hd t = CHR ''-'' \<or> hd t = CHR ''+'') then tl t else t);
          ds = takeWhile is_digit u
      in if ds = [] then (0, s)
         else (if neg then - int (num_of ds) else int (num_of ds), dropWhile is_digit u))"

lemma of_char_digit: "d < 10 \<Longrightarrow> (of_char (digit d) :: nat) = 48 + d"
  by (simp add: digit_def)

lemma is_digit_digit [simp]: "d < 10 \<Longrightarrow> is_digit (digit d)"
  by (simp add: is_digit_def of_char_digit)

lemma digit_val_digit [simp]: "d < 10 \<Longrightarrow> digit_val (digit d) = d"
  by (simp add: digit_val_def of_char_digit)

lemma dec_digits: "list_all is_digit (dec n)" and dec_nonempty [simp]: "dec n \<noteq> []"
proof -
  have "list_all is_digit (dec n) \<and> dec n \<noteq> []"
    by (induction n rule: dec.induct) (subst (1 2) dec.simps, auto)
  then show "list_all is_digit (dec n)" "dec n \<noteq> []" by simp_all
qed

lemma num_of_snoc: "num_of (s @ [c]) = 10 * num_of s + digit_val c"
  by (simp add: num_of_def)

lemma num_of_dec [simp]: "num_of (dec n) = n"
proof (induction n rule: dec.induct)
  case (1 n)
  show ?case
  proof (cases "n < 10")
    case True
    then show ?thesis by (subst dec.simps) (simp add: num_of_def)
  next
    case False
    with 1 show ?thesis by (subst dec.simps) (simp add: num_of_snoc)
  qed
qed

text \<open>
  \<^verbatim>\<open>strtoul(s, NULL, 0)\<close>: white space, a sign, and the base from the prefix; values that do
  not fit give the largest one, and a minus sign negates modulo the word size.
\<close>

definition digit_in :: "nat \<Rightarrow> char \<Rightarrow> nat option" where
  "digit_in base c =
     (let n = of_char c :: nat;
          v = (if 48 \<le> n \<and> n \<le> 57 then n - 48
               else if 97 \<le> n \<and> n \<le> 122 then n - 87
               else if 65 \<le> n \<and> n \<le> 90 then n - 55 else 255)
      in if v < base then Some v else None)"

fun digits_in :: "nat \<Rightarrow> nat \<Rightarrow> string \<Rightarrow> nat" where
  "digits_in base acc [] = acc"
| "digits_in base acc (c # cs) =
     (case digit_in base c of None \<Rightarrow> acc | Some v \<Rightarrow> digits_in base (base * acc + v) cs)"

definition strtoul :: "string \<Rightarrow> u32" where
  "strtoul s =
     (let t = dropWhile is_space s;
          neg = (t \<noteq> [] \<and> hd t = CHR ''-'');
          u = (if t \<noteq> [] \<and> (hd t = CHR ''-'' \<or> hd t = CHR ''+'') then tl t else t);
          n = (if 2 \<le> length u \<and> hd u = CHR ''0'' \<and> u ! 1 \<in> {CHR ''x'', CHR ''X''}
               then digits_in 16 0 (drop 2 u)
               else if u \<noteq> [] \<and> hd u = CHR ''0'' then digits_in 8 0 u
               else digits_in 10 0 u)
      in if n \<ge> 4294967296 then 0xFFFFFFFF else if neg then - of_nat n else of_nat n)"

text \<open>\<^verbatim>\<open>strtol(s, NULL, 0)\<close> as a 32 bit pattern: values out of range give the nearest bound.\<close>

definition strtol0 :: "string \<Rightarrow> u32" where
  "strtol0 s =
     (let t = dropWhile is_space s;
          neg = (t \<noteq> [] \<and> hd t = CHR ''-'');
          u = (if t \<noteq> [] \<and> (hd t = CHR ''-'' \<or> hd t = CHR ''+'') then tl t else t);
          n = (if 2 \<le> length u \<and> hd u = CHR ''0'' \<and> u ! 1 \<in> {CHR ''x'', CHR ''X''}
               then digits_in 16 0 (drop 2 u)
               else if u \<noteq> [] \<and> hd u = CHR ''0'' then digits_in 8 0 u
               else digits_in 10 0 u)
      in if neg then (if n > 2147483648 then 0x80000000 else - of_nat n)
         else (if n > 2147483647 then 0x7FFFFFFF else of_nat n))"

definition to_lower :: "char \<Rightarrow> char" where
  "to_lower c = (let n = of_char c :: nat in if 65 \<le> n \<and> n \<le> 90 then char_of (n + 32) else c)"

definition strcaseeq :: "string \<Rightarrow> string \<Rightarrow> bool" where
  "strcaseeq a b \<longleftrightarrow> map to_lower a = map to_lower b"

text \<open>One call of \<^verbatim>\<open>strtok\<close>: the token and what the next call continues with.\<close>

definition strtok_next :: "char list \<Rightarrow> string \<Rightarrow> (string \<times> string) option" where
  "strtok_next delims s =
     (let t = dropWhile (\<lambda>c. c \<in> set delims) s in
      if t = [] then None
      else Some (takeWhile (\<lambda>c. c \<notin> set delims) t, drop 1 (dropWhile (\<lambda>c. c \<notin> set delims) t)))"

lemma strtok_next_shrinks: "strtok_next ds s = Some (t, r) \<Longrightarrow> length r < length s"
proof -
  assume a: "strtok_next ds s = Some (t, r)"
  let ?t = "dropWhile (\<lambda>c. c \<in> set ds) s"
  from a have ne: "?t \<noteq> []" and r: "r = drop 1 (dropWhile (\<lambda>c. c \<notin> set ds) ?t)"
    by (auto simp: strtok_next_def Let_def split: if_splits)
  have "length (dropWhile (\<lambda>c. c \<notin> set ds) ?t) \<le> length ?t" "length ?t \<le> length s"
    by (rule length_dropWhile_le)+
  moreover have "0 < length ?t" using ne by simp
  moreover have "length r \<le> length (dropWhile (\<lambda>c. c \<notin> set ds) ?t) - 1" using r by simp
  ultimately show ?thesis by linarith
qed

lemma strtok_next_token:
  "strtok_next ds s = Some (t, r) \<Longrightarrow> t \<noteq> [] \<and> length t \<le> length s"
proof -
  assume a: "strtok_next ds s = Some (t, r)"
  let ?t = "dropWhile (\<lambda>c. c \<in> set ds) s"
  from a have ne: "?t \<noteq> []" and t: "t = takeWhile (\<lambda>c. c \<notin> set ds) ?t"
    by (auto simp: strtok_next_def Let_def split: if_splits)
  have "hd ?t \<notin> set ds" using hd_dropWhile[OF ne] by simp
  then have "t \<noteq> []" using ne t by (cases ?t) auto
  moreover have "length t \<le> length ?t" unfolding t by (rule length_takeWhile_le)
  moreover have "length ?t \<le> length s" by (rule length_dropWhile_le)
  ultimately show ?thesis by linarith
qed

section \<open>Addresses\<close>

definition inet_ntoa :: "u32 \<Rightarrow> string" where
  "inet_ntoa a = dec (unat a div 16777216) @ ''.'' @ dec (unat a div 65536 mod 256) @ ''.'' @
     dec (unat a div 256 mod 256) @ ''.'' @ dec (unat a mod 256)"

text \<open>
  \<^verbatim>\<open>inet_aton\<close> on the dotted-decimal form: four decimal parts of at most 255, the last one
  followed by the end of the string or white space.
\<close>

fun aton_parts :: "nat \<Rightarrow> nat \<Rightarrow> string \<Rightarrow> nat option" where
  "aton_parts 0 acc s = None"
| "aton_parts (Suc k) acc s =
     (let ds = takeWhile is_digit s; rest = dropWhile is_digit s in
      if ds = [] \<or> num_of ds > 255 then None
      else if k = 0 then (if rest = [] \<or> is_space (hd rest) then Some (256 * acc + num_of ds) else None)
      else if rest \<noteq> [] \<and> hd rest = CHR ''.'' then aton_parts k (256 * acc + num_of ds) (tl rest)
      else None)"

definition inet_aton :: "string \<Rightarrow> u32 option" where
  "inet_aton s = map_option of_nat (aton_parts 4 0 s)"

definition inet_addr :: "string \<Rightarrow> u32" where
  "inet_addr s = (case inet_aton s of None \<Rightarrow> 0xFFFFFFFF | Some a \<Rightarrow> a)"

lemma is_digit_dot [simp]: "\<not> is_digit (CHR ''.'')"
  by (simp add: is_digit_def)

lemma takeWhile_digits: "list_all is_digit ds \<Longrightarrow> rest = [] \<or> \<not> is_digit (hd rest) \<Longrightarrow>
  takeWhile is_digit (ds @ rest) = ds \<and> dropWhile is_digit (ds @ rest) = rest"
  by (induction ds) (cases rest; auto)+

lemma aton_parts_dec:
  "n < 256 \<Longrightarrow> aton_parts (Suc (Suc k)) acc (dec n @ CHR ''.'' # s) = aton_parts (Suc k) (256 * acc + n) s"
  using takeWhile_digits[OF dec_digits, of "CHR ''.'' # s" n] by (simp add: Let_def)

lemma aton_parts_last: "n < 256 \<Longrightarrow> aton_parts (Suc 0) acc (dec n) = Some (256 * acc + n)"
proof -
  assume "n < 256"
  moreover have "takeWhile is_digit (dec n) = dec n" "dropWhile is_digit (dec n) = []"
    using dec_digits[of n] by (simp_all add: list_all_iff takeWhile_eq_all_conv)
  ultimately show ?thesis by (simp only: aton_parts.simps Let_def) simp
qed

lemma aton_parts_4: "aton_parts 4 acc s = aton_parts (Suc (Suc (Suc (Suc 0)))) acc s"
  by (simp add: numeral_eq_Suc)

text \<open>Printing an address and reading it back is the identity.\<close>

lemma inet_aton_ntoa: "inet_aton (inet_ntoa a) = Some a"
proof -
  have lt: "unat a div 16777216 < 256" using unat_u32[of a] by simp
  have "aton_parts 4 0 (inet_ntoa a) =
    Some (256 * (256 * (256 * (unat a div 16777216) + unat a div 65536 mod 256) + unat a div 256 mod 256) + unat a mod 256)"
    using lt unfolding aton_parts_4 inet_ntoa_def append_Cons append_Nil append_assoc
    by (simp only: aton_parts_dec aton_parts_last mod_less_divisor) simp
  moreover have "256 * (unat a div 16777216) + unat a div 65536 mod 256 = unat a div 65536"
    using div_mult2_eq[of "unat a" 65536 256] by simp
  moreover have "256 * (unat a div 65536) + unat a div 256 mod 256 = unat a div 256"
    using div_mult2_eq[of "unat a" 256 256] by simp
  ultimately show ?thesis by (simp add: inet_aton_def)
qed

lemma length_dec: "n < 10 ^ k \<Longrightarrow> 0 < k \<Longrightarrow> length (dec n) \<le> k"
proof (induction n arbitrary: k rule: dec.induct)
  case (1 n)
  show ?case
  proof (cases "n < 10")
    case False
    then have "k \<noteq> 1" using "1.prems"(1) by auto
    then obtain j where j: "k = Suc j" "0 < j" using "1.prems"(2) by (cases k) auto
    then have "n div 10 < 10 ^ j" using "1.prems" by (simp add: less_mult_imp_div_less)
    from "1.IH"[OF False this j(2)] False j show ?thesis by (subst dec.simps) simp
  qed (use "1.prems" in \<open>subst dec.simps, simp\<close>)
qed

lemma length_dec_le3: "n < 1000 \<Longrightarrow> length (dec n) \<le> 3"
  by (simp add: dec.simps[of n] dec.simps[of "n div 10"] dec.simps[of "n div 10 div 10"])

lemma length_inet_ntoa: "length (inet_ntoa a) \<le> 15"
proof -
  have "unat a div 16777216 < 1000" using unat_u32[of a] by simp
  moreover have "n mod 256 < 1000" for n :: nat by (rule less_trans[of _ 256]) simp_all
  ultimately show ?thesis
    using length_dec_le3[of "unat a div 16777216"] length_dec_le3[of "unat a div 65536 mod 256"]
      length_dec_le3[of "unat a div 256 mod 256"] length_dec_le3[of "unat a mod 256"]
    by (simp add: inet_ntoa_def)
qed

end
