(* ===== verification/Dhcp_Vi.thy ===== *)
theory Dhcp_Vi
  imports Dhcp_Leases Cstrings
begin

text \<open>
  The vendor-identifying option 125 (TR-111) of \<^verbatim>\<open>udhcp/options.c\<close>: building the
  gateway's own identity, parsing the identity a device sends, the linked list of known
  devices, and the table file written from it (\<^verbatim>\<open>write_viTable\<close> in \<^verbatim>\<open>files.c\<close>).

  The list of devices shares strings between nodes and frees them, so the model keeps
  track of what a string pointer of a node refers to and of whether the tail pointer still
  leads to the last node reachable from the head.
\<close>

section \<open>Data\<close>

datatype vstr = VNull | VLive "u8 list" | VDangling

record vi_info =
  v_enterprise :: u32
  v_oui :: vstr
  v_serialNumber :: vstr
  v_productClass :: vstr
  v_ipAddr :: u32

text \<open>
  \<open>vl_nodes\<close> are the nodes reachable from \<^verbatim>\<open>pHead\<close>; \<open>vl_tail\<close> says that
  \<^verbatim>\<open>pTail\<close> is the last of them.
\<close>

record vi_list =
  vl_count :: int
  vl_nodes :: "vi_info list"
  vl_tail :: bool

definition empty_vi_list :: vi_list where
  "empty_vi_list = \<lparr>vl_count = 0, vl_nodes = [], vl_tail = True\<rparr>"

definition empty_vi_info :: vi_info where
  "empty_vi_info = \<lparr>v_enterprise = 0, v_oui = VNull, v_serialNumber = VNull, v_productClass = VNull,
     v_ipAddr = 0\<rparr>"

fun free_str :: "vstr \<Rightarrow> vstr" where
  "free_str VNull = VNull"
| "free_str (VLive s) = VDangling"
| "free_str VDangling = VDangling"

section \<open>The list of devices\<close>

text \<open>
  When a node with the address exists, \<^verbatim>\<open>memcpy\<close> copies the whole new node over it, its
  null \<^verbatim>\<open>next\<close> pointer included, and \<^verbatim>\<open>viInfoFree\<close> then frees the strings just copied.
\<close>

definition addViToList :: "vi_info \<Rightarrow> vi_list \<Rightarrow> vi_list" where
  "addViToList pNew vl =
     (case (if vl_count vl > 0 then find_index (\<lambda>n. v_ipAddr n = v_ipAddr pNew) 0 (vl_nodes vl) else None) of
        Some k \<Rightarrow>
          vl\<lparr>vl_nodes := take k (vl_nodes vl) @
                 [pNew\<lparr>v_oui := free_str (v_oui pNew), v_serialNumber := free_str (v_serialNumber pNew),
                       v_productClass := free_str (v_productClass pNew)\<rparr>],
             vl_tail := (vl_tail vl \<and> k + 1 = length (vl_nodes vl))\<rparr>
      | None \<Rightarrow>
          (if vl_nodes vl = []
           then vl\<lparr>vl_nodes := [pNew], vl_tail := True, vl_count := vl_count vl + 1\<rparr>
           else if vl_tail vl then vl\<lparr>vl_nodes := vl_nodes vl @ [pNew], vl_count := vl_count vl + 1\<rparr>
           else vl\<lparr>vl_count := vl_count vl + 1\<rparr>))"

definition viListFree :: "vi_list \<Rightarrow> vi_list" where
  "viListFree vl = vl\<lparr>vl_nodes := [], vl_count := 0\<rparr>"

section \<open>The gateway's identity\<close>

abbreviation (input) "VENDOR_ADSL_FORUM_ENTERPRISE_NUMBER \<equiv> (3561 :: u32)"
abbreviation (input) "VENDOR_IDENTIFYING_INFO_LEN \<equiv> (142 :: nat)"

text \<open>
  \<open>serial\<close> is the C string the board driver left in \<^verbatim>\<open>serialNum\<close>, \<open>mac\<close> the base
  MAC address.  The result is what \<^verbatim>\<open>add_option_string\<close> will read of \<^verbatim>\<open>VIinfo\<close>.
\<close>

definition createVIoption :: "bool \<Rightarrow> u8 list \<Rightarrow> u8 list \<Rightarrow> u8 list option" where
  "createVIoption for_device serial mac =
     (let oui = bytes_of (hex2 (mac ! 0) @ hex2 (mac ! 1) @ hex2 (mac ! 2));
          productClass = bytes_of ''EchoLife'';
          base = (if for_device then 1 else 4);
          totalLen = 4 + 1 + (length oui + 2) + (length serial + 2) + (length productClass + 2) in
      if totalLen + 7 > VENDOR_IDENTIFYING_INFO_LEN then None
      else Some ([125, of_nat totalLen] @ be32_bytes VENDOR_ADSL_FORUM_ENTERPRISE_NUMBER @
             [of_nat (totalLen - 5)] @
             [base, of_nat (length oui)] @ oui @
             [base + 1, of_nat (length serial)] @ serial @
             [base + 2, of_nat (length productClass)] @ productClass))"

section \<open>Parsing a device's identity\<close>

text \<open>
  The environment of the parser: whether \<^verbatim>\<open>malloc(0)\<close> returns a block.  A request for a
  negative, that is huge, size fails; every other request succeeds.
\<close>

definition vi_malloc :: "bool \<Rightarrow> int \<Rightarrow> bool" where
  "vi_malloc malloc0 n \<longleftrightarrow> n > 0 \<or> (n = 0 \<and> malloc0)"

datatype vi_field = Oui | SerialNumber | ProductClass

definition vi_subcode :: "int \<Rightarrow> (vi_field \<times> int) option" where
  "vi_subcode subcode =
     (if subcode = 1 \<or> subcode = 4 then Some (Oui, 6)
      else if subcode = 2 \<or> subcode = 5 then Some (SerialNumber, 64)
      else if subcode = 3 \<or> subcode = 6 then Some (ProductClass, 64)
      else None)"

fun vi_set :: "vi_field \<Rightarrow> u8 list \<Rightarrow> vi_info \<Rightarrow> vi_info" where
  "vi_set Oui s i = i\<lparr>v_oui := VLive s\<rparr>"
| "vi_set SerialNumber s i = i\<lparr>v_serialNumber := VLive s\<rparr>"
| "vi_set ProductClass s i = i\<lparr>v_productClass := VLive s\<rparr>"

text \<open>
  One round of the loop over the subcodes.  The outer \<open>None\<close> is an access outside the
  packet or a copy of a negative length; the inner \<open>None\<close> is the jump to \<^verbatim>\<open>viError\<close>.
  \<^verbatim>\<open>subcode\<close> and \<^verbatim>\<open>sublen\<close> are read through a signed \<^verbatim>\<open>char\<close> pointer.
\<close>

fun vi_parse :: "bool \<Rightarrow> u8 list \<Rightarrow> nat \<Rightarrow> nat \<Rightarrow> vi_info \<Rightarrow> vi_info option option" where
  "vi_parse m0 img ptr 0 i = Some (Some i)"
| "vi_parse m0 img ptr (Suc n) i = do {
     sc \<leftarrow> rd img ptr;
     sl \<leftarrow> rd img (ptr + 1);
     (case vi_subcode (sint sc) of
        None \<Rightarrow> Some None
      | Some (f, maxlen) \<Rightarrow>
          if sint sl \<le> maxlen then
            if vi_malloc m0 (sint sl + 1) then
              if sint sl < 0 then None
              else do {
                s \<leftarrow> rdn img (ptr + 2) (unat sl);
                vi_parse m0 img (ptr + 2 + unat sl) n (vi_set f s i) }
            else Some None
          else Some None) }"

definition parseVI :: "bool \<Rightarrow> u8 list \<Rightarrow> nat \<Rightarrow> u32 \<Rightarrow> vi_info option option" where
  "parseVI m0 img off ipAddr = do {
     ent \<leftarrow> rd32 img off;
     vi_parse m0 img (off + 4 + 1) 3 (empty_vi_info\<lparr>v_enterprise := ent, v_ipAddr := ipAddr\<rparr>) }"

section \<open>The table file and the TR-069 notification\<close>

text \<open>
  \<^verbatim>\<open>write_viTable\<close> blanks the strings of a device whose lease has expired, which faults on
  a null pointer, and prints every node.  The result is the list afterwards and what was
  printed.
\<close>

fun blank_str :: "vstr \<Rightarrow> vstr option" where
  "blank_str VNull = None"
| "blank_str (VLive s) = Some (VLive [])"
| "blank_str VDangling = Some VDangling"

definition vi_refresh :: "dhcpOfferedAddr list \<Rightarrow> u32 \<Rightarrow> vi_info \<Rightarrow> vi_info option" where
  "vi_refresh leases now n =
     (case find_lease_by_yiaddr leases (v_ipAddr n) of
        None \<Rightarrow> Some n
      | Some k \<Rightarrow>
          if lease_expired (leases ! k) now then do {
            a \<leftarrow> blank_str (v_oui n);
            b \<leftarrow> blank_str (v_serialNumber n);
            c \<leftarrow> blank_str (v_productClass n);
            Some (n\<lparr>v_oui := a, v_serialNumber := b, v_productClass := c\<rparr>) }
          else Some n)"

fun map_opt :: "('a \<Rightarrow> 'b option) \<Rightarrow> 'a list \<Rightarrow> 'b list option" where
  "map_opt f [] = Some []"
| "map_opt f (x # xs) = do { y \<leftarrow> f x; ys \<leftarrow> map_opt f xs; Some (y # ys) }"

definition write_viTable ::
  "bool \<Rightarrow> dhcpOfferedAddr list \<Rightarrow> u32 \<Rightarrow> vi_list \<Rightarrow> (vi_list \<times> (int \<times> vi_info list) option) option" where
  "write_viTable fopen_ok leases now vl =
     (if \<not> fopen_ok then Some (vl, None)
      else if vl_count vl > 0 then do {
        ns \<leftarrow> map_opt (vi_refresh leases now) (vl_nodes vl);
        Some (vl\<lparr>vl_nodes := ns\<rparr>, Some (vl_count vl, ns)) }
      else Some (vl, Some (vl_count vl, [])))"

text \<open>The kernel's and the file system's part in sending a message to the TR-069 client.\<close>

record tr069_env =
  t_pidfile :: bool
  t_pid :: bool
  t_msgget :: bool
  t_msgsnd :: bool

abbreviation (input) "TR069_MAX_CONTENT \<equiv> (1520 :: nat)"
abbreviation (input) "CWMP_MSG_ASSOC_DEVICE \<equiv> (10 :: int)"

definition TR069_SendMessage :: "tr069_env \<Rightarrow> int \<Rightarrow> u8 list \<Rightarrow> nat \<Rightarrow> int \<times> (int \<times> u8 list) option" where
  "TR069_SendMessage env msg_type content content_len =
     (if content_len > TR069_MAX_CONTENT then (- 1, None)
      else if \<not> t_pidfile env then (- 1, None)
      else if \<not> t_pid env then (- 1, None)
      else if \<not> t_msgget env then (- 1, None)
      else if \<not> t_msgsnd env then (- 1, None)
      else (0, Some (msg_type,
              blit (replicate TR069_MAX_CONTENT 0) 0 (take content_len content))))"

record vi_env =
  w_malloc0 :: bool
  w_fopen :: bool
  w_tr069 :: tr069_env

text \<open>What \<^verbatim>\<open>saveVIoption\<close> leaves behind: the list, the table printed, the message sent.\<close>

record vi_result =
  y_ret :: int
  y_list :: vi_list
  y_table :: "(int \<times> vi_info list) option"
  y_msg :: "(int \<times> u8 list) option"

definition saveVIoption ::
  "vi_env \<Rightarrow> dhcpOfferedAddr list \<Rightarrow> u32 \<Rightarrow> u8 list \<Rightarrow> nat option \<Rightarrow> u32 \<Rightarrow> vi_list \<Rightarrow> vi_result option" where
  "saveVIoption env leases now img opt ipAddr vl =
     (case opt of
        None \<Rightarrow> Some \<lparr>y_ret = - 1, y_list = vl, y_table = None, y_msg = None\<rparr>
      | Some off \<Rightarrow> do {
          r \<leftarrow> parseVI (w_malloc0 env) img off ipAddr;
          (case r of
             None \<Rightarrow> Some \<lparr>y_ret = - 1, y_list = vl, y_table = None, y_msg = None\<rparr>
           | Some info \<Rightarrow> do {
               (vl', table) \<leftarrow> write_viTable (w_fopen env) leases now (addViToList info vl);
               Some \<lparr>y_ret = 0, y_list = vl', y_table = table,
                     y_msg = snd (TR069_SendMessage (w_tr069 env) CWMP_MSG_ASSOC_DEVICE [] 0)\<rparr> }) })"

section \<open>Lemmas\<close>

lemma sint_u8: "sint (b::u8) = (if unat b < 128 then int (unat b) else int (unat b) - 256)"
proof (cases "unat b < 128")
  case True
  then show ?thesis using sint_small[of b] by (simp add: word_less_nat_alt)
next
  case False
  have "128 \<le> uint b" "uint b < 256" using False unat_u8[of b] uint_nat[of b] by linarith+
  have "signed_take_bit 7 (uint b) = signed_take_bit 7 (uint b - 256)"
    by (simp add: signed_take_bit_eq_iff_take_bit_eq take_bit_eq_mod)
  also have "\<dots> = uint b - 256"
    using \<open>128 \<le> uint b\<close> \<open>uint b < 256\<close> by (intro signed_take_bit_int_eq_self) simp_all
  finally show ?thesis using False unfolding sint_uint by simp
qed

lemma sint_u8_nonneg: "0 \<le> sint (b::u8) \<Longrightarrow> sint b = int (unat b)"
proof (cases "unat b < 128")
  case True
  then show ?thesis by (simp only: sint_u8 if_True)
next
  case False
  assume "0 \<le> sint b"
  then have "0 \<le> int (unat b) - 256" using False by (simp only: sint_u8 if_False)
  with unat_u8[of b] show ?thesis by linarith
qed

lemma sint_u8_small: "unat (b::u8) < 128 \<Longrightarrow> sint b = int (unat b)"
  using sint_small[of b] by (simp add: word_less_nat_alt)

lemma sint_of_nat_u8: "n < 128 \<Longrightarrow> sint (of_nat n :: u8) = int n"
  using sint_u8_small[of "of_nat n"] by (simp add: unat_of_nat_u8_small del: unat_of_nat)

lemma rdn_drop: "drop k m = xs @ ys \<Longrightarrow> k \<le> length m \<Longrightarrow> rdn m k (length xs) = Some xs"
proof -
  assume d: "drop k m = xs @ ys" and k: "k \<le> length m"
  then have "length m - k = length xs + length ys" by (metis length_append length_drop)
  with d k show ?thesis by (auto simp: rdn_def slice_def)
qed

lemma vi_parse_step:
  assumes "drop ptr img = sc # of_nat (length d) # d @ rest" "vi_subcode (sint sc) = Some (f, maxlen)"
    "int (length d) \<le> maxlen" "length d < 128"
  shows "vi_parse m0 img ptr (Suc n) i = vi_parse m0 img (ptr + 2 + length d) n (vi_set f d i)"
    and "drop (ptr + 2 + length d) img = rest"
proof -
  have r: "rd img ptr = Some sc" "rd img (ptr + 1) = Some (of_nat (length d))"
    using rd_drop[OF assms(1)] rd_drop_Suc[OF assms(1)] by simp_all
  have d: "drop (ptr + 2) img = d @ rest"
    using drop_step[of ptr img "[sc, of_nat (length d)]" "d @ rest"] assms(1) by simp
  have s: "sint (of_nat (length d) :: u8) = int (length d)" "unat (of_nat (length d) :: u8) = length d"
    using assms(4) by (simp_all add: sint_of_nat_u8 unat_opt_len)
  have k: "ptr + 2 \<le> length img"
    using r(2) by (simp add: rd_def split: if_splits)
  show "vi_parse m0 img ptr (Suc n) i = vi_parse m0 img (ptr + 2 + length d) n (vi_set f d i)"
    using r assms(2,3) s rdn_drop[OF d k] by (simp add: vi_malloc_def)
  show "drop (ptr + 2 + length d) img = rest" using drop_step[OF d] .
qed

lemma length_hex2 [simp]: "length (hex2 b) = 2"
  by (simp add: hex2_def)

lemma createVIoption_Some:
  "createVIoption dev serial mac = Some b \<longleftrightarrow> length serial \<le> 110 \<and>
   b = [125, of_nat (25 + length serial)] @ be32_bytes 3561 @ [of_nat (20 + length serial)] @
       [if dev then 1 else 4, 6] @ bytes_of (hex2 (mac ! 0) @ hex2 (mac ! 1) @ hex2 (mac ! 2)) @
       [(if dev then 1 else 4) + 1, of_nat (length serial)] @ serial @
       [(if dev then 1 else 4) + 2, 8] @ bytes_of ''EchoLife''"
  by (auto simp: createVIoption_def Let_def algebra_simps)

lemma createVIoption_block:
  assumes "createVIoption dev serial mac = Some b"
  shows "wf_block b \<and> b ! 0 = DHCP_VENDOR_IDENTIFYING"
proof -
  from assms have l: "length serial \<le> 110"
    and b: "b = [125, of_nat (25 + length serial)] @ be32_bytes 3561 @ [of_nat (20 + length serial)] @
       [if dev then 1 else 4, 6] @ bytes_of (hex2 (mac ! 0) @ hex2 (mac ! 1) @ hex2 (mac ! 2)) @
       [(if dev then 1 else 4) + 1, of_nat (length serial)] @ serial @
       [(if dev then 1 else 4) + 2, 8] @ bytes_of ''EchoLife''"
    by (simp_all only: createVIoption_Some)
  have "unat (of_nat (25 + length serial) :: u8) = 25 + length serial"
    using l by (intro unat_of_nat_u8_small) simp
  then show ?thesis unfolding b by (simp add: wf_block_def del: unat_of_nat of_nat_add)
qed

lemma rd32_drop: "drop k m = be32_bytes w @ rest \<Longrightarrow> rd32 m k = Some w"
proof -
  assume d: "drop k m = be32_bytes w @ rest"
  then have "length m - k = 4 + length rest" by (metis length_append length_be32_bytes length_drop)
  then have k: "k + 4 \<le> length m" by simp
  have "slice m k 4 = be32_bytes w" using d by (simp add: slice_def)
  from at32_be32_bytes[OF k this] k show ?thesis by (simp add: rd32_def at32_def)
qed

definition vi_ok :: "vi_list \<Rightarrow> bool" where
  "vi_ok vl \<longleftrightarrow> vl_count vl = int (length (vl_nodes vl)) \<and> vl_tail vl \<and> distinct (map v_ipAddr (vl_nodes vl)) \<and>
     (\<forall>n \<in> set (vl_nodes vl). VDangling \<notin> {v_oui n, v_serialNumber n, v_productClass n})"

lemma vi_parse_safe:
  assumes "ptr + 66 * n \<le> length img" "\<not> m0"
  shows "vi_parse m0 img ptr n i \<noteq> None"
  using assms
proof (induction m0 img ptr n i rule: vi_parse.induct)
  case (2 m0 img ptr n i)
  have r: "rd img ptr = Some (img ! ptr)" "rd img (ptr + 1) = Some (img ! (ptr + 1))"
    using "2.prems" by (simp_all add: rd_def)
  show ?case
  proof (cases "vi_subcode (sint (img ! ptr))")
    case None
    with r show ?thesis by simp
  next
    case (Some fm)
    obtain f mx where fm: "fm = (f, mx)" by fastforce
    have mx: "mx \<le> 64" using Some fm by (auto simp: vi_subcode_def split: if_splits)
    show ?thesis
    proof (cases "0 \<le> sint (img ! (ptr + 1)) \<and> sint (img ! (ptr + 1)) \<le> mx")
      case False
      with r Some fm "2.prems" show ?thesis by (auto simp: vi_malloc_def)
    next
      case True
      then have u: "unat (img ! (ptr + 1)) \<le> 64"
        using mx sint_u8_nonneg[of "img ! (ptr + 1)"] by linarith
      then have rn: "rdn img (ptr + 2) (unat (img ! (ptr + 1))) =
          Some (slice img (ptr + 2) (unat (img ! (ptr + 1))))"
        using "2.prems" by (simp add: rdn_def)
      have m: "vi_malloc m0 (sint (img ! (ptr + 1)) + 1)" using True by (simp add: vi_malloc_def)
      have "vi_parse m0 img (ptr + 2 + unat (img ! (ptr + 1))) n
          (vi_set f (slice img (ptr + 2) (unat (img ! (ptr + 1)))) i) \<noteq> None"
        using True u "2.prems" by (intro "2.IH"[OF r Some fm[symmetric] _ m _ rn]) auto
      with r Some fm True m rn show ?thesis by simp
    qed
  qed
qed simp

text \<open>The three subcodes of the identity are parsed one after the other.\<close>

lemma createVIoption_parse:
  assumes "createVIoption dev serial mac = Some b" "length serial \<le> 64"
  shows "wf_block b \<and> b ! 0 = DHCP_VENDOR_IDENTIFYING \<and>
    parseVI m0 (pre @ drop 2 b @ post) (length pre) ip = Some (Some
      \<lparr>v_enterprise = 3561,
       v_oui = VLive (bytes_of (hex2 (mac ! 0) @ hex2 (mac ! 1) @ hex2 (mac ! 2))),
       v_serialNumber = VLive serial, v_productClass = VLive (bytes_of ''EchoLife''), v_ipAddr = ip\<rparr>)"
proof -
  let ?c = "if dev then 1 else 4 :: u8" and ?img = "pre @ drop 2 b @ post"
  let ?oui = "bytes_of (hex2 (mac ! 0) @ hex2 (mac ! 1) @ hex2 (mac ! 2))"
  let ?pc = "bytes_of ''EchoLife''"
  define rest3 where "rest3 = (?c + 2) # of_nat (length ?pc) # ?pc @ post"
  define rest2 where "rest2 = (?c + 1) # of_nat (length serial) # serial @ rest3"
  have img: "?img = pre @ be32_bytes 3561 @ of_nat (20 + length serial) # ?c # of_nat (length ?oui) # ?oui @ rest2"
    using assms(1) unfolding createVIoption_Some rest2_def rest3_def by auto
  have e: "rd32 ?img (length pre) = Some 3561" by (rule rd32_drop) (simp add: img)
  have d1: "drop (length pre + 5) ?img = ?c # of_nat (length ?oui) # ?oui @ rest2"
    unfolding img by (simp add: be32_bytes_def)
  have sc: "vi_subcode (sint ?c) = Some (Oui, 6)" "vi_subcode (sint (?c + 1)) = Some (SerialNumber, 64)"
    "vi_subcode (sint (?c + 2)) = Some (ProductClass, 64)"
    by (auto simp: vi_subcode_def)
  note s1 = vi_parse_step[OF d1 sc(1)]
  have d2: "drop (length pre + 5 + 2 + length ?oui) ?img = (?c + 1) # of_nat (length serial) # serial @ rest3"
    using s1(2) unfolding rest2_def by simp
  note s2 = vi_parse_step[OF d2 sc(2)]
  have d3: "drop (length pre + 5 + 2 + length ?oui + 2 + length serial) ?img = (?c + 2) # of_nat (length ?pc) # ?pc @ post"
    using s2(2) assms(2) unfolding rest3_def by simp
  note s3 = vi_parse_step[OF d3 sc(3)]
  have "parseVI m0 ?img (length pre) ip = vi_parse m0 ?img (length pre + 5) (Suc (Suc (Suc 0)))
      (empty_vi_info\<lparr>v_enterprise := 3561, v_ipAddr := ip\<rparr>)"
    using e by (simp only: parseVI_def bind.simps add.assoc) (simp add: numeral_3_eq_3)
  also have "\<dots> = Some (Some \<lparr>v_enterprise = 3561, v_oui = VLive ?oui, v_serialNumber = VLive serial,
       v_productClass = VLive ?pc, v_ipAddr = ip\<rparr>)"
    using s1(1) s2(1) s3(1) assms(2) by (simp add: empty_vi_info_def)
  finally show ?thesis using createVIoption_block[OF assms(1)] by blast
qed

section \<open>Properties\<close>

text \<open>
  C32: the identity the gateway sends in option 125 is a well-formed option, and a device
  running the same parser recovers from it the OUI (first three bytes of the base MAC
  address in hexadecimal), the serial number and the product class.
\<close>

theorem createVIoption_parseVI:
  assumes "createVIoption dev serial mac = Some b" "length serial \<le> 64"
  shows "wf_block b \<and> b ! 0 = DHCP_VENDOR_IDENTIFYING \<and>
    parseVI m0 (pre @ drop 2 b @ post) (length pre) ip = Some (Some
      \<lparr>v_enterprise = 3561,
       v_oui = VLive (bytes_of (hex2 (mac ! 0) @ hex2 (mac ! 1) @ hex2 (mac ! 2))),
       v_serialNumber = VLive serial, v_productClass = VLive (bytes_of ''EchoLife''), v_ipAddr = ip\<rparr>)"
  by (rule createVIoption_parse[OF assms])

theorem createVIoption_parseVI_witness:
  "\<exists>b. createVIoption False [49, 50] [0, 37, 158, 1, 2, 3] = Some b \<and>
     parseVI False (drop 2 b) 0 7 = Some (Some \<lparr>v_enterprise = 3561,
       v_oui = VLive (bytes_of (hex2 0 @ hex2 37 @ hex2 158)),
       v_serialNumber = VLive [49, 50], v_productClass = VLive (bytes_of ''EchoLife''), v_ipAddr = 7\<rparr>)"
proof -
  obtain b where "createVIoption False [49, 50] [0, 37, 158, 1, 2, 3] = Some b"
    by (simp add: createVIoption_def Let_def)
  from createVIoption_parseVI[OF this, of False "[]" "[]" 7] this show ?thesis by simp
qed

text \<open>
  C33: on an allocator whose \<^verbatim>\<open>malloc(0)\<close> fails, parsing option 125 of any received message
  stays inside the message.
\<close>

theorem parseVI_safe:
  assumes "length img = 1264" "option_at img DHCP_VENDOR_IDENTIFYING off"
  shows "parseVI False img off ip \<noteq> None"
proof -
  have off: "off + 5 + 66 * 3 \<le> length img" using assms by (auto simp: option_at_def option_area_def)
  then have "rd32 img off \<noteq> None" by (simp add: rd32_def)
  with vi_parse_safe[of "off + 4 + 1" 3 img False] off show ?thesis
    by (auto simp: parseVI_def)
qed

theorem parseVI_safe_witness:
  "parseVI False (replicate 240 0 @ [125, 1, 0] @ replicate 1021 0) 242 7 \<noteq> None"
proof (rule parseVI_safe)
  show "option_at (replicate 240 0 @ [125, 1, 0] @ replicate 1021 0) DHCP_VENDOR_IDENTIFYING 242"
    unfolding option_at_def
    by (rule exI[of _ 240], rule exI[of _ 308]) (simp add: option_area_def nth_append)
qed simp

text \<open>
  On an allocator whose \<^verbatim>\<open>malloc(0)\<close> returns a block, a device that sends a subcode
  with the length byte 255 makes the server copy 4 GB: the length is read as -1, passes
  the limit check, and one byte more is allocated than the copy is told to move.
\<close>

theorem parseVI_negative_length:
  assumes "off + 7 \<le> length img" "img ! (off + 5) \<in> {1, 2, 3, 4, 5, 6}" "img ! (off + 6) = 255"
  shows "parseVI True img off ip = None"
proof -
  have sc: "\<exists>f m. vi_subcode (sint (img ! (off + 5))) = Some (f, m) \<and> - 1 \<le> m"
    using assms(2) by (auto simp: vi_subcode_def)
  have r: "rd img (off + 4 + 1) = Some (img ! (off + 5))" "rd img (off + 4 + 1 + 1) = Some 255"
    using assms by (simp_all add: rd_def add.commute[of off])
  obtain ent where e: "rd32 img off = Some ent" using assms(1) by (simp add: rd32_def)
  have "vi_parse True img (off + 4 + 1) (Suc n) i = None" for n i
    unfolding vi_parse.simps r bind.simps using sc by (auto simp: vi_malloc_def)
  with e show ?thesis by (simp add: parseVI_def numeral_3_eq_3)
qed

theorem parseVI_negative_length_witness:
  "parseVI True ([0, 0, 13, 233, 3, 1, 255] @ replicate 50 65) 0 7 = None"
  by (rule parseVI_negative_length) simp_all

text \<open>
  A device with a new address is appended to an intact device list, which stays
  intact: the count is the number of reachable devices, addresses are distinct and no
  string is dangling.
\<close>

theorem addViToList_new:
  assumes "vi_ok vl" "v_ipAddr n \<notin> v_ipAddr ` set (vl_nodes vl)"
    "VDangling \<notin> {v_oui n, v_serialNumber n, v_productClass n}"
  shows "vi_ok (addViToList n vl) \<and> vl_nodes (addViToList n vl) = vl_nodes vl @ [n]"
proof -
  have "\<forall>x \<in> set (vl_nodes vl). v_ipAddr x \<noteq> v_ipAddr n"
  proof
    fix x
    assume "x \<in> set (vl_nodes vl)"
    then have "v_ipAddr x \<in> v_ipAddr ` set (vl_nodes vl)" by (rule imageI)
    with assms(2) show "v_ipAddr x \<noteq> v_ipAddr n" by metis
  qed
  then have "find_index (\<lambda>x. v_ipAddr x = v_ipAddr n) 0 (vl_nodes vl) = None"
    by (simp add: find_index_None)
  then have "addViToList n vl = vl\<lparr>vl_nodes := vl_nodes vl @ [n], vl_tail := True,
      vl_count := vl_count vl + 1\<rparr>"
    using assms(1) by (simp add: addViToList_def vi_ok_def)
  with assms show ?thesis by (auto simp: vi_ok_def)
qed

theorem addViToList_new_witness:
  "vi_ok (addViToList (empty_vi_info\<lparr>v_ipAddr := 7\<rparr>) empty_vi_list)"
  using addViToList_new[of empty_vi_list "empty_vi_info\<lparr>v_ipAddr := 7\<rparr>"]
  by (simp add: vi_ok_def empty_vi_list_def empty_vi_info_def)

text \<open>
  A device that reports again under its address breaks the list: every device listed
  after it is lost, and the strings of its own entry are freed memory.
\<close>

theorem addViToList_again:
  assumes "vl_count vl > 0" "vl_nodes vl = xs @ old # ys" "v_ipAddr old = v_ipAddr n"
    "v_ipAddr n \<notin> v_ipAddr ` set xs" "v_oui n = VLive s"
  shows "\<exists>n'. vl_nodes (addViToList n vl) = xs @ [n'] \<and> v_oui n' = VDangling \<and>
    vl_count (addViToList n vl) = vl_count vl"
proof -
  have "find_index (\<lambda>x. v_ipAddr x = v_ipAddr n) k (xs @ old # ys) = Some (k + length xs)" for k
    using assms(3,4) by (induction xs arbitrary: k) auto
  from this[of 0] assms show ?thesis by (simp add: addViToList_def)
qed

theorem addViToList_again_witness:
  "\<exists>n'. vl_nodes (addViToList (empty_vi_info\<lparr>v_ipAddr := 7, v_oui := VLive [65]\<rparr>)
       \<lparr>vl_count = 2, vl_nodes = [empty_vi_info\<lparr>v_ipAddr := 7\<rparr>, empty_vi_info\<lparr>v_ipAddr := 8\<rparr>], vl_tail = True\<rparr>)
     = [n'] \<and> v_oui n' = VDangling"
  using addViToList_again[of "\<lparr>vl_count = 2, vl_nodes = [empty_vi_info\<lparr>v_ipAddr := 7\<rparr>,
      empty_vi_info\<lparr>v_ipAddr := 8\<rparr>], vl_tail = True\<rparr>" "[]"
      "empty_vi_info\<lparr>v_ipAddr := 7\<rparr>" "[empty_vi_info\<lparr>v_ipAddr := 8\<rparr>]"
      "empty_vi_info\<lparr>v_ipAddr := 7, v_oui := VLive [65]\<rparr>" "[65]"] by auto

end
