(* ===== verification/Dhcp_Server.thy ===== *)
theory Dhcp_Server
  imports Dhcp_Packet Dhcp_Vi
begin

text \<open>
  \<^verbatim>\<open>udhcp/serverpacket.c\<close>: the replies of the DHCP server.  A handler takes the state of
  the daemon and what the outside world answers while it runs (\<open>env\<close>), and returns its
  result with the new state; the outer \<open>None\<close> is an access outside a buffer or a search
  that never ends.  Everything the handler does to the outside world is appended to
  \<open>d_out\<close>; the type of these effects is shared with the client.
\<close>

section \<open>State, environment and effects\<close>

datatype effect =
    Sent frame
  | SystemCmd string
  | ViTable int "vi_info list"
  | Tr069 int "u8 list"
  | FileWritten string "u8 list"
  | Syslog string
  | Unlinked string
  | Tmpfile string string
  | QueueMsg int string
  | WakeupMonitor
  | Exec string string "string list"
  | ChildFault

record dhcpd =
  d_config :: server_config
  d_config2 :: server_config
  d_tmpSrvCfg :: server_config
  d_leases :: "dhcpOfferedAddr list"
  d_leases2 :: "dhcpOfferedAddr list"
  d_tmpls :: "dhcpOfferedAddr list"
  d_enblSrv1 :: u32
  d_enblSrv2 :: u32
  d_viList :: vi_list
  d_flag_option121 :: bool
  d_bIpphone :: bool
  d_UseIpPhoneVlan :: bool
  d_ipPhoneipaddr :: "u32 list"
  d_EnableQosVlan :: bool
  d_out :: "effect list"

record env =
  g_now :: u32
  g_net :: net_env
  g_sock :: sock_env
  g_serial :: "u8 list"
  g_mac :: "u8 list"
  g_vi :: vi_env
  g_staticnat :: "char option"
  g_fopen :: "string \<Rightarrow> bool"

text \<open>
  The loops over the lease table run over the first \<^verbatim>\<open>max_leases\<close> entries of the active
  configuration.
\<close>

definition lease_table :: "dhcpd \<Rightarrow> dhcpOfferedAddr list option" where
  "lease_table st = rdn (d_leases st) 0 (unat (c_max_leases (d_config st)))"

definition put_table :: "dhcpd \<Rightarrow> dhcpOfferedAddr list \<Rightarrow> dhcpd" where
  "put_table st tbl = st\<lparr>d_leases := tbl @ drop (length tbl) (d_leases st)\<rparr>"

definition emit :: "dhcpd \<Rightarrow> effect list \<Rightarrow> dhcpd" where
  "emit st es = st\<lparr>d_out := d_out st @ es\<rparr>"

section \<open>Sending\<close>

definition send_packet_to_relay :: "sock_env \<Rightarrow> server_config \<Rightarrow> dhcpMessage \<Rightarrow> send_outcome option" where
  "send_packet_to_relay env cfg payload =
     kernel_packet env payload (c_server cfg) SERVER_PORT (m_giaddr payload) SERVER_PORT None"

definition client_destination :: "dhcpMessage \<Rightarrow> bool \<Rightarrow> u32 \<times> u8 list" where
  "client_destination payload force_broadcast =
     (if force_broadcast then (0xFFFFFFFF, MAC_BCAST_ADDR)
      else if m_ciaddr payload \<noteq> 0 then (m_ciaddr payload, take 6 (m_chaddr payload))
      else if m_flags payload AND BROADCAST_FLAG \<noteq> 0 then (0xFFFFFFFF, MAC_BCAST_ADDR)
      else (0xFFFFFFFF, take 6 (m_chaddr payload)))"

definition send_packet_to_client ::
  "sock_env \<Rightarrow> server_config \<Rightarrow> dhcpMessage \<Rightarrow> bool \<Rightarrow> send_outcome option" where
  "send_packet_to_client env cfg payload force_broadcast =
     (let (ciaddr, chaddr) = client_destination payload force_broadcast in
      raw_packet env payload (c_server cfg) SERVER_PORT ciaddr CLIENT_PORT chaddr (c_ifindex cfg))"

definition send_packet :: "sock_env \<Rightarrow> server_config \<Rightarrow> dhcpMessage \<Rightarrow> bool \<Rightarrow> send_outcome option" where
  "send_packet env cfg payload force_broadcast =
     (if m_giaddr payload \<noteq> 0 then send_packet_to_relay env cfg payload
      else send_packet_to_client env cfg payload force_broadcast)"

text \<open>Sending from a handler: the frame, if one went out, becomes an effect.\<close>

definition transmit :: "env \<Rightarrow> dhcpd \<Rightarrow> dhcpMessage \<Rightarrow> bool \<Rightarrow> (int \<times> dhcpd) option" where
  "transmit env st packet force_broadcast = do {
     r \<leftarrow> send_packet (g_sock env) (d_config st) packet force_broadcast;
     Some (s_result r, emit st (case s_frame r of None \<Rightarrow> [] | Some f \<Rightarrow> [Sent f])) }"

section \<open>The parts of a reply\<close>

definition init_packet :: "server_config \<Rightarrow> dhcpMessage \<Rightarrow> u8 \<Rightarrow> dhcpMessage option" where
  "init_packet cfg oldpacket type = do {
     let packet = zero_message\<lparr>m_op := BOOTREPLY, m_htype := ETH_10MB, m_hlen := ETH_10MB_LEN,
           m_xid := m_xid oldpacket, m_chaddr := m_chaddr oldpacket, m_cookie := DHCP_MAGIC,
           m_flags := m_flags oldpacket, m_giaddr := m_giaddr oldpacket, m_ciaddr := m_ciaddr oldpacket\<rparr>;
     (o1, n1) \<leftarrow> add_simple_option (DHCP_END # replicate 1023 0) DHCP_MESSAGE_TYPE (ucast type);
     (o2, n2) \<leftarrow> add_simple_option o1 DHCP_SERVER_ID (c_server cfg);
     Some (packet\<lparr>m_options := o2\<rparr>) }"

definition strncpy_field :: "u8 list \<Rightarrow> string \<Rightarrow> nat \<Rightarrow> u8 list" where
  "strncpy_field m s n = blit m 0 (take n (bytes_of s @ replicate n 0))"

definition add_bootp_options :: "server_config \<Rightarrow> dhcpMessage \<Rightarrow> dhcpMessage" where
  "add_bootp_options cfg packet =
     packet\<lparr>m_siaddr := c_siaddr cfg,
       m_sname := (case c_sname cfg of None \<Rightarrow> m_sname packet | Some s \<Rightarrow> strncpy_field (m_sname packet) s 63),
       m_file := (case c_boot_file cfg of None \<Rightarrow> m_file packet | Some s \<Rightarrow> strncpy_field (m_file packet) s 127)\<rparr>"

definition add_lease_times :: "u8 list \<Rightarrow> u32 \<Rightarrow> u8 list option" where
  "add_lease_times opts lease_time = do {
     (o1, n1) \<leftarrow> add_simple_option opts DHCP_LEASE_TIME lease_time;
     (o2, n2) \<leftarrow> add_simple_option o1 DHCP_T1 (lease_time div 2);
     (o3, n3) \<leftarrow> add_simple_option o2 DHCP_T2 (drop_bit 3 (lease_time * 7));
     Some o3 }"

text \<open>The loop over the configured options; INFORM replies do not look at \<^verbatim>\<open>bIpphone\<close>.\<close>

definition option_wanted :: "bool \<Rightarrow> bool \<Rightarrow> u8 list \<Rightarrow> bool" where
  "option_wanted flag121 ipphone d \<longleftrightarrow>
     d ! 0 \<noteq> DHCP_LEASE_TIME \<and> d ! 0 \<noteq> DHCP_T1 \<and> d ! 0 \<noteq> DHCP_T2 \<and> d ! 0 \<noteq> DHCP_STATIC_ROUTE \<and>
     (flag121 \<longrightarrow> d ! 0 \<noteq> DHCP_ROUTER) \<and>
     \<not> (d ! 0 = DHCP_DNS_SERVER \<and> ipphone) \<and> \<not> (d ! 0 = DHCP_NTP_SERVER \<and> ipphone)"

definition add_config_options :: "bool \<Rightarrow> bool \<Rightarrow> server_config \<Rightarrow> u8 list \<Rightarrow> u8 list option" where
  "add_config_options flag121 ipphone cfg opts = do {
     o1 \<leftarrow> add_blocks add_option_string opts (filter (option_wanted flag121 ipphone) (c_options cfg));
     if flag121 then do {
       (o2, n) \<leftarrow> add_option_string o1 ([DHCP_STATIC_ROUTE, 5, 0] @ be32_bytes (c_server cfg));
       Some o2 }
     else Some o1 }"

section \<open>IP phone options\<close>

definition BUFSIZE :: nat where "BUFSIZE = 1025"

definition vdf_buffer :: "u8 \<Rightarrow> nat \<Rightarrow> u8 list \<Rightarrow> u8 list option" where
  "vdf_buffer code len value = memcpy (replicate BUFSIZE 0) 0 (code # of_nat len # value)"

definition vdf_string :: "u8 \<Rightarrow> string \<Rightarrow> u8 list option" where
  "vdf_string code s = vdf_buffer code (length s + 1) (bytes_of s @ [0])"

text \<open>
  \<^verbatim>\<open>strncpy(buf, dns, 256)\<close> leaves an uninitialised buffer unterminated when the string
  has 256 characters or more; what \<^verbatim>\<open>strtok_r\<close> then reads is not defined.
\<close>

definition option_tokens :: "string \<Rightarrow> string list option" where
  "option_tokens dns = (if length dns < 256 then Some (strtok (CHR '','') dns) else None)"

definition fileoption6 :: "string \<Rightarrow> u8 list option" where
  "fileoption6 dns = do {
     toks \<leftarrow> option_tokens dns;
     vdf_buffer DHCP_DNS_SERVER (length toks * 4) (concat (map (\<lambda>t. be32_bytes (inet_addr t)) toks)) }"

definition fileoption120ipaddr :: "string \<Rightarrow> u8 list option" where
  "fileoption120ipaddr dns = do {
     toks \<leftarrow> option_tokens dns;
     vdf_buffer DHCP_OUTBOUND_PROXY (length toks * 4 + 1)
       (1 # concat (map (\<lambda>t. be32_bytes (inet_addr t)) toks)) }"

function encode_labels :: "string \<Rightarrow> u8 list" where
  "encode_labels p =
     (case strchr (CHR ''.'') p of
        None \<Rightarrow> of_nat (length p) # bytes_of p
      | Some k \<Rightarrow> of_nat k # bytes_of (take k p) @ encode_labels (drop (k + 1) p))"
  by pat_completeness auto
termination
  by (relation "measure length") (auto dest: strchr_Some)

declare encode_labels.simps [simp del]

definition encode_domain :: "string \<Rightarrow> u8 list" where
  "encode_domain tok = take (length tok + 2) (encode_labels tok @ replicate BUFSIZE 0)"

definition fileoption120Domain :: "string \<Rightarrow> u8 list option" where
  "fileoption120Domain dns = do {
     toks \<leftarrow> option_tokens dns;
     let value = concat (map encode_domain toks);
     vdf_buffer DHCP_OUTBOUND_PROXY (if length value + 1 > 255 then 255 else length value + 1) (0 # value) }"

text \<open>\<^verbatim>\<open>ValidateIpAddress\<close> looks at the first 15 characters up to a comma, and at four tokens.\<close>

definition octet_ok :: "string \<Rightarrow> bool" where
  "octet_ok tok \<longleftrightarrow> hd tok \<noteq> CHR ''+'' \<and> hd tok \<noteq> CHR ''-'' \<and>
     snd (strtol tok) = [] \<and> fst (strtol tok) \<le> 255"

definition ValidateIpAddress :: "string \<Rightarrow> bool" where
  "ValidateIpAddress s =
     (let buf = takeWhile (\<lambda>c. c \<noteq> CHR '','') (take 15 s); toks = strtok (CHR ''.'') buf in
      4 \<le> length toks \<and> list_all octet_ok (take 4 toks))"

definition add_opt :: "u8 list \<Rightarrow> u8 list option \<Rightarrow> u8 list option" where
  "add_opt opts buf = do { b \<leftarrow> buf; (o', n) \<leftarrow> add_option_string opts b; Some o' }"

definition ipphone_options :: "server_config \<Rightarrow> u8 list \<Rightarrow> u8 list option" where
  "ipphone_options cfg o0 = do {
     o1 \<leftarrow> (case c_pIPPhoneDomainName cfg of None \<Rightarrow> Some o0
             | Some s \<Rightarrow> add_opt o0 (vdf_string DHCP_DOMAIN_NAME s));
     o2 \<leftarrow> (case c_pIPPhoneDNSServers cfg of None \<Rightarrow> Some o1
             | Some s \<Rightarrow> add_opt o1 (fileoption6 s));
     o3 \<leftarrow> (case c_pIPPhoneTFTPServer cfg of
               Some s \<Rightarrow> add_opt o2 (vdf_string DHCP_TFTP_SERVER_NAME s)
             | None \<Rightarrow> (case c_pIPPhoneTFTPServerName cfg of
                 Some s \<Rightarrow> add_opt o2 (vdf_string DHCP_TFTP_SERVER_NAME s)
               | None \<Rightarrow> Some o2));
     (case c_pOutBoundProxy cfg of None \<Rightarrow> Some o3
      | Some s \<Rightarrow> add_opt o3 (if ValidateIpAddress s then fileoption120ipaddr s else fileoption120Domain s)) }"

section \<open>Options on request\<close>

definition dashes :: "string \<Rightarrow> string" where
  "dashes s = map (\<lambda>c. if c = CHR ''.'' then CHR ''-'' else c) s"

text \<open>
  The loop over the parameter request list at offset \<open>q\<close> of the received message.
  \<open>host\<close> is \<^verbatim>\<open>szHostName\<close>, which the first request for a host name rewrites in place.
\<close>

fun request_loop :: "bool \<Rightarrow> u8 list \<Rightarrow> nat \<Rightarrow> nat \<Rightarrow> u8 list \<times> string \<Rightarrow> (u8 list \<times> string) option" where
  "request_loop ipphone img q 0 (opts, host) = Some (opts, host)"
| "request_loop ipphone img q (Suc n) (opts, host) = do {
     c \<leftarrow> rd img q;
     (o1, h1) \<leftarrow> (if c = DHCP_HOST_NAME then do {
         let h = dashes host;
         (o', m) \<leftarrow> add_option_string opts (DHCP_HOST_NAME # of_nat (length h) # bytes_of h);
         Some (o', h) }
       else Some (opts, host));
     (o2, h2) \<leftarrow> (if c = DHCP_DOMAIN_NAME \<and> \<not> ipphone then do {
         (o', m) \<leftarrow> add_option_string o1 (DHCP_DOMAIN_NAME # 12 # bytes_of ''localdomain'' @ [0]);
         Some (o', h1) }
       else Some (o1, h1));
     request_loop ipphone img (q + 1) n (o2, h2) }"

definition request_options ::
  "bool \<Rightarrow> dhcpMessage \<Rightarrow> nat option \<Rightarrow> u8 list \<Rightarrow> string \<Rightarrow> (u8 list \<times> string) option" where
  "request_options ipphone oldpacket reqlist opts host =
     (case reqlist of None \<Rightarrow> Some (opts, host)
      | Some q \<Rightarrow> do {
          n \<leftarrow> rd (message_image oldpacket) (q - 1);
          request_loop ipphone (message_image oldpacket) q (unat n) (opts, host) })"

fun ntp_requested :: "u8 list \<Rightarrow> nat \<Rightarrow> nat \<Rightarrow> bool option" where
  "ntp_requested img q 0 = Some False"
| "ntp_requested img q (Suc n) = do {
     c \<leftarrow> rd img q;
     if c = DHCP_NTP_SERVER then Some True else ntp_requested img (q + 1) n }"

definition ntp_block :: "server_config \<Rightarrow> u8 list" where
  "ntp_block cfg =
     (if c_iPPhoneNtp2 cfg \<noteq> 0
      then [DHCP_NTP_SERVER, 8] @ be32_bytes (c_iPPhoneNtp1 cfg) @ be32_bytes (c_iPPhoneNtp2 cfg)
      else [DHCP_NTP_SERVER, 4] @ be32_bytes (c_iPPhoneNtp1 cfg))"

definition ntp_options :: "server_config \<Rightarrow> dhcpMessage \<Rightarrow> nat option \<Rightarrow> u8 list \<Rightarrow> u8 list option" where
  "ntp_options cfg oldpacket reqlist opts =
     (case reqlist of None \<Rightarrow> Some opts
      | Some q \<Rightarrow> do {
          n \<leftarrow> rd (message_image oldpacket) (q - 1);
          r \<leftarrow> ntp_requested (message_image oldpacket) q (unat n);
          if r \<and> c_iPPhoneNtp1 cfg \<noteq> 0 then add_opt opts (Some (ntp_block cfg)) else Some opts })"

section \<open>OFFER\<close>

text \<open>Four bytes through the pointer of an option, whatever the option's length says.\<close>

definition option_u32 :: "dhcpMessage \<Rightarrow> u8 \<Rightarrow> u32 option option" where
  "option_u32 p code = do {
     r \<leftarrow> get_option p code;
     (case r of None \<Rightarrow> Some None
      | Some q \<Rightarrow> do { w \<leftarrow> rd32 (message_image p) q; Some (Some w) }) }"

definition requested_usable :: "server_config \<Rightarrow> dhcpOfferedAddr list \<Rightarrow> u32 \<Rightarrow> u32 \<Rightarrow> bool" where
  "requested_usable cfg tbl now a \<longleftrightarrow>
     c_start cfg \<le> a \<and> a \<le> c_end cfg \<and> reservedIp cfg a \<noteq> 0 \<and>
     (case find_lease_by_yiaddr tbl a of None \<Rightarrow> True | Some i \<Rightarrow> lease_expired (tbl ! i) now)"

definition search_address ::
  "env \<Rightarrow> server_config \<Rightarrow> dhcpOfferedAddr list \<Rightarrow> (u32 \<times> server_config) option" where
  "search_address env cfg tbl = do {
     (a, cfg1) \<leftarrow> find_address (g_net env) tbl (g_now env) cfg False;
     if a = 0 then find_address (g_net env) tbl (g_now env) cfg1 True else Some (a, cfg1) }"

text \<open>The address to offer, the configuration (ARP probes refresh it) and the lease time.\<close>

definition offer_address ::
  "env \<Rightarrow> server_config \<Rightarrow> dhcpOfferedAddr list \<Rightarrow> dhcpMessage \<Rightarrow> (u32 \<times> server_config \<times> u32) option" where
  "offer_address env cfg tbl oldpacket =
     (case find_lease_by_chaddr tbl (m_chaddr oldpacket) of
        Some i \<Rightarrow> Some (l_yiaddr (tbl ! i), cfg,
           if lease_expired (tbl ! i) (g_now env) then c_lease cfg
           else l_expires (tbl ! i) - g_now env)
      | None \<Rightarrow> do {
          req \<leftarrow> option_u32 oldpacket DHCP_REQUESTED_IP;
          (a, cfg') \<leftarrow>
            (case req of
               Some a \<Rightarrow>
                 if requested_usable cfg tbl (g_now env) a then
                   if a \<noteq> c_server cfg \<and> a \<noteq> router_of cfg then Some (a, cfg)
                   else find_address (g_net env) tbl (g_now env) cfg False
                 else search_address env cfg tbl
             | None \<Rightarrow> search_address env cfg tbl);
          Some (a, cfg', c_lease cfg) })"

definition offer_lease_time :: "server_config \<Rightarrow> u32 option \<Rightarrow> u32 \<Rightarrow> u32" where
  "offer_lease_time cfg req t =
     (let t1 = (case req of None \<Rightarrow> t | Some r \<Rightarrow> if r > c_lease cfg then c_lease cfg else r) in
      if t1 < c_min_lease cfg then c_lease cfg else t1)"

text \<open>The options both OFFER and ACK carry after the lease times, up to those on request.\<close>

definition reply_options ::
  "env \<Rightarrow> dhcpd \<Rightarrow> dhcpMessage \<Rightarrow> u8 list \<Rightarrow> u32 \<Rightarrow> (u8 list \<times> string) option" where
  "reply_options env st oldpacket o1 yiaddr = do {
     o2 \<leftarrow> add_config_options (d_flag_option121 st) (d_bIpphone st) (d_config st) o1;
     vi \<leftarrow> get_option oldpacket DHCP_VENDOR_IDENTIFYING;
     o3 \<leftarrow> (case vi of None \<Rightarrow> Some o2
             | Some q \<Rightarrow> add_opt o2 (createVIoption False (g_serial env) (g_mac env)));
     reqlist \<leftarrow> get_option oldpacket DHCP_PARAM_REQ;
     request_options (d_bIpphone st) oldpacket reqlist o3 (inet_ntoa yiaddr) }"

definition phone_options :: "dhcpd \<Rightarrow> dhcpMessage \<Rightarrow> u8 list \<Rightarrow> u8 list option" where
  "phone_options st oldpacket o4 =
     (if d_bIpphone st then do {
        o5 \<leftarrow> ipphone_options (d_config st) o4;
        reqlist \<leftarrow> get_option oldpacket DHCP_PARAM_REQ;
        ntp_options (d_config st) oldpacket reqlist o5 }
      else Some o4)"

definition sendOffer :: "env \<Rightarrow> dhcpMessage \<Rightarrow> dhcpd \<Rightarrow> (int \<times> dhcpd) option" where
  "sendOffer env oldpacket st = do {
     packet \<leftarrow> init_packet (d_config st) oldpacket DHCPOFFER;
     tbl \<leftarrow> lease_table st;
     (yiaddr, cfg, t) \<leftarrow> offer_address env (d_config st) tbl oldpacket;
     let st1 = st\<lparr>d_config := cfg\<rparr>;
     if yiaddr = 0 then Some (- 1, st1)
     else do {
       let (tbl', slot) = add_lease tbl (g_now env) (m_chaddr packet) yiaddr (c_offer_time cfg);
       let st2 = put_table st1 tbl';
       if slot = None then Some (- 1, st2)
       else do {
         req \<leftarrow> option_u32 oldpacket DHCP_LEASE_TIME;
         o1 \<leftarrow> add_lease_times (m_options packet) (offer_lease_time cfg req t);
         (o4, host) \<leftarrow> reply_options env st2 oldpacket o1 yiaddr;
         o5 \<leftarrow> phone_options st2 oldpacket o4;
         transmit env st2 (add_bootp_options cfg (packet\<lparr>m_yiaddr := yiaddr, m_options := o5\<rparr>)) False } } }"

section \<open>NAK\<close>

definition sendNAK :: "env \<Rightarrow> dhcpMessage \<Rightarrow> dhcpd \<Rightarrow> (int \<times> dhcpd) option" where
  "sendNAK env oldpacket st = do {
     packet \<leftarrow> init_packet (d_config st) oldpacket DHCPNAK;
     (o1, n) \<leftarrow> add_option_string (m_options packet) ([0x38, 4] @ bytes_of ''000'' @ [0]);
     transmit env st (packet\<lparr>m_options := o1\<rparr>) True }"

section \<open>ACK\<close>

text \<open>\<^verbatim>\<open>ipPhoneipaddr\<close> has 255 entries; the two loops stop at a zero entry only.\<close>

fun findSipaddr :: "u32 list \<Rightarrow> u32 \<Rightarrow> bool option" where
  "findSipaddr [] yiaddr = None"
| "findSipaddr (a # as) yiaddr =
     (if a = 0 then Some False else if a = yiaddr then Some True else findSipaddr as yiaddr)"

fun addSipAddr :: "u32 list \<Rightarrow> u32 \<Rightarrow> u32 list option" where
  "addSipAddr [] yiaddr = None"
| "addSipAddr (a # as) yiaddr =
     (if a = 0 then Some (yiaddr # as) else if a = yiaddr then Some (a # as)
      else do { as' \<leftarrow> addSipAddr as yiaddr; Some (a # as') })"

text \<open>\<^verbatim>\<open>sprintf\<close> into the 125 byte command buffer.\<close>

definition sprintf_cmd :: "string \<Rightarrow> string option" where
  "sprintf_cmd s = (if length s < 125 then Some s else None)"

definition BcmMERDataRouteRuleGW :: "char option \<Rightarrow> string \<Rightarrow> effect list option" where
  "BcmMERDataRouteRuleGW staticnat srcIp = do {
     c1 \<leftarrow> sprintf_cmd (''iptables -t mangle -A PREROUTING -s '' @ srcIp @ ''  -j MARK --set-mark '' @
             dec 0x11000013 @ ''/0xff0000ff'');
     rest \<leftarrow> (if staticnat \<noteq> Some (CHR ''1'') then do {
         c2 \<leftarrow> sprintf_cmd (''iptables -t mangle -A PREROUTING -s '' @ srcIp @
                 '' -p udp --dport  123 -j MARK --set-mark 0x0/0xff0000ff'');
         c3 \<leftarrow> sprintf_cmd (''iptables -t mangle -A PREROUTING -s '' @ srcIp @
                 '' -p udp --dport  69 -j MARK --set-mark 0x0/0xff0000ff'');
         Some [c2, c3] }
       else Some []);
     Some (map SystemCmd (c1 # rest @ [''echo 9 > /proc/sys/net/ipv4/netfilter/ip_conntrack_dns''])) }"

definition bcmEnableQosVlan :: "dhcpd \<Rightarrow> dhcpd" where
  "bcmEnableQosVlan st =
     (if d_EnableQosVlan st then st
      else emit (st\<lparr>d_EnableQosVlan := True\<rparr>) [SystemCmd ''ethctl eth0 qos enable''])"

definition ack_lease_time :: "server_config \<Rightarrow> u32 option \<Rightarrow> u32" where
  "ack_lease_time cfg req =
     (case req of None \<Rightarrow> c_lease cfg
      | Some r \<Rightarrow> if r > c_lease cfg then c_lease cfg else if r < c_min_lease cfg then c_lease cfg else r)"

text \<open>What an ACK to an IP phone does besides its options: QoS and the routing mark.\<close>

definition phone_routing :: "env \<Rightarrow> dhcpd \<Rightarrow> u32 \<Rightarrow> string \<Rightarrow> dhcpd option" where
  "phone_routing env st yiaddr host = do {
     let st1 = (if c_iIPPhoneVLANQoSEnable (d_config st) = 1 then bcmEnableQosVlan st else st);
     known \<leftarrow> findSipaddr (d_ipPhoneipaddr st1) yiaddr;
     if known then Some st1
     else do {
       es \<leftarrow> BcmMERDataRouteRuleGW (g_staticnat env) host;
       addrs \<leftarrow> addSipAddr (d_ipPhoneipaddr st1) yiaddr;
       Some (emit (st1\<lparr>d_ipPhoneipaddr := addrs\<rparr>) es) } }"

definition save_identity :: "env \<Rightarrow> dhcpd \<Rightarrow> dhcpMessage \<Rightarrow> u32 \<Rightarrow> dhcpd option" where
  "save_identity env st oldpacket yiaddr = do {
     vi \<leftarrow> get_option oldpacket DHCP_VENDOR_IDENTIFYING;
     (case vi of None \<Rightarrow> Some st
      | Some q \<Rightarrow> do {
          tbl \<leftarrow> lease_table st;
          r \<leftarrow> saveVIoption (g_vi env) tbl (g_now env) (message_image oldpacket) (Some q) yiaddr (d_viList st);
          Some (emit (st\<lparr>d_viList := y_list r\<rparr>)
            ((case y_table r of None \<Rightarrow> [] | Some (n, ns) \<Rightarrow> [ViTable n ns]) @
             (case y_msg r of None \<Rightarrow> [] | Some (t, m) \<Rightarrow> [Tr069 t m]))) }) }"

definition sendACK :: "env \<Rightarrow> dhcpMessage \<Rightarrow> u32 \<Rightarrow> dhcpd \<Rightarrow> (int \<times> dhcpd) option" where
  "sendACK env oldpacket yiaddr st = do {
     packet \<leftarrow> init_packet (d_config st) oldpacket DHCPACK;
     req \<leftarrow> option_u32 oldpacket DHCP_LEASE_TIME;
     let t = ack_lease_time (d_config st) req;
     o1 \<leftarrow> add_lease_times (m_options packet) t;
     (o4, host) \<leftarrow> reply_options env st oldpacket o1 yiaddr;
     st1 \<leftarrow> save_identity env st oldpacket yiaddr;
     st2 \<leftarrow> (if d_bIpphone st then phone_routing env st1 yiaddr host else Some st1);
     o5 \<leftarrow> phone_options st2 oldpacket o4;
     (r, st3) \<leftarrow> transmit env st2
       (add_bootp_options (d_config st) (packet\<lparr>m_yiaddr := yiaddr, m_options := o5\<rparr>)) False;
     if r < 0 then Some (- 1, st3)
     else do {
       tbl \<leftarrow> lease_table st3;
       let (tbl', slot) = add_lease tbl (g_now env) (m_chaddr packet) yiaddr t;
       Some (0, put_table st3 tbl') } }"

section \<open>INFORM\<close>

definition send_inform :: "env \<Rightarrow> dhcpMessage \<Rightarrow> dhcpd \<Rightarrow> (int \<times> dhcpd) option" where
  "send_inform env oldpacket st = do {
     packet \<leftarrow> init_packet (d_config st) oldpacket DHCPACK;
     o1 \<leftarrow> add_lease_times (m_options packet) (c_lease (d_config st));
     o2 \<leftarrow> add_config_options (d_flag_option121 st) False (d_config st) o1;
     transmit env st (add_bootp_options (d_config st) (packet\<lparr>m_options := o2\<rparr>)) False }"

section \<open>Builders of the option field\<close>

text \<open>
  A builder step \<open>f\<close> appends options with codes from \<open>C\<close> to whatever the field
  denotes, and never leaves the field.
\<close>

fun opt_code :: "opt \<Rightarrow> u8" where
  "opt_code Pad = DHCP_PADDING"
| "opt_code (Opt c d) = c"

definition appends :: "u8 set \<Rightarrow> (u8 list \<Rightarrow> u8 list option) \<Rightarrow> bool" where
  "appends C f \<longleftrightarrow> (\<forall>m os. repr m os \<longrightarrow>
     (\<exists>m' xs. f m = Some m' \<and> repr m' (os @ xs) \<and> opt_code ` set xs \<subseteq> C))"

lemma appendsD: "appends C f \<Longrightarrow> repr m os \<Longrightarrow>
   \<exists>m' xs. f m = Some m' \<and> repr m' (os @ xs) \<and> opt_code ` set xs \<subseteq> C"
  by (simp add: appends_def)

lemma appends_id [intro]: "appends C Some"
  by (auto simp: appends_def intro!: exI[of _ "[]"])

lemma appends_bind [intro]:
  assumes "appends C f" "appends C g"
  shows "appends C (\<lambda>m. f m \<bind> g)"
  unfolding appends_def
proof (intro allI impI)
  fix m os
  assume "repr m os"
  with assms(1) obtain m1 xs where 1: "f m = Some m1" "repr m1 (os @ xs)" "opt_code ` set xs \<subseteq> C"
    by (auto dest: appendsD)
  with assms(2) obtain m2 ys where "g m1 = Some m2" "repr m2 ((os @ xs) @ ys)" "opt_code ` set ys \<subseteq> C"
    by (blast dest: appendsD)
  with 1 show "\<exists>m' zs. f m \<bind> g = Some m' \<and> repr m' (os @ zs) \<and> opt_code ` set zs \<subseteq> C"
    by (intro exI[of _ m2] exI[of _ "xs @ ys"]) auto
qed

lemma appends_mono: "appends C f \<Longrightarrow> C \<subseteq> D \<Longrightarrow> appends D f"
  unfolding appends_def by (meson order_trans)

text \<open>A buffer whose length byte stays within it, with a code that is neither pad nor end.\<close>

definition wf_string :: "u8 list \<Rightarrow> bool" where
  "wf_string s \<longleftrightarrow> unat (s ! 1) + 2 \<le> length s \<and> s ! 0 \<noteq> DHCP_PADDING \<and> s ! 0 \<noteq> DHCP_END"

lemma wf_block_string: "wf_block b \<Longrightarrow> wf_string b"
  by (simp add: wf_block_def wf_string_def)

lemma wf_string_block:
  assumes "wf_string s"
  shows "wf_block (take (unat (s ! 1) + 2) s)" and "take (unat (s ! 1) + 2) s ! 0 = s ! 0"
    and "s = take (unat (s ! 1) + 2) s @ drop (unat (s ! 1) + 2) s"
  using assms by (auto simp: wf_string_def wf_block_def)

lemma add_option_string_take:
  assumes "repr m os" "wf_string s"
  shows "add_option_string m s = add_option_string m (take (unat (s ! 1) + 2) s)"
proof -
  let ?b = "take (unat (s ! 1) + 2) s"
  have l: "unat (s ! 1) + 2 \<le> length s" using assms(2) by (simp add: wf_string_def)
  have r: "rd s 1 = Some (s ! 1)" "rd ?b 1 = Some (s ! 1)"
    using l by (simp_all add: rd_def)
  have e: "rdn s 0 (unat (s ! 1) + 2) = rdn ?b 0 (unat (s ! 1) + 2)"
    using l by (simp add: rdn_def slice_def min_def)
  show ?thesis unfolding add_option_string_def r bind.simps e ..
qed

lemma appends_string:
  assumes "wf_string s"
  shows "appends {s ! 0} (\<lambda>m. do { (o', n) \<leftarrow> add_option_string m s; Some o' })"
  unfolding appends_def
proof (intro allI impI)
  fix m os
  assume r: "repr m os"
  let ?b = "take (unat (s ! 1) + 2) s"
  note b = wf_string_block[OF assms]
  have code: "opt_code (block_opt ?b) = s ! 0" using b(2) by (simp add: block_opt_def)
  show "\<exists>m' xs. do { (o', n) \<leftarrow> add_option_string m s; Some o' } = Some m' \<and> repr m' (os @ xs) \<and>
      opt_code ` set xs \<subseteq> {s ! 0}"
  proof (cases "room_1024 os (block_opt ?b)")
    case True
    from opts.add_fits[OF r b(1) True] obtain m' n where
      "add_option_string m ?b = Some (m', n)" "repr m' (os @ [block_opt ?b])" by blast
    with add_option_string_take[OF r assms] code show ?thesis
      by (intro exI[of _ m'] exI[of _ "[block_opt ?b]"]) auto
  next
    case False
    from opts.add_full[OF r b(1) False] add_option_string_take[OF r assms] r show ?thesis
      by (intro exI[of _ m] exI[of _ "[]"]) auto
  qed
qed

lemma appends_add_opt:
  "wf_string s \<Longrightarrow> s ! 0 \<in> C \<Longrightarrow> appends C (\<lambda>m. add_opt m (Some s))"
  unfolding add_opt_def by (auto intro: appends_mono[OF appends_string])

lemma appends_blocks:
  assumes "list_all wf_block bs" "(\<lambda>b. b ! 0) ` set bs \<subseteq> C"
  shows "appends C (\<lambda>m. add_blocks add_option_string m bs)"
  unfolding appends_def
proof (intro allI impI)
  fix m os
  assume "repr m os"
  from opts.add_blocks_accepted[OF this assms(1)] obtain m' where
    m': "add_blocks add_option_string m bs = Some m'" "repr m' (opts.accepted os (map block_opt bs))" by blast
  obtain zs where zs: "opts.accepted os (map block_opt bs) = os @ zs" "set zs \<subseteq> set (map block_opt bs)"
    using opts.accepted_prefix by blast
  have "opt_code ` set zs \<subseteq> opt_code ` block_opt ` set bs" using zs(2) by auto
  also have "\<dots> \<subseteq> C" using assms(2) by (auto simp: block_opt_def)
  finally have "opt_code ` set zs \<subseteq> C" .
  with m' zs(1) show "\<exists>m' xs. add_blocks add_option_string m bs = Some m' \<and> repr m' (os @ xs) \<and>
      opt_code ` set xs \<subseteq> C" by auto
qed

section \<open>The pieces of a reply are builders\<close>

definition wf_config :: "server_config \<Rightarrow> bool" where
  "wf_config cfg \<longleftrightarrow> wf_optset (c_options cfg) \<and> c_end cfg < 0xFFFFFFFF \<and>
     (\<forall>s \<in> set_option (c_pIPPhoneDomainName cfg). length s < 256) \<and>
     (\<forall>s \<in> set_option (c_pIPPhoneDNSServers cfg). length s < 256) \<and>
     (\<forall>s \<in> set_option (c_pIPPhoneTFTPServer cfg). length s < 256) \<and>
     (\<forall>s \<in> set_option (c_pIPPhoneTFTPServerName cfg). length s < 256) \<and>
     (\<forall>s \<in> set_option (c_pOutBoundProxy cfg). length s < 256) \<and>
     (case c_lease_file cfg of None \<Rightarrow> False
      | Some f \<Rightarrow> (\<forall>n \<in> set_option (c_notify_file cfg). length n + length f < 254))"

lemma wf_config_blocks: "wf_config cfg \<Longrightarrow> list_all wf_block (c_options cfg)"
  by (simp add: wf_config_def wf_optset_def)

lemma add_config_options_appends:
  assumes "wf_config cfg"
  shows "appends UNIV (add_config_options flag121 ipphone cfg)"
proof -
  have "list_all wf_block (filter (option_wanted flag121 ipphone) (c_options cfg))"
    using wf_config_blocks[OF assms] by (simp add: list_all_iff)
  then have 1: "appends UNIV (\<lambda>m. add_blocks add_option_string m
      (filter (option_wanted flag121 ipphone) (c_options cfg)))"
    by (rule appends_blocks) simp
  have "wf_string ([DHCP_STATIC_ROUTE, 5, 0] @ be32_bytes (c_server cfg))"
    by (simp add: wf_string_def)
  from appends_mono[OF appends_string[OF this]] have
    2: "appends UNIV (\<lambda>m. if flag121 then do {
       (o2, n) \<leftarrow> add_option_string m ([DHCP_STATIC_ROUTE, 5, 0] @ be32_bytes (c_server cfg));
       Some o2 } else Some m)" by (cases flag121) auto
  show ?thesis unfolding add_config_options_def by (rule appends_bind[OF 1 2])
qed

lemma vdf_buffer_string:
  assumes "length value + 2 \<le> 1025" "c \<noteq> DHCP_PADDING" "c \<noteq> DHCP_END"
  shows "\<exists>s. vdf_buffer c len value = Some s \<and> wf_string s \<and> s ! 0 = c"
proof -
  have "length (c # of_nat len # value) \<le> 1025" using assms(1) by simp
  then have v: "vdf_buffer c len value = Some (blit (replicate 1025 0) 0 (c # of_nat len # value))"
    by (simp add: vdf_buffer_def memcpy_in BUFSIZE_def)
  have l: "length (blit (replicate 1025 0) 0 (c # of_nat len # value)) = 1025"
    using assms(1) by simp
  have u: "unat (b :: u8) + 2 \<le> 1025" for b using unat_u8[of b] by linarith
  have "wf_string (blit (replicate 1025 0) 0 (c # of_nat len # value))"
    unfolding wf_string_def l by (intro conjI u) (use assms in \<open>simp_all add: blit_def\<close>)
  with v show ?thesis by (simp add: blit_def)
qed

lemma split_on_length: "sum_list (map length (split_on c s)) + length (split_on c s) = length s + 1"
  by (induction c s rule: split_on.induct) (auto split: list.split)

lemma strtok_length: "sum_list (map length (strtok c s)) + length (strtok c s) \<le> length s + 1"
proof -
  have "sum_list (map length (filter (\<lambda>w. w \<noteq> []) ws)) + length (filter (\<lambda>w. w \<noteq> []) ws)
      \<le> sum_list (map length ws) + length ws" for ws :: "string list"
    by (induction ws) auto
  from this[of "split_on c s"] show ?thesis unfolding strtok_def split_on_length .
qed

lemma strtok_count: "2 * length (strtok c s) \<le> length s + 1"
proof -
  have "length ws \<le> sum_list (map length ws)" if "list_all (\<lambda>w. w \<noteq> []) ws" for ws :: "string list"
    using that
  proof (induction ws)
    case (Cons w ws)
    then have "1 \<le> length w" by (cases w) auto
    with Cons show ?case by simp
  qed simp
  from this[of "strtok c s"] strtok_length[of c s] show ?thesis
    by (simp add: strtok_def list_all_iff)
qed

lemma length_concat_be32: "length (concat (map (\<lambda>t. be32_bytes (f t)) ts)) = 4 * length ts"
  by (induction ts) simp_all

lemma length_encode_domain: "length (encode_domain t) \<le> length t + 2"
  by (simp add: encode_domain_def)

lemma length_concat_domain:
  "length (concat (map encode_domain ts)) \<le> sum_list (map length ts) + 2 * length ts"
proof (induction ts)
  case (Cons t ts)
  then show ?case using length_encode_domain[of t] by simp
qed simp

lemma vdf_string_wf: "length s < 256 \<Longrightarrow> c \<noteq> DHCP_PADDING \<Longrightarrow> c \<noteq> DHCP_END \<Longrightarrow>
  \<exists>b. vdf_string c s = Some b \<and> wf_string b \<and> b ! 0 = c"
  unfolding vdf_string_def by (rule vdf_buffer_string) simp_all

lemma fileoption6_wf:
  assumes "length s < 256"
  shows "\<exists>b. fileoption6 s = Some b \<and> wf_string b \<and> b ! 0 = DHCP_DNS_SERVER"
proof -
  let ?t = "strtok (CHR '','') s"
  have "length ?t \<le> 128" using strtok_count[of "CHR '',''" s] assms by simp
  then have "length (concat (map (\<lambda>t. be32_bytes (inet_addr t)) ?t)) + 2 \<le> 1025"
    by (simp add: length_concat_be32)
  from vdf_buffer_string[OF this] assms show ?thesis
    by (simp add: fileoption6_def option_tokens_def)
qed

lemma fileoption120ipaddr_wf:
  assumes "length s < 256"
  shows "\<exists>b. fileoption120ipaddr s = Some b \<and> wf_string b \<and> b ! 0 = DHCP_OUTBOUND_PROXY"
proof -
  let ?t = "strtok (CHR '','') s"
  have "length ?t \<le> 128" using strtok_count[of "CHR '',''" s] assms by simp
  then have "length (1 # concat (map (\<lambda>t. be32_bytes (inet_addr t)) ?t)) + 2 \<le> 1025"
    by (simp add: length_concat_be32)
  from vdf_buffer_string[OF this] assms show ?thesis
    by (simp add: fileoption120ipaddr_def option_tokens_def)
qed

lemma fileoption120Domain_wf:
  assumes "length s < 256"
  shows "\<exists>b. fileoption120Domain s = Some b \<and> wf_string b \<and> b ! 0 = DHCP_OUTBOUND_PROXY"
proof -
  let ?t = "strtok (CHR '','') s"
  have "length (0 # concat (map encode_domain ?t)) + 2 \<le> 1025"
    using length_concat_domain[of ?t] strtok_length[of "CHR '',''" s] strtok_count[of "CHR '',''" s] assms
    by simp
  from vdf_buffer_string[OF this, of DHCP_OUTBOUND_PROXY] assms show ?thesis
    by (simp add: fileoption120Domain_def option_tokens_def Let_def)
qed

lemma appends_opt_cases:
  "(\<And>x. v = Some x \<Longrightarrow> appends C (f x)) \<Longrightarrow> appends C (\<lambda>m. case v of None \<Rightarrow> Some m | Some x \<Rightarrow> f x m)"
  by (cases v) auto

lemma appends_add_opt':
  assumes "\<exists>b. buf = Some b \<and> wf_string b \<and> b ! 0 = c"
  shows "appends UNIV (\<lambda>m. add_opt m buf)"
  using assms appends_add_opt by auto

lemma ipphone_options_appends:
  assumes "wf_config cfg"
  shows "appends UNIV (ipphone_options cfg)"
proof -
  have w: "c_pIPPhoneDomainName cfg = Some s \<Longrightarrow> length s < 256"
    "c_pIPPhoneDNSServers cfg = Some s \<Longrightarrow> length s < 256"
    "c_pIPPhoneTFTPServer cfg = Some s \<Longrightarrow> length s < 256"
    "c_pIPPhoneTFTPServerName cfg = Some s \<Longrightarrow> length s < 256"
    "c_pOutBoundProxy cfg = Some s \<Longrightarrow> length s < 256" for s
    using assms by (auto simp: wf_config_def)
  have 1: "appends UNIV (\<lambda>m. case c_pIPPhoneDomainName cfg of None \<Rightarrow> Some m
      | Some s \<Rightarrow> add_opt m (vdf_string DHCP_DOMAIN_NAME s))"
    by (rule appends_opt_cases, rule appends_add_opt', rule vdf_string_wf) (simp_all add: w)
  have 2: "appends UNIV (\<lambda>m. case c_pIPPhoneDNSServers cfg of None \<Rightarrow> Some m
      | Some s \<Rightarrow> add_opt m (fileoption6 s))"
    by (rule appends_opt_cases, rule appends_add_opt', rule fileoption6_wf) (simp add: w)
  have tftp: "appends UNIV (\<lambda>m. add_opt m (vdf_string DHCP_TFTP_SERVER_NAME s))" if "length s < 256" for s
    by (rule appends_add_opt', rule vdf_string_wf) (use that in simp_all)
  have 3: "appends UNIV (\<lambda>m. case c_pIPPhoneTFTPServer cfg of
        Some s \<Rightarrow> add_opt m (vdf_string DHCP_TFTP_SERVER_NAME s)
      | None \<Rightarrow> (case c_pIPPhoneTFTPServerName cfg of
          Some s \<Rightarrow> add_opt m (vdf_string DHCP_TFTP_SERVER_NAME s) | None \<Rightarrow> Some m))"
    using tftp w by (cases "c_pIPPhoneTFTPServer cfg"; cases "c_pIPPhoneTFTPServerName cfg") auto
  have 4: "appends UNIV (\<lambda>m. case c_pOutBoundProxy cfg of None \<Rightarrow> Some m
      | Some s \<Rightarrow> add_opt m (if ValidateIpAddress s then fileoption120ipaddr s else fileoption120Domain s))"
    by (rule appends_opt_cases, rule appends_add_opt')
      (use w fileoption120ipaddr_wf fileoption120Domain_wf in auto)
  show ?thesis
    unfolding ipphone_options_def
    by (intro appends_bind[OF 1] appends_bind[OF 2] appends_bind[OF 3] 4)
qed

lemma get_option_length_byte:
  assumes "wf_message p" "get_option p c = Some (Some q)"
  shows "rd (message_image p) (q - 1) = Some (message_image p ! (q - 1))"
    and "q + unat (message_image p ! (q - 1)) \<le> 548" and "length (message_image p) = 1264"
proof -
  show l: "length (message_image p) = 1264" using assms(1) by (rule length_message_image)
  show 1: "q + unat (message_image p ! (q - 1)) \<le> 548"
    using get_option_in[OF assms] by (auto simp: option_at_def option_area_def)
  then show "rd (message_image p) (q - 1) = Some (message_image p ! (q - 1))"
    using l by (simp add: rd_def)
qed

lemma length_dashes [simp]: "length (dashes s) = length s"
  by (simp add: dashes_def)

lemma builder_if:
  assumes "wf_string s" "repr m os"
  shows "\<exists>o' xs. (if P then do { (o', n) \<leftarrow> add_option_string m s; Some (o', h) } else Some (m, h'))
     = Some (o', if P then h else h') \<and> repr o' (os @ xs)"
proof (cases P)
  case True
  from appendsD[OF appends_string[OF assms(1)] assms(2)] obtain m' xs where
    "add_option_string m s \<bind> (\<lambda>(o', n). Some o') = Some m'" "repr m' (os @ xs)" by blast
  with True show ?thesis by (cases "add_option_string m s") auto
qed (use assms in \<open>auto intro!: exI[of _ "[]"]\<close>)

lemma request_loop_appends:
  assumes "q + n \<le> length img" "repr opts os" "length host \<le> 15"
  shows "\<exists>o' h xs. request_loop ipphone img q n (opts, host) = Some (o', h) \<and> repr o' (os @ xs) \<and>
    length h \<le> 15 \<and> (h = host \<or> h = dashes host)"
  using assms
proof (induction n arbitrary: q opts os host)
  case 0
  then show ?case by (auto intro!: exI[of _ "[]"])
next
  case (Suc n)
  let ?c = "img ! q"
  have r: "rd img q = Some ?c" using Suc.prems(1) by (simp add: rd_def)
  have hb: "wf_string (DHCP_HOST_NAME # of_nat (length (dashes host)) # bytes_of (dashes host))"
    using Suc.prems(3) by (simp add: wf_string_def unat_of_nat_u8_small del: unat_of_nat)
  have db: "wf_string (DHCP_DOMAIN_NAME # 12 # bytes_of ''localdomain'' @ [0])"
    by (simp add: wf_string_def)
  define h1 where "h1 = (if ?c = DHCP_HOST_NAME then dashes host else host)"
  obtain o1 xs where 1: "(if ?c = DHCP_HOST_NAME then do {
         let h = dashes host;
         (o', m) \<leftarrow> add_option_string opts (DHCP_HOST_NAME # of_nat (length h) # bytes_of h);
         Some (o', h) }
       else Some (opts, host)) = Some (o1, h1)" "repr o1 (os @ xs)"
    using builder_if[OF hb Suc.prems(2), of "?c = DHCP_HOST_NAME" "dashes host" host]
    unfolding h1_def Let_def by blast
  obtain o2 ys where 2: "(if ?c = DHCP_DOMAIN_NAME \<and> \<not> ipphone then do {
         (o', m) \<leftarrow> add_option_string o1 (DHCP_DOMAIN_NAME # 12 # bytes_of ''localdomain'' @ [0]);
         Some (o', h1) }
       else Some (o1, h1)) = Some (o2, h1)" "repr o2 ((os @ xs) @ ys)"
    using builder_if[OF db 1(2), of "?c = DHCP_DOMAIN_NAME \<and> \<not> ipphone" h1 h1]
    unfolding if_cancel by blast
  have l1: "length h1 \<le> 15" using Suc.prems(3) by (simp add: h1_def)
  from Suc.IH[of "q + 1" o2 "(os @ xs) @ ys" h1] Suc.prems(1) 2(2) l1 obtain o' h zs where
    3: "request_loop ipphone img (q + 1) n (o2, h1) = Some (o', h)" "repr o' (((os @ xs) @ ys) @ zs)"
    "length h \<le> 15" "h = h1 \<or> h = dashes h1" by auto
  have "dashes (dashes host) = dashes host" by (simp add: dashes_def)
  then have "h = host \<or> h = dashes host" using 3(4) by (auto simp: h1_def split: if_splits)
  moreover have "request_loop ipphone img q (Suc n) (opts, host) = Some (o', h)"
    unfolding request_loop.simps r bind.simps 1(1) prod.case 2(1) 3(1) ..
  ultimately show ?case using 3(2,3) by (intro exI[of _ o'] exI[of _ h] exI[of _ "xs @ ys @ zs"]) simp
qed

lemma request_options_appends:
  assumes "wf_message p" "get_option p c = Some r" "repr opts os" "length host \<le> 15"
  shows "\<exists>o' h xs. request_options ipphone p r opts host = Some (o', h) \<and> repr o' (os @ xs) \<and>
    length h \<le> 15 \<and> (h = host \<or> h = dashes host)"
proof (cases r)
  case None
  with assms show ?thesis by (auto simp: request_options_def intro!: exI[of _ "[]"])
next
  case (Some q)
  note b = get_option_length_byte[OF assms(1,2)[unfolded Some]]
  show ?thesis
    unfolding request_options_def Some option.case b(1) bind.simps
    using b(2,3) by (intro request_loop_appends[OF _ assms(3,4)]) simp
qed

lemma ntp_requested_total:
  "q + n \<le> length img \<Longrightarrow> ntp_requested img q n = Some (DHCP_NTP_SERVER \<in> set (slice img q n))"
proof (induction n arbitrary: q)
  case 0
  then show ?case by (simp add: slice_def)
next
  case (Suc n)
  have "slice img q (Suc n) = img ! q # slice img (q + 1) n"
    using Suc.prems by (simp add: slice_def Cons_nth_drop_Suc[symmetric])
  with Suc show ?case by (auto simp: rd_def)
qed

lemma ntp_options_appends:
  assumes "wf_message p" "get_option p c = Some r"
  shows "appends {DHCP_NTP_SERVER} (ntp_options cfg p r)"
proof (cases r)
  case None
  then show ?thesis by (simp add: ntp_options_def[abs_def] appends_id)
next
  case (Some q)
  note b = get_option_length_byte[OF assms(1,2)[unfolded Some]]
  have w: "wf_string (ntp_block cfg)" "ntp_block cfg ! 0 = DHCP_NTP_SERVER"
    by (auto simp: wf_string_def ntp_block_def)
  have n: "ntp_requested (message_image p) q (unat (message_image p ! (q - 1))) =
      Some (DHCP_NTP_SERVER \<in> set (slice (message_image p) q (unat (message_image p ! (q - 1)))))"
    using b(2,3) by (intro ntp_requested_total) simp
  show ?thesis
    unfolding ntp_options_def[abs_def] Some option.case b(1) bind.simps n
    using appends_add_opt[OF w(1), of "{DHCP_NTP_SERVER}"] w(2) appends_id
    by (cases "DHCP_NTP_SERVER \<in> set (slice (message_image p) q (unat (message_image p ! (q - 1)))) \<and>
        c_iPPhoneNtp1 cfg \<noteq> 0") auto
qed

lemma phone_options_appends:
  assumes "wf_message p" "wf_config (d_config st)"
  shows "appends UNIV (phone_options st p)"
proof -
  obtain r where r: "get_option p DHCP_PARAM_REQ = Some r"
    using get_option_some[OF assms(1), of DHCP_PARAM_REQ] by auto
  have "appends UNIV (ntp_options (d_config st) p r)"
    using appends_mono[OF ntp_options_appends[OF assms(1) r]] by blast
  with ipphone_options_appends[OF assms(2)] have
    "appends UNIV (\<lambda>o4. ipphone_options (d_config st) o4 \<bind> ntp_options (d_config st) p r)"
    by (rule appends_bind)
  then show ?thesis by (cases "d_bIpphone st") (auto simp: phone_options_def[abs_def] r)
qed

lemma reply_options_appends:
  assumes "wf_message p" "wf_config (d_config st)" "length (g_serial env) \<le> 110" "repr o1 os"
  shows "\<exists>o4 h xs. reply_options env st p o1 yiaddr = Some (o4, h) \<and> repr o4 (os @ xs) \<and>
    length h \<le> 15 \<and> (h = inet_ntoa yiaddr \<or> h = dashes (inet_ntoa yiaddr))"
proof -
  obtain vi where vi: "get_option p DHCP_VENDOR_IDENTIFYING = Some vi"
    using get_option_some[OF assms(1), of DHCP_VENDOR_IDENTIFYING] by auto
  obtain rq where rq: "get_option p DHCP_PARAM_REQ = Some rq"
    using get_option_some[OF assms(1), of DHCP_PARAM_REQ] by auto
  obtain b where b: "createVIoption False (g_serial env) (g_mac env) = Some b"
    using assms(3) createVIoption_Some by blast
  have "appends UNIV (\<lambda>m. case vi of None \<Rightarrow> Some m
      | Some q \<Rightarrow> add_opt m (createVIoption False (g_serial env) (g_mac env)))"
    using createVIoption_block[OF b]
    by (intro appends_opt_cases) (auto simp: b intro: appends_add_opt wf_block_string)
  from appends_bind[OF add_config_options_appends[OF assms(2)] this] obtain o3 xs where
    3: "(add_config_options (d_flag_option121 st) (d_bIpphone st) (d_config st) o1 \<bind>
        (\<lambda>m. case vi of None \<Rightarrow> Some m
          | Some q \<Rightarrow> add_opt m (createVIoption False (g_serial env) (g_mac env)))) = Some o3"
      "repr o3 (os @ xs)"
    using appendsD[OF _ assms(4)] by blast
  then obtain o2 where 2: "add_config_options (d_flag_option121 st) (d_bIpphone st) (d_config st) o1 = Some o2"
    "(case vi of None \<Rightarrow> Some o2
      | Some q \<Rightarrow> add_opt o2 (createVIoption False (g_serial env) (g_mac env))) = Some o3"
    by (auto simp: bind_eq_Some_conv)
  from request_options_appends[OF assms(1) rq 3(2) length_inet_ntoa, of "d_bIpphone st" yiaddr]
  obtain o4 h ys where 4: "request_options (d_bIpphone st) p rq o3 (inet_ntoa yiaddr) = Some (o4, h)"
    "repr o4 ((os @ xs) @ ys)" "length h \<le> 15" "h = inet_ntoa yiaddr \<or> h = dashes (inet_ntoa yiaddr)"
    by blast
  have "reply_options env st p o1 yiaddr = Some (o4, h)"
    unfolding reply_options_def 2(1) bind.simps vi 2(2) rq 4(1) ..
  with 4 show ?thesis by (intro exI[of _ o4] exI[of _ h] exI[of _ "xs @ ys"]) simp
qed

section \<open>The fixed part of a reply\<close>

definition reply_head :: "server_config \<Rightarrow> u8 \<Rightarrow> opt list" where
  "reply_head cfg type = [Opt DHCP_MESSAGE_TYPE [type], Opt DHCP_SERVER_ID (be32_bytes (c_server cfg))]"

definition lease_opts :: "u32 \<Rightarrow> opt list" where
  "lease_opts t = [Opt DHCP_LEASE_TIME (be32_bytes t), Opt DHCP_T1 (be32_bytes (t div 2)),
     Opt DHCP_T2 (be32_bytes (drop_bit 3 (t * 7)))]"

lemma add_simple_appends:
  assumes "repr m os" "simple_code c" "length (enc os) + unat (simple_option_length c) + 3 \<le> 1024"
  shows "\<exists>m' n. add_simple_option m c data = Some (m', n) \<and>
    repr m' (os @ [Opt c (simple_option_bytes (sint (simple_option_length c)) data)])"
proof -
  let ?d = "simple_option_bytes (sint (simple_option_length c)) data"
  note a = add_simple_option_repr[OF assms, of data]
  have "wf_opt (Opt c ?d)" using a(1) assms(2) by (auto simp: simple_code_def)
  from blit_repr[OF assms(1) this] a(1) assms(3)
  have "repr (blit m (length (enc os)) (c # of_nat (length ?d) # ?d @ [DHCP_END])) (os @ [Opt c ?d])" by simp
  with a(2) show ?thesis by blast
qed

lemma repr_empty: "repr (DHCP_END # replicate 1023 0) []"
  by (simp add: repr_def)

lemma simple_codes:
  "simple_code DHCP_MESSAGE_TYPE" "simple_code DHCP_SERVER_ID" "simple_code DHCP_LEASE_TIME"
  "simple_code DHCP_T1" "simple_code DHCP_T2"
  by (simp_all add: simple_code_def simple_option_lengths)

definition reply_base :: "dhcpMessage \<Rightarrow> u8 list \<Rightarrow> dhcpMessage" where
  "reply_base p opts = zero_message\<lparr>m_op := BOOTREPLY, m_htype := ETH_10MB,
      m_hlen := ETH_10MB_LEN, m_xid := m_xid p, m_chaddr := m_chaddr p, m_cookie := DHCP_MAGIC,
      m_flags := m_flags p, m_giaddr := m_giaddr p, m_ciaddr := m_ciaddr p, m_options := opts\<rparr>"

lemma reply_base_simps [simp]:
  "m_options (reply_base p opts) = opts" "m_chaddr (reply_base p opts) = m_chaddr p"
  "m_yiaddr (reply_base p opts) = 0" "reply_base p opts\<lparr>m_options := o'\<rparr> = reply_base p o'"
  by (simp_all add: reply_base_def zero_message_def)

lemma init_packet_reply:
  "\<exists>o2. init_packet cfg p type = Some (reply_base p o2) \<and>
    repr o2 (reply_head cfg type)"
proof -
  have u: "ucast (ucast type :: u32) = type"
    by (rule bit_word_eqI) (simp add: bit_ucast_iff)
  obtain o1 n1 where 1: "add_simple_option (DHCP_END # replicate 1023 0) DHCP_MESSAGE_TYPE (ucast type) = Some (o1, n1)"
    "repr o1 [Opt DHCP_MESSAGE_TYPE [type]]"
    using add_simple_appends[OF repr_empty simple_codes(1), of "ucast type"]
    by (auto simp: simple_option_lengths simple_option_bytes_def u)
  obtain o2 n2 where 2: "add_simple_option o1 DHCP_SERVER_ID (c_server cfg) = Some (o2, n2)"
    "repr o2 (reply_head cfg type)"
    using add_simple_appends[OF 1(2) simple_codes(2), of "c_server cfg"]
    by (auto simp: simple_option_lengths simple_option_bytes_def reply_head_def)
  show ?thesis
    unfolding init_packet_def Let_def 1(1) bind.simps prod.case 2(1)
    using 2(2) by (intro exI[of _ o2]) (simp add: reply_base_def)
qed

lemma add_lease_times_reply:
  assumes "repr opts os" "length (enc os) + 20 \<le> 1024"
  shows "\<exists>o3. add_lease_times opts t = Some o3 \<and> repr o3 (os @ lease_opts t)"
proof -
  have b: "simple_option_bytes (sint (4 :: u8)) d = be32_bytes d" for d :: u32
    by (simp add: simple_option_bytes_def)
  obtain o1 n1 where 1: "add_simple_option opts DHCP_LEASE_TIME t = Some (o1, n1)"
    "repr o1 (os @ [Opt DHCP_LEASE_TIME (be32_bytes t)])"
    using add_simple_appends[OF assms(1) simple_codes(3), of t] assms(2)
    unfolding simple_option_lengths b by auto
  obtain o2 n2 where 2: "add_simple_option o1 DHCP_T1 (t div 2) = Some (o2, n2)"
    "repr o2 ((os @ [Opt DHCP_LEASE_TIME (be32_bytes t)]) @ [Opt DHCP_T1 (be32_bytes (t div 2))])"
    using add_simple_appends[OF 1(2) simple_codes(4), of "t div 2"] assms(2)
    unfolding simple_option_lengths b by auto
  obtain o3 n3 where 3: "add_simple_option o2 DHCP_T2 (drop_bit 3 (t * 7)) = Some (o3, n3)"
    "repr o3 (((os @ [Opt DHCP_LEASE_TIME (be32_bytes t)]) @ [Opt DHCP_T1 (be32_bytes (t div 2))]) @
      [Opt DHCP_T2 (be32_bytes (drop_bit 3 (t * 7)))])"
    using add_simple_appends[OF 2(2) simple_codes(5), of "drop_bit 3 (t * 7)"] assms(2)
    unfolding simple_option_lengths b by auto
  show ?thesis
    unfolding add_lease_times_def 1(1) 2(1) 3(1) bind.simps prod.case
    using 3(2) by (simp add: lease_opts_def)
qed

lemma length_reply_head: "length (enc (reply_head cfg type)) = 9"
  by (simp add: reply_head_def)

section \<open>Sending a reply\<close>

text \<open>The payload a frame carries.\<close>

fun frame_payload :: "frame \<Rightarrow> u8 list" where
  "frame_payload (RawFrame bs dest ifi) = drop 28 bs"
| "frame_payload (UdpDatagram bs sip sport dip dport ifname) = bs"

text \<open>A frame for the client port of a host on the link.\<close>

definition client_frame :: "frame \<Rightarrow> bool" where
  "client_frame f \<longleftrightarrow>
     (\<exists>data s d arp ifi. f = RawFrame (raw_frame data s SERVER_PORT d CLIENT_PORT) arp ifi)"

definition sock_works :: "sock_env \<Rightarrow> bool" where
  "sock_works e \<longleftrightarrow> e_socket e \<and> e_bind e \<and> e_reuseaddr e \<and> e_connect e"

lemma length_client_destination: "length (m_chaddr p) = 16 \<Longrightarrow> length (snd (client_destination p b)) = 6"
  by (simp add: client_destination_def MAC_BCAST_ADDR_def)

lemma send_packet_sends:
  assumes "wf_message q" "repr (m_options q) os"
  shows "\<exists>r. send_packet e cfg q b = Some r \<and>
    (case s_frame r of None \<Rightarrow> s_result r = - 1 \<and> \<not> sock_works e
     | Some f \<Rightarrow> s_result r = e_result e \<and> sent_payload q = Some (frame_payload f) \<and>
         (m_giaddr q = 0 \<longrightarrow> client_frame f))"
proof -
  from calc_length_repr[OF assms] obtain q' n where c: "calc_length q = Some (q', n)" "n \<le> 1264"
    "wf_message q'" by blast
  then have rn: "rdn (message_image q') 0 n = Some (take n (message_image q'))"
    by (simp add: rdn_def slice_def length_message_image)
  have sp: "sent_payload q = Some (take n (message_image q'))" using c rn by (simp add: sent_payload_def)
  obtain d ch where dest: "client_destination q b = (d, ch)" by fastforce
  have "rdn ch 0 6 = Some ch"
    using length_client_destination[of q b] assms(1) dest by (simp add: wf_message_def rdn_def slice_def)
  moreover have "drop 28 (raw_frame x s sp dd dp) = x" for x s sp dd dp
    by (simp add: raw_frame_def Let_def)
  ultimately show ?thesis
    using c(1) rn sp dest
    by (auto simp: send_packet_def send_packet_to_relay_def send_packet_to_client_def kernel_packet_def
        raw_packet_def sock_works_def client_frame_def)
qed

lemma transmit_sends:
  assumes "wf_message q" "repr (m_options q) os"
  shows "\<exists>r out. transmit env st q b = Some (r, emit st out) \<and>
    ((out = [] \<and> r = - 1 \<and> \<not> sock_works (g_sock env)) \<or>
     (\<exists>f. out = [Sent f] \<and> r = e_result (g_sock env) \<and> sent_payload q = Some (frame_payload f) \<and>
        (m_giaddr q = 0 \<longrightarrow> client_frame f)))"
proof -
  from send_packet_sends[OF assms] obtain r where
    "send_packet (g_sock env) (d_config st) q b = Some r"
    "case s_frame r of None \<Rightarrow> s_result r = - 1 \<and> \<not> sock_works (g_sock env)
     | Some f \<Rightarrow> s_result r = e_result (g_sock env) \<and> sent_payload q = Some (frame_payload f) \<and>
         (m_giaddr q = 0 \<longrightarrow> client_frame f)" by blast
  then show ?thesis by (cases "s_frame r") (auto simp: transmit_def)
qed

lemma wf_strncpy_field:
  "n \<le> length m \<Longrightarrow> length (strncpy_field m s n) = length m"
  by (simp add: strncpy_field_def)

lemma wf_add_bootp_options: "wf_message q \<Longrightarrow> wf_message (add_bootp_options cfg q)"
  by (auto simp: wf_message_def add_bootp_options_def wf_strncpy_field split: option.split)

lemma add_bootp_options_frame [simp]:
  "m_options (add_bootp_options cfg q) = m_options q" "m_yiaddr (add_bootp_options cfg q) = m_yiaddr q"
  "m_xid (add_bootp_options cfg q) = m_xid q" "m_chaddr (add_bootp_options cfg q) = m_chaddr q"
  "m_op (add_bootp_options cfg q) = m_op q" "m_siaddr (add_bootp_options cfg q) = c_siaddr cfg"
  "m_giaddr (add_bootp_options cfg q) = m_giaddr q" "m_ciaddr (add_bootp_options cfg q) = m_ciaddr q"
  "m_flags (add_bootp_options cfg q) = m_flags q" "m_cookie (add_bootp_options cfg q) = m_cookie q"
  by (simp_all add: add_bootp_options_def)

section \<open>The state the handlers keep\<close>

definition vi_full :: "vi_info \<Rightarrow> bool" where
  "vi_full i \<longleftrightarrow> v_oui i \<noteq> VNull \<and> v_serialNumber i \<noteq> VNull \<and> v_productClass i \<noteq> VNull"

definition leases_of :: "dhcpd \<Rightarrow> dhcpOfferedAddr list" where
  "leases_of st = take (unat (c_max_leases (d_config st))) (d_leases st)"

definition server_ok :: "dhcpd \<Rightarrow> bool" where
  "server_ok st \<longleftrightarrow> wf_config (d_config st) \<and>
     unat (c_max_leases (d_config st)) \<le> length (d_leases st) \<and> lease_inv (leases_of st) \<and>
     list_all vi_full (vl_nodes (d_viList st))"

text \<open>What a handler leaves alone; the interface part of the configuration may be refreshed.\<close>

definition refreshed :: "server_config \<Rightarrow> server_config \<Rightarrow> bool" where
  "refreshed cfg cfg' \<longleftrightarrow>
     cfg' = cfg\<lparr>c_ifindex := c_ifindex cfg', c_server := c_server cfg', c_arp := c_arp cfg'\<rparr>"

definition handler_frame :: "dhcpd \<Rightarrow> dhcpd \<Rightarrow> bool" where
  "handler_frame st st' \<longleftrightarrow> refreshed (d_config st) (d_config st') \<and>
     length (d_leases st') = length (d_leases st) \<and>
     d_config2 st' = d_config2 st \<and> d_tmpSrvCfg st' = d_tmpSrvCfg st \<and> d_leases2 st' = d_leases2 st \<and>
     d_tmpls st' = d_tmpls st \<and> d_enblSrv1 st' = d_enblSrv1 st \<and> d_enblSrv2 st' = d_enblSrv2 st \<and>
     d_flag_option121 st' = d_flag_option121 st \<and> d_bIpphone st' = d_bIpphone st \<and>
     d_UseIpPhoneVlan st' = d_UseIpPhoneVlan st \<and> length (d_ipPhoneipaddr st') = length (d_ipPhoneipaddr st)"

lemma refreshed_refl [simp]: "refreshed cfg cfg"
  by (simp add: refreshed_def)

lemma refreshed_interface: "refreshed cfg (refresh_interface env cfg)"
  by (simp add: refreshed_def refresh_interface_def Let_def)

lemma refreshed_trans: "refreshed a b \<Longrightarrow> refreshed b c \<Longrightarrow> refreshed a c"
proof -
  assume 1: "refreshed a b" and 2: "refreshed b c"
  have "c = b\<lparr>c_ifindex := c_ifindex c, c_server := c_server c, c_arp := c_arp c\<rparr>"
    using 2 by (simp add: refreshed_def)
  also have "\<dots> = a\<lparr>c_ifindex := c_ifindex c, c_server := c_server c, c_arp := c_arp c\<rparr>"
    by (subst 1[unfolded refreshed_def]) simp
  finally show ?thesis by (simp add: refreshed_def)
qed

lemma refreshed_fields:
  assumes "refreshed cfg cfg'"
  shows "wf_config cfg' = wf_config cfg" "c_max_leases cfg' = c_max_leases cfg" "c_lease cfg' = c_lease cfg"
    "c_min_lease cfg' = c_min_lease cfg" "c_offer_time cfg' = c_offer_time cfg" "c_siaddr cfg' = c_siaddr cfg"
    "c_start cfg' = c_start cfg" "c_end cfg' = c_end cfg" "reservedIp cfg' = reservedIp cfg"
    "router_of cfg' = router_of cfg"
  by (subst assms[unfolded refreshed_def], simp add: wf_config_def reservedIp_def[abs_def] router_of_def cong: option.case_cong)+

lemma handler_frame_refl [simp]: "handler_frame st st"
  by (simp add: handler_frame_def)

lemma handler_frame_trans: "handler_frame a b \<Longrightarrow> handler_frame b c \<Longrightarrow> handler_frame a c"
  by (auto simp: handler_frame_def intro: refreshed_trans)

lemma emit_simps [simp]:
  "d_config (emit st es) = d_config st" "d_leases (emit st es) = d_leases st" "d_viList (emit st es) = d_viList st"
  "d_out (emit st es) = d_out st @ es" "d_ipPhoneipaddr (emit st es) = d_ipPhoneipaddr st"
  "d_bIpphone (emit st es) = d_bIpphone st" "server_ok (emit st es) = server_ok st"
  "leases_of (emit st es) = leases_of st" "handler_frame s (emit st es) = handler_frame s st"
  "d_config2 (emit st es) = d_config2 st" "d_tmpSrvCfg (emit st es) = d_tmpSrvCfg st"
  "d_leases2 (emit st es) = d_leases2 st" "d_tmpls (emit st es) = d_tmpls st"
  "d_enblSrv1 (emit st es) = d_enblSrv1 st" "d_enblSrv2 (emit st es) = d_enblSrv2 st"
  "d_flag_option121 (emit st es) = d_flag_option121 st" "d_UseIpPhoneVlan (emit st es) = d_UseIpPhoneVlan st"
  "d_EnableQosVlan (emit st es) = d_EnableQosVlan st"
  by (simp_all add: emit_def server_ok_def leases_of_def handler_frame_def)

lemma lease_table_ok: "server_ok st \<Longrightarrow> lease_table st = Some (leases_of st)"
  by (simp add: server_ok_def lease_table_def leases_of_def rdn_def slice_def)

lemma length_leases_of: "server_ok st \<Longrightarrow> length (leases_of st) = unat (c_max_leases (d_config st))"
  by (simp add: server_ok_def leases_of_def)

lemma put_table_ok:
  assumes "server_ok st" "lease_inv tbl" "length tbl = length (leases_of st)"
  shows "server_ok (put_table st tbl)" "leases_of (put_table st tbl) = tbl" "handler_frame st (put_table st tbl)"
    "d_out (put_table st tbl) = d_out st" "d_config (put_table st tbl) = d_config st"
  using assms length_leases_of[OF assms(1)]
  by (simp_all add: server_ok_def put_table_def leases_of_def handler_frame_def)

lemma set_config_ok:
  assumes "server_ok st" "refreshed (d_config st) cfg"
  shows "server_ok (st\<lparr>d_config := cfg\<rparr>)" "leases_of (st\<lparr>d_config := cfg\<rparr>) = leases_of st"
    "handler_frame st (st\<lparr>d_config := cfg\<rparr>)"
  using assms refreshed_fields[OF assms(2)] by (simp_all add: server_ok_def leases_of_def handler_frame_def)

section \<open>Choosing what to offer\<close>

lemma option_u32_total: "wf_message p \<Longrightarrow> \<exists>r. option_u32 p c = Some r"
proof -
  assume w: "wf_message p"
  then obtain r where r: "get_option p c = Some r" using get_option_some[OF w, of c] by auto
  show ?thesis
  proof (cases r)
    case (Some q)
    note b = get_option_length_byte[OF w r[unfolded Some]]
    then show ?thesis using r Some by (simp add: option_u32_def rd32_def)
  qed (simp add: option_u32_def r)
qed

lemma find_address_total:
  assumes "wf_config cfg"
  shows "\<exists>r cfg'. find_address env ls now cfg ce = Some (r, cfg') \<and> refreshed cfg cfg' \<and>
    (r = 0 \<or> c_start cfg \<le> r \<and> admissible cfg ls now ce (router_of cfg) r)"
proof -
  have "unat (c_end cfg) < 4294967295" using assms by (simp add: wf_config_def word_less_nat_alt)
  from find_address_loop_returns[OF this, of env ls now ce "router_of cfg" "c_start cfg"] show ?thesis
    unfolding find_address_def using refreshed_interface by fastforce
qed

lemma not_taken_mono: "not_taken ls now False a \<Longrightarrow> not_taken ls now True a"
  by (auto simp: not_taken_def split: option.splits)

lemma admissible_mono: "admissible cfg ls now ce r a \<Longrightarrow> admissible cfg ls now True r a"
  using not_taken_mono by (cases ce) (auto simp: admissible_def)

definition offerable :: "server_config \<Rightarrow> dhcpOfferedAddr list \<Rightarrow> u32 \<Rightarrow> u32 \<Rightarrow> bool" where
  "offerable cfg tbl now a \<longleftrightarrow> c_start cfg \<le> a \<and> admissible cfg tbl now True (router_of cfg) a"

lemma search_address_total:
  assumes "wf_config cfg"
  shows "\<exists>r cfg'. search_address env cfg tbl = Some (r, cfg') \<and> refreshed cfg cfg' \<and>
    (r = 0 \<or> offerable cfg tbl (g_now env) r)"
proof -
  from find_address_total[OF assms, of "g_net env" tbl "g_now env" False] obtain r c where
    1: "find_address (g_net env) tbl (g_now env) cfg False = Some (r, c)" "refreshed cfg c"
    "r = 0 \<or> offerable cfg tbl (g_now env) r" by (auto simp: offerable_def dest: admissible_mono)
  note f = refreshed_fields[OF 1(2)]
  have "wf_config c" using f assms by simp
  from find_address_total[OF this, of "g_net env" tbl "g_now env" True] obtain r' c' where
    2: "find_address (g_net env) tbl (g_now env) c True = Some (r', c')" "refreshed c c'"
    "r' = 0 \<or> offerable cfg tbl (g_now env) r'" by (auto simp: offerable_def admissible_def f)
  show ?thesis
    unfolding search_address_def 1(1) bind.simps prod.case
    using 1 2 refreshed_trans[OF 1(2) 2(2)] by auto
qed

lemma offer_address_total:
  assumes "wf_config cfg" "wf_message p"
  shows "\<exists>a cfg' t. offer_address env cfg tbl p = Some (a, cfg', t) \<and> refreshed cfg cfg' \<and>
    (case find_lease_by_chaddr tbl (m_chaddr p) of
       Some i \<Rightarrow> a = l_yiaddr (tbl ! i)
     | None \<Rightarrow> a = 0 \<or> offerable cfg tbl (g_now env) a)"
proof (cases "find_lease_by_chaddr tbl (m_chaddr p)")
  case (Some i)
  then show ?thesis by (simp add: offer_address_def)
next
  case None
  obtain req where req: "option_u32 p DHCP_REQUESTED_IP = Some req" using option_u32_total[OF assms(2)] by blast
  from search_address_total[OF assms(1), of env tbl] obtain r c where
    1: "search_address env cfg tbl = Some (r, c)" "refreshed cfg c" "r = 0 \<or> offerable cfg tbl (g_now env) r"
    by blast
  from find_address_total[OF assms(1), of "g_net env" tbl "g_now env" False] obtain r' c' where
    2: "find_address (g_net env) tbl (g_now env) cfg False = Some (r', c')" "refreshed cfg c'"
    "r' = 0 \<or> offerable cfg tbl (g_now env) r'" by (auto simp: offerable_def dest: admissible_mono)
  have 3: "requested_usable cfg tbl (g_now env) x \<Longrightarrow> x \<noteq> router_of cfg \<Longrightarrow> offerable cfg tbl (g_now env) x" for x
    by (auto simp: requested_usable_def offerable_def admissible_def not_taken_def split: option.splits)
  show ?thesis
    using None req 1 2 3 by (auto simp: offer_address_def split: option.splits)
qed

section \<open>The handlers\<close>

definition is_reply :: "dhcpMessage \<Rightarrow> dhcpMessage \<Rightarrow> bool" where
  "is_reply p q \<longleftrightarrow> wf_message q \<and> m_op q = BOOTREPLY \<and> m_cookie q = DHCP_MAGIC \<and> m_xid q = m_xid p \<and>
     m_chaddr q = m_chaddr p \<and> m_flags q = m_flags p \<and> m_giaddr q = m_giaddr p \<and> m_ciaddr q = m_ciaddr p"

text \<open>
  The effect is a frame whose payload is a reply to \<open>p\<close> for the address \<open>yi\<close>, its options
  starting with message type, server identifier and \<open>os\<close>.
\<close>

definition sent_reply :: "server_config \<Rightarrow> dhcpMessage \<Rightarrow> u8 \<Rightarrow> u32 \<Rightarrow> opt list \<Rightarrow> effect \<Rightarrow> bool" where
  "sent_reply cfg p type yi os e \<longleftrightarrow> (\<exists>f q rest. e = Sent f \<and> sent_payload q = Some (frame_payload f) \<and>
     (m_giaddr q = 0 \<longrightarrow> client_frame f) \<and>
     is_reply p q \<and> m_yiaddr q = yi \<and> repr (m_options q) (reply_head cfg type @ os @ rest))"

text \<open>One entry of the table is bound to a client.\<close>

definition bound :: "dhcpOfferedAddr list \<Rightarrow> u8 list \<Rightarrow> u32 \<Rightarrow> u32 \<Rightarrow> bool" where
  "bound tbl ch yi ex \<longleftrightarrow> (\<exists>i < length tbl. l_chaddr (tbl ! i) = ch \<and> l_yiaddr (tbl ! i) = yi \<and>
     l_expires (tbl ! i) = ex)"

lemma add_lease_bound: "add_lease tbl now ch yi d = (tbl', Some i) \<Longrightarrow> bound tbl' ch yi (now + d)"
  using add_lease_entry[of tbl now ch yi d tbl' i] by (auto simp: bound_def)

lemma add_lease_table:
  assumes "lease_inv tbl" "length ch = 16" "add_lease tbl now ch yi d = (tbl', r)"
  shows "lease_inv tbl'" "length tbl' = length tbl"
  using add_lease_inv[OF assms(1,2), of now yi d] add_lease_cases[OF assms(3)] assms(3)
  by (auto split: option.splits)

lemma reply_is_reply:
  assumes "wf_message p" "repr o5 os"
  shows "is_reply p (reply_base p o5\<lparr>m_yiaddr := yi\<rparr>)"
  using assms wf_zero_message by (simp add: is_reply_def reply_base_def wf_message_def repr_length)

lemma add_bootp_is_reply: "is_reply p q \<Longrightarrow> is_reply p (add_bootp_options cfg q)"
  by (simp add: is_reply_def wf_add_bootp_options)

lemma sent_replyI:
  assumes "sent_payload q = Some (frame_payload f) \<and> (m_giaddr q = 0 \<longrightarrow> client_frame f)" "is_reply p q"
    "m_yiaddr q = yi" "repr (m_options q) (reply_head cfg type @ os @ rest)"
  shows "sent_reply cfg p type yi os (Sent f)"
  using assms by (auto simp: sent_reply_def)

lemma transmit_reply:
  assumes "is_reply p q" "m_yiaddr q = yi" "repr (m_options q) (reply_head cfg type @ os @ rest)"
  shows "\<exists>r out. transmit env st q b = Some (r, emit st out) \<and>
    ((out = [] \<and> r = - 1 \<and> \<not> sock_works (g_sock env)) \<or>
     (\<exists>e. out = [e] \<and> r = e_result (g_sock env) \<and> sent_reply cfg p type yi os e))"
proof -
  have "wf_message q" using assms(1) by (simp add: is_reply_def)
  from transmit_sends[OF this assms(3)] sent_replyI[OF _ assms] show ?thesis by metis
qed

text \<open>From the fixed options to the frame: what OFFER and ACK have in common.\<close>

lemma reply_options_built:
  assumes "wf_message p" "wf_config (d_config st)" "wf_config (d_config st')"
    "length (g_serial env) \<le> 110" "repr o0 (reply_head cfg type)"
  obtains o1 o4 h o5 rest where "add_lease_times o0 t = Some o1"
    "reply_options env st p o1 yi = Some (o4, h)" "length h \<le> 15" "phone_options st' p o4 = Some o5"
    "repr o5 (reply_head cfg type @ lease_opts t @ rest)"
proof -
  from add_lease_times_reply[OF assms(5), of t] obtain o1 where
    1: "add_lease_times o0 t = Some o1" "repr o1 (reply_head cfg type @ lease_opts t)"
    by (auto simp: length_reply_head)
  from reply_options_appends[OF assms(1,2,4) 1(2), of yi] obtain o4 h xs where
    4: "reply_options env st p o1 yi = Some (o4, h)" "length h \<le> 15"
    "repr o4 ((reply_head cfg type @ lease_opts t) @ xs)" by blast
  from appendsD[OF phone_options_appends[OF assms(1,3)] 4(3)] obtain o5 ys where
    5: "phone_options st' p o4 = Some o5" "repr o5 (reply_head cfg type @ lease_opts t @ (xs @ ys))" by auto
  from that[OF 1(1) 4(1,2) 5] show thesis .
qed

lemma transmit_bootp_reply:
  assumes "wf_message p" "repr o5 (reply_head cfg type @ os @ rest)"
  shows "\<exists>r out. transmit env st (add_bootp_options cfg' (reply_base p o5\<lparr>m_yiaddr := yi\<rparr>)) b =
      Some (r, emit st out) \<and>
    ((out = [] \<and> r = - 1 \<and> \<not> sock_works (g_sock env)) \<or>
     (\<exists>e. out = [e] \<and> r = e_result (g_sock env) \<and> sent_reply cfg p type yi os e))"
  by (rule transmit_reply[OF add_bootp_is_reply[OF reply_is_reply[OF assms]]]) (use assms(2) in simp_all)

text \<open>The table and the state after the address has been entered.\<close>

lemma enter_lease:
  assumes "server_ok st" "length ch = 16" "refreshed (d_config st) cfg"
    "add_lease (leases_of st) now ch a d = (tbl, slot)"
  defines "st' \<equiv> put_table (st\<lparr>d_config := cfg\<rparr>) tbl"
  shows "server_ok st'" "leases_of st' = tbl" "handler_frame st st'" "d_out st' = d_out st"
    "d_config st' = cfg" "d_ipPhoneipaddr st' = d_ipPhoneipaddr st"
proof -
  have "lease_inv (leases_of st)" using assms(1) by (simp add: server_ok_def)
  note tb = add_lease_table[OF this assms(2,4)]
  note ok = set_config_ok[OF assms(1,3)]
  show "server_ok st'" "leases_of st' = tbl" "handler_frame st st'" "d_out st' = d_out st"
    "d_config st' = cfg" "d_ipPhoneipaddr st' = d_ipPhoneipaddr st"
    using put_table_ok[OF ok(1) tb(1)] tb(2) ok(2,3) handler_frame_trans[OF ok(3)]
    by (simp_all add: st'_def) (simp_all add: put_table_def)
qed

text \<open>
  When the server has an address to offer: a client with an entry of its own in the table gets
  the address of that entry; for any other client the pool needs a usable address and the
  table a place, with the interface as the configuration has it.
\<close>

definition pool_room :: "env \<Rightarrow> server_config \<Rightarrow> dhcpOfferedAddr list \<Rightarrow> bool" where
  "pool_room env cfg tbl \<longleftrightarrow> 0 < c_start cfg \<and> refresh_interface (g_net env) cfg = cfg \<and>
     (\<exists>b. c_start cfg \<le> b \<and> b \<le> c_end cfg \<and> candidate (g_net env) tbl (g_now env) False (router_of cfg) cfg b) \<and>
     (\<exists>l. l \<in> set tbl \<and> lease_expired l (g_now env))"

definition servable :: "env \<Rightarrow> dhcpd \<Rightarrow> u8 list \<Rightarrow> bool" where
  "servable env st ch \<longleftrightarrow> 0 < g_now env \<and> sock_works (g_sock env) \<and>
     (case find_lease_by_chaddr (leases_of st) ch of
        Some i \<Rightarrow> \<not> blank_chaddr ch \<and> l_yiaddr (leases_of st ! i) \<noteq> 0
      | None \<Rightarrow> pool_room env (d_config st) (leases_of st))"

lemma offer_address_room:
  assumes "wf_config cfg" "wf_message p" "find_lease_by_chaddr tbl (m_chaddr p) = None" "pool_room env cfg tbl"
  shows "\<exists>a t. offer_address env cfg tbl p = Some (a, cfg, t) \<and> a \<noteq> 0"
proof -
  obtain req where req: "option_u32 p DHCP_REQUESTED_IP = Some req" using option_u32_total[OF assms(2)] by blast
  obtain r where r: "find_address (g_net env) tbl (g_now env) cfg False = Some (r, cfg)" "r \<noteq> 0"
    using find_address_candidate[of "g_net env" cfg _ tbl "g_now env" False] assms(1,4)
    unfolding pool_room_def wf_config_def by blast
  then have "search_address env cfg tbl = Some (r, cfg)" by (simp add: search_address_def)
  moreover have "requested_usable cfg tbl (g_now env) a \<Longrightarrow> a \<noteq> 0" for a
    using assms(4) by (auto simp: requested_usable_def pool_room_def)
  ultimately show ?thesis using assms(3) req r by (auto simp: offer_address_def split: option.splits)
qed

lemma sendOffer_spec:
  assumes "server_ok st" "wf_message p" "length (g_serial env) \<le> 110"
  shows "\<exists>r st'. sendOffer env p st = Some (r, st') \<and> server_ok st' \<and> handler_frame st st' \<and>
    d_ipPhoneipaddr st' = d_ipPhoneipaddr st \<and> (servable env st (m_chaddr p) \<longrightarrow> d_config st' = d_config st) \<and>
    (d_out st' = d_out st \<and> r = - 1 \<and> \<not> servable env st (m_chaddr p) \<or>
     (\<exists>e a t. d_out st' = d_out st @ [e] \<and> sent_reply (d_config st) p DHCPOFFER a (lease_opts t) e \<and>
        a \<noteq> 0 \<and> bound (leases_of st') (m_chaddr p) a (g_now env + c_offer_time (d_config st)) \<and>
        (case find_lease_by_chaddr (leases_of st) (m_chaddr p) of
           Some i \<Rightarrow> a = l_yiaddr (leases_of st ! i)
         | None \<Rightarrow> offerable (d_config st) (leases_of st) (g_now env) a)))"
proof -
  have wc: "wf_config (d_config st)" using assms(1) by (simp add: server_ok_def)
  have ch: "length (m_chaddr p) = 16" using assms(2) by (simp add: wf_message_def)
  from init_packet_reply[of "d_config st" p DHCPOFFER] obtain o0 where
    0: "init_packet (d_config st) p DHCPOFFER = Some (reply_base p o0)"
    "repr o0 (reply_head (d_config st) DHCPOFFER)" by blast
  from offer_address_total[OF wc assms(2), of env "leases_of st"] obtain a cfg t where
    1: "offer_address env (d_config st) (leases_of st) p = Some (a, cfg, t)" "refreshed (d_config st) cfg"
    "case find_lease_by_chaddr (leases_of st) (m_chaddr p) of
       Some i \<Rightarrow> a = l_yiaddr (leases_of st ! i)
     | None \<Rightarrow> a = 0 \<or> offerable (d_config st) (leases_of st) (g_now env) a" by blast
  obtain tbl slot where al: "add_lease (leases_of st) (g_now env) (m_chaddr p) a (c_offer_time cfg) = (tbl, slot)"
    by fastforce
  define st2 where "st2 = put_table (st\<lparr>d_config := cfg\<rparr>) tbl"
  note ok = enter_lease[OF assms(1) ch 1(2) al, folded st2_def]
  obtain req where req: "option_u32 p DHCP_LEASE_TIME = Some req" using option_u32_total[OF assms(2)] by blast
  define tt where "tt = offer_lease_time cfg req t"
  have wc2: "wf_config (d_config st2)" using ok(1) by (simp add: server_ok_def)
  obtain o1 o4 h o5 rest where 2: "add_lease_times o0 tt = Some o1" "reply_options env st2 p o1 a = Some (o4, h)"
    "phone_options st2 p o4 = Some o5" "repr o5 (reply_head (d_config st) DHCPOFFER @ lease_opts tt @ rest)"
    using reply_options_built[OF assms(2) wc2 wc2 assms(3) 0(2)] by metis
  from transmit_bootp_reply[OF assms(2) 2(4), of env st2 cfg a False] obtain r out where
    3: "transmit env st2 (add_bootp_options cfg (reply_base p o5\<lparr>m_yiaddr := a\<rparr>)) False = Some (r, emit st2 out)"
    "(out = [] \<and> r = - 1 \<and> \<not> sock_works (g_sock env)) \<or>
      (\<exists>e. out = [e] \<and> sent_reply (d_config st) p DHCPOFFER a (lease_opts tt) e)"
    by blast
  have q: "reply_base p o0\<lparr>m_yiaddr := a, m_options := o5\<rparr> = reply_base p o5\<lparr>m_yiaddr := a\<rparr>"
    by (simp add: reply_base_def)
  have so: "sendOffer env p st = (if a = 0 then Some (- 1, st\<lparr>d_config := cfg\<rparr>)
      else if slot = None then Some (- 1, st2) else Some (r, emit st2 out))"
    unfolding sendOffer_def 0(1) bind.simps lease_table_ok[OF assms(1)] 1(1) Let_def prod.case
    using al req 2 3(1) by (simp add: st2_def[symmetric] tt_def[symmetric] q)
  have "slot \<noteq> None \<Longrightarrow> bound tbl (m_chaddr p) a (g_now env + c_offer_time (d_config st))"
    using add_lease_bound al refreshed_fields(5)[OF 1(2)] by auto
  moreover have "a \<noteq> 0 \<and> slot \<noteq> None \<and> cfg = d_config st" if k: "servable env st (m_chaddr p)"
  proof (cases "find_lease_by_chaddr (leases_of st) (m_chaddr p)")
    case None
    with k have "pool_room env (d_config st) (leases_of st)" by (simp add: servable_def)
    with offer_address_room[OF wc assms(2) None this] add_lease_room[OF al] k 1(1) show ?thesis
      by (auto simp: servable_def pool_room_def)
  next
    case (Some i)
    then have "i < length (leases_of st)" "l_chaddr (leases_of st ! i) = m_chaddr p"
      using find_index_Some[of _ 0 "leases_of st" i] by (auto simp: find_lease_by_chaddr_def)
    from add_lease_known[OF al this] Some k 1(1) show ?thesis by (auto simp: servable_def offer_address_def)
  qed
  moreover have "servable env st (m_chaddr p) \<Longrightarrow> sock_works (g_sock env)" by (simp add: servable_def)
  moreover have "d_config (emit st2 out) = cfg" by (simp add: st2_def put_table_def emit_def)
  ultimately show ?thesis
    using 3(2) ok 1(3) set_config_ok[OF assms(1) 1(2)] unfolding so by (auto split: option.splits)
qed

lemma sendNAK_spec:
  assumes "wf_message p"
  shows "\<exists>r out. sendNAK env p st = Some (r, emit st out) \<and>
    ((out = [] \<and> r = - 1 \<and> \<not> sock_works (g_sock env)) \<or>
     (\<exists>e. out = [e] \<and> r = e_result (g_sock env) \<and> sent_reply (d_config st) p DHCPNAK 0 [] e))"
proof -
  from init_packet_reply[of "d_config st" p DHCPNAK] obtain o0 where
    0: "init_packet (d_config st) p DHCPNAK = Some (reply_base p o0)"
    "repr o0 (reply_head (d_config st) DHCPNAK)" by blast
  have "wf_string ([0x38, 4] @ bytes_of ''000'' @ [0])" by (simp add: wf_string_def)
  from appendsD[OF appends_string[OF this] 0(2)] obtain o1 xs where
    1: "add_option_string o0 ([0x38, 4] @ bytes_of ''000'' @ [0]) \<bind> (\<lambda>(o', n). Some o') = Some o1"
    "repr o1 (reply_head (d_config st) DHCPNAK @ [] @ xs)" by auto
  then obtain n where n: "add_option_string o0 ([0x38, 4] @ bytes_of ''000'' @ [0]) = Some (o1, n)"
    by (auto simp: bind_eq_Some_conv)
  have z: "reply_base p o1\<lparr>m_yiaddr := 0\<rparr> = reply_base p o1" by (simp add: reply_base_def zero_message_def)
  have "is_reply p (reply_base p o1)" using reply_is_reply[OF assms 1(2), of 0] by (simp add: z)
  from transmit_reply[OF this, of 0 "d_config st" DHCPNAK "[]" xs env st True] 1(2) show ?thesis
    unfolding sendNAK_def 0(1) bind.simps reply_base_simps n prod.case by simp
qed

lemma send_inform_spec:
  assumes "server_ok st" "wf_message p"
  shows "\<exists>r out. send_inform env p st = Some (r, emit st out) \<and>
    ((out = [] \<and> r = - 1 \<and> \<not> sock_works (g_sock env)) \<or>
     (\<exists>e. out = [e] \<and> r = e_result (g_sock env) \<and>
        sent_reply (d_config st) p DHCPACK 0 (lease_opts (c_lease (d_config st))) e))"
proof -
  let ?t = "c_lease (d_config st)"
  have wc: "wf_config (d_config st)" using assms(1) by (simp add: server_ok_def)
  from init_packet_reply[of "d_config st" p DHCPACK] obtain o0 where
    0: "init_packet (d_config st) p DHCPACK = Some (reply_base p o0)"
    "repr o0 (reply_head (d_config st) DHCPACK)" by blast
  from add_lease_times_reply[OF 0(2), of ?t] obtain o1 where
    1: "add_lease_times o0 ?t = Some o1" "repr o1 (reply_head (d_config st) DHCPACK @ lease_opts ?t)"
    by (auto simp: length_reply_head)
  from appendsD[OF add_config_options_appends[OF wc, of "d_flag_option121 st" False] 1(2)] obtain o2 xs where
    2: "add_config_options (d_flag_option121 st) False (d_config st) o1 = Some o2"
    "repr o2 (reply_head (d_config st) DHCPACK @ lease_opts ?t @ xs)" by auto
  have z: "reply_base p o2\<lparr>m_yiaddr := 0\<rparr> = reply_base p o2" by (simp add: reply_base_def zero_message_def)
  from transmit_bootp_reply[OF assms(2) 2(2), of env st "d_config st" 0 False] show ?thesis
    unfolding send_inform_def 0(1) bind.simps reply_base_simps 1(1) 2(1) z .
qed

section \<open>The side effects of an ACK\<close>

lemma find_index_le: "find_index P i xs = Some k \<Longrightarrow> k < i + length xs"
  by (induction P i xs rule: find_index.induct) (auto split: if_splits)

lemma free_str_null [simp]: "free_str s = VNull \<longleftrightarrow> s = VNull"
  by (cases s) auto

lemma addViToList_full:
  "vi_full i \<Longrightarrow> list_all vi_full (vl_nodes vl) \<Longrightarrow> list_all vi_full (vl_nodes (addViToList i vl))"
  by (auto simp: addViToList_def vi_full_def list_all_iff dest: in_set_takeD split: option.split)

lemma blank_str_full: "s \<noteq> VNull \<Longrightarrow> \<exists>t. blank_str s = Some t \<and> t \<noteq> VNull"
  by (cases s) auto

lemma vi_refresh_full: "vi_full n \<Longrightarrow> \<exists>n'. vi_refresh tbl now n = Some n' \<and> vi_full n'"
  using blank_str_full[of "v_oui n"] blank_str_full[of "v_serialNumber n"] blank_str_full[of "v_productClass n"]
  by (auto simp: vi_refresh_def vi_full_def split: option.split)

lemma map_opt_full:
  "list_all vi_full ns \<Longrightarrow> \<exists>ns'. map_opt (vi_refresh tbl now) ns = Some ns' \<and> list_all vi_full ns'"
proof (induction ns)
  case (Cons n ns)
  then show ?case using vi_refresh_full[of n tbl now] by auto
qed simp

lemma write_viTable_full:
  "list_all vi_full (vl_nodes vl) \<Longrightarrow>
   \<exists>vl' tb. write_viTable fopen_ok tbl now vl = Some (vl', tb) \<and> list_all vi_full (vl_nodes vl')"
  using map_opt_full[of "vl_nodes vl" tbl now] by (auto simp: write_viTable_def)

text \<open>
  A vendor identity the server can store: it parses without a fault, and when it is
  accepted it names all three attributes.
\<close>

definition identity_ok :: "env \<Rightarrow> dhcpMessage \<Rightarrow> bool" where
  "identity_ok env p \<longleftrightarrow> (\<forall>q yi. get_option p DHCP_VENDOR_IDENTIFYING = Some (Some q) \<longrightarrow>
     (case parseVI (w_malloc0 (g_vi env)) (message_image p) q yi of
        None \<Rightarrow> False | Some None \<Rightarrow> True | Some (Some i) \<Rightarrow> vi_full i))"

lemma save_identity_spec:
  assumes "server_ok st" "wf_message p" "identity_ok env p"
  shows "\<exists>vl es. save_identity env st p yi = Some (emit (st\<lparr>d_viList := vl\<rparr>) es) \<and>
    list_all vi_full (vl_nodes vl) \<and> (\<forall>e \<in> set es. \<forall>f. e \<noteq> Sent f)"
proof -
  obtain vi where vi: "get_option p DHCP_VENDOR_IDENTIFYING = Some vi"
    using get_option_some[OF assms(2), of DHCP_VENDOR_IDENTIFYING] by auto
  have f: "list_all vi_full (vl_nodes (d_viList st))" using assms(1) by (simp add: server_ok_def)
  have e0: "st = emit (st\<lparr>d_viList := d_viList st\<rparr>) []" by (simp add: emit_def)
  show ?thesis
  proof (cases vi)
    case None
    then have "save_identity env st p yi = Some (emit (st\<lparr>d_viList := d_viList st\<rparr>) [])"
      using vi e0 by (simp add: save_identity_def)
    with f show ?thesis by (intro exI[of _ "d_viList st"] exI[of _ "[]"]) simp
  next
    case (Some q)
    obtain r where r: "parseVI (w_malloc0 (g_vi env)) (message_image p) q yi = Some r"
      "\<And>i. r = Some i \<Longrightarrow> vi_full i"
      using assms(3) vi Some by (fastforce simp: identity_ok_def split: option.splits)
    show ?thesis
    proof (cases r)
      case None
      then have "save_identity env st p yi = Some (emit (st\<lparr>d_viList := d_viList st\<rparr>) [])"
        using vi Some r by (simp add: save_identity_def lease_table_ok[OF assms(1)] saveVIoption_def emit_def)
      with f show ?thesis by (intro exI[of _ "d_viList st"] exI[of _ "[]"]) simp
    next
      case (Some i)
      from write_viTable_full[OF addViToList_full[OF r(2)[OF Some] f]] obtain vl tb where
        "write_viTable (w_fopen (g_vi env)) (leases_of st) (g_now env) (addViToList i (d_viList st)) = Some (vl, tb)"
        "list_all vi_full (vl_nodes vl)" by blast
      then show ?thesis
        using vi \<open>vi = Some q\<close> r(1) Some
        by (intro exI[of _ vl] exI[of _ "(case tb of None \<Rightarrow> [] | Some (n, ns) \<Rightarrow> [ViTable n ns]) @
             (case snd (TR069_SendMessage (w_tr069 (g_vi env)) CWMP_MSG_ASSOC_DEVICE [] 0) of
                None \<Rightarrow> [] | Some (t, m) \<Rightarrow> [Tr069 t m])"])
          (auto simp: save_identity_def lease_table_ok[OF assms(1)] saveVIoption_def split: option.split)
    qed
  qed
qed

lemma findSipaddr_total: "0 \<in> set as \<Longrightarrow> \<exists>b. findSipaddr as yi = Some b"
  by (induction as) auto

lemma addSipAddr_total: "0 \<in> set as \<Longrightarrow> \<exists>as'. addSipAddr as yi = Some as' \<and> length as' = length as"
  by (induction as) auto

lemma length_dec_mark: "length (dec 0x11000013) = 9"
  by (simp add: dec.simps)

lemma BcmMERDataRouteRuleGW_total:
  "length host \<le> 15 \<Longrightarrow>
   \<exists>es. BcmMERDataRouteRuleGW sn host = Some es \<and> (\<forall>e \<in> set es. \<forall>f. e \<noteq> Sent f)"
  by (simp add: BcmMERDataRouteRuleGW_def sprintf_cmd_def length_dec_mark[simplified])

text \<open>A handler that only adds effects other than frames.\<close>

definition quiet :: "dhcpd \<Rightarrow> dhcpd \<Rightarrow> bool" where
  "quiet st st' \<longleftrightarrow> (\<exists>es. d_out st' = d_out st @ es \<and> (\<forall>e \<in> set es. \<forall>f. e \<noteq> Sent f))"

lemma quiet_refl [simp]: "quiet st st"
  by (simp add: quiet_def)

lemma quiet_trans: "quiet a b \<Longrightarrow> quiet b c \<Longrightarrow> quiet a c"
  by (fastforce simp: quiet_def)

lemma quietI: "d_out st' = d_out st @ es \<Longrightarrow> \<forall>e \<in> set es. \<forall>f. e \<noteq> Sent f \<Longrightarrow> quiet st st'"
  by (auto simp: quiet_def)

definition keeps_leases :: "dhcpd \<Rightarrow> dhcpd \<Rightarrow> bool" where
  "keeps_leases st st' \<longleftrightarrow> server_ok st' \<and> handler_frame st st' \<and> quiet st st' \<and>
     d_config st' = d_config st \<and> leases_of st' = leases_of st"

lemma keeps_leases_trans: "keeps_leases a b \<Longrightarrow> keeps_leases b c \<Longrightarrow> keeps_leases a c"
  by (auto simp: keeps_leases_def intro: handler_frame_trans quiet_trans)

lemma save_identity_keeps:
  assumes "server_ok st" "wf_message p" "identity_ok env p"
  shows "\<exists>st'. save_identity env st p yi = Some st' \<and> keeps_leases st st' \<and>
    d_ipPhoneipaddr st' = d_ipPhoneipaddr st"
proof -
  from save_identity_spec[OF assms, of yi] obtain vl es where
    1: "save_identity env st p yi = Some (emit (st\<lparr>d_viList := vl\<rparr>) es)" "list_all vi_full (vl_nodes vl)"
    "\<forall>e \<in> set es. \<forall>f. e \<noteq> Sent f" by blast
  have "quiet st (emit (st\<lparr>d_viList := vl\<rparr>) es)" by (rule quietI[OF _ 1(3)]) simp
  with 1 assms(1) show ?thesis
    by (simp add: keeps_leases_def server_ok_def leases_of_def handler_frame_def)
qed

lemma bcmEnableQosVlan_keeps:
  "server_ok st \<Longrightarrow> keeps_leases st (bcmEnableQosVlan st) \<and>
   d_ipPhoneipaddr (bcmEnableQosVlan st) = d_ipPhoneipaddr st"
  by (simp add: keeps_leases_def bcmEnableQosVlan_def server_ok_def leases_of_def handler_frame_def quiet_def)

lemma keeps_set_phones:
  assumes "server_ok st" "length as = length (d_ipPhoneipaddr st)" "\<forall>e \<in> set es. \<forall>f. e \<noteq> Sent f"
  shows "keeps_leases st (emit (st\<lparr>d_ipPhoneipaddr := as\<rparr>) es)"
proof -
  have "quiet st (emit (st\<lparr>d_ipPhoneipaddr := as\<rparr>) es)" by (rule quietI[OF _ assms(3)]) simp
  with assms(1,2) show ?thesis
    by (simp add: keeps_leases_def server_ok_def leases_of_def handler_frame_def)
qed

lemma phone_routing_keeps:
  assumes "server_ok st" "0 \<in> set (d_ipPhoneipaddr st)" "length host \<le> 15"
  shows "\<exists>st'. phone_routing env st yi host = Some st' \<and> keeps_leases st st'"
proof -
  define st1 where "st1 = (if c_iIPPhoneVLANQoSEnable (d_config st) = 1 then bcmEnableQosVlan st else st)"
  have 1: "keeps_leases st st1" "d_ipPhoneipaddr st1 = d_ipPhoneipaddr st"
    using bcmEnableQosVlan_keeps[OF assms(1)] assms(1) by (auto simp: st1_def keeps_leases_def)
  obtain known where k: "findSipaddr (d_ipPhoneipaddr st1) yi = Some known"
    using findSipaddr_total[OF assms(2)] 1(2) by auto
  obtain es where es: "BcmMERDataRouteRuleGW (g_staticnat env) host = Some es"
    "\<forall>e \<in> set es. \<forall>f. e \<noteq> Sent f" using BcmMERDataRouteRuleGW_total[OF assms(3)] by blast
  obtain as where as: "addSipAddr (d_ipPhoneipaddr st1) yi = Some as" "length as = length (d_ipPhoneipaddr st1)"
    using addSipAddr_total[OF assms(2), of yi] 1(2) by auto
  have "server_ok st1" using 1(1) by (simp add: keeps_leases_def)
  from keeps_set_phones[OF this as(2) es(2)]
  have "keeps_leases st1 (emit (st1\<lparr>d_ipPhoneipaddr := as\<rparr>) es)" .
  from keeps_leases_trans[OF 1(1) this] 1(1) k es(1) as(1) show ?thesis
    by (cases known) (auto simp: phone_routing_def Let_def st1_def[symmetric])
qed

definition phones_ok :: "dhcpd \<Rightarrow> bool" where
  "phones_ok st \<longleftrightarrow> (d_bIpphone st \<longrightarrow> 0 \<in> set (d_ipPhoneipaddr st))"

lemma ack_side_effects:
  assumes "server_ok st" "wf_message p" "identity_ok env p" "phones_ok st"
  shows "\<exists>st1. save_identity env st p yi = Some st1 \<and> (\<forall>h. length h \<le> 15 \<longrightarrow>
    (\<exists>st2. (if d_bIpphone st then phone_routing env st1 yi h else Some st1) = Some st2 \<and> keeps_leases st st2))"
proof -
  obtain st1 where 1: "save_identity env st p yi = Some st1" "keeps_leases st st1"
    "d_ipPhoneipaddr st1 = d_ipPhoneipaddr st" using save_identity_keeps[OF assms(1-3)] by blast
  have ok1: "server_ok st1" using 1(2) by (simp add: keeps_leases_def)
  have "\<exists>st2. (if d_bIpphone st then phone_routing env st1 yi h else Some st1) = Some st2 \<and> keeps_leases st st2"
    if "length h \<le> 15" for h
    using phone_routing_keeps[OF ok1 _ that, of env yi] 1 assms(4) keeps_leases_trans[OF 1(2)]
    by (auto simp: phones_ok_def)
  with 1(1) show ?thesis by blast
qed

lemma sendACK_spec:
  assumes "server_ok st" "wf_message p" "length (g_serial env) \<le> 110" "identity_ok env p" "phones_ok st"
  shows "\<exists>r st' st2 t. sendACK env p yi st = Some (r, st') \<and> server_ok st' \<and> handler_frame st st' \<and>
    quiet st st2 \<and> d_config st' = d_config st \<and>
    option_u32 p DHCP_LEASE_TIME \<noteq> None \<and> t = ack_lease_time (d_config st) (the (option_u32 p DHCP_LEASE_TIME)) \<and>
    (d_out st' = d_out st2 \<and> r = - 1 \<and> \<not> sock_works (g_sock env) \<and> leases_of st' = leases_of st \<or>
     (\<exists>e. d_out st' = d_out st2 @ [e] \<and> sent_reply (d_config st) p DHCPACK yi (lease_opts t) e \<and>
        leases_of st' = (if e_result (g_sock env) < 0 then leases_of st
          else fst (add_lease (leases_of st) (g_now env) (m_chaddr p) yi t))))"
proof -
  have wc: "wf_config (d_config st)" using assms(1) by (simp add: server_ok_def)
  have ch: "length (m_chaddr p) = 16" using assms(2) by (simp add: wf_message_def)
  from init_packet_reply[of "d_config st" p DHCPACK] obtain o0 where
    0: "init_packet (d_config st) p DHCPACK = Some (reply_base p o0)"
    "repr o0 (reply_head (d_config st) DHCPACK)" by blast
  obtain req where req: "option_u32 p DHCP_LEASE_TIME = Some req" using option_u32_total[OF assms(2)] by blast
  define t where "t = ack_lease_time (d_config st) req"
  obtain o1 o4 h where 2: "add_lease_times o0 t = Some o1" "reply_options env st p o1 yi = Some (o4, h)"
    "length h \<le> 15"
    using reply_options_built[OF assms(2) wc wc assms(3) 0(2)] by metis
  obtain st1 st2 where 1: "save_identity env st p yi = Some st1"
    and 3: "(if d_bIpphone st then phone_routing env st1 yi h else Some st1) = Some st2" "keeps_leases st st2"
    using ack_side_effects[OF assms(1,2,4,5)] 2(3) by blast
  have k: "server_ok st2" "handler_frame st st2" "quiet st st2" "d_config st2 = d_config st"
    "leases_of st2 = leases_of st" using 3(2) by (simp_all add: keeps_leases_def)
  have wc2: "wf_config (d_config st2)" using wc k(4) by simp
  obtain o5 rest where 4: "phone_options st2 p o4 = Some o5"
    "repr o5 (reply_head (d_config st) DHCPACK @ lease_opts t @ rest)"
    using reply_options_built[OF assms(2) wc wc2 assms(3) 0(2)] 2 by (metis option.inject prod.inject)
  from transmit_bootp_reply[OF assms(2) 4(2), of env st2 "d_config st" yi False] obtain r out where
    5: "transmit env st2 (add_bootp_options (d_config st) (reply_base p o5\<lparr>m_yiaddr := yi\<rparr>)) False = Some (r, emit st2 out)"
    "(out = [] \<and> r = - 1 \<and> \<not> sock_works (g_sock env)) \<or> (\<exists>e. out = [e] \<and> r = e_result (g_sock env) \<and>
      sent_reply (d_config st) p DHCPACK yi (lease_opts t) e)" by blast
  have q: "reply_base p o0\<lparr>m_yiaddr := yi, m_options := o5\<rparr> = reply_base p o5\<lparr>m_yiaddr := yi\<rparr>"
    by (simp add: reply_base_def)
  define st3 where "st3 = emit st2 out"
  obtain tbl slot where al: "add_lease (leases_of st3) (g_now env) (m_chaddr p) yi t = (tbl, slot)" by fastforce
  have ok3: "server_ok st3" using k by (simp add: st3_def)
  note put = enter_lease[OF ok3 ch refreshed_refl al]
  have c3: "st3\<lparr>d_config := d_config st3\<rparr> = st3" by simp
  have s: "sendACK env p yi st = Some (if r < 0 then (- 1, st3) else (0, put_table st3 tbl))"
    unfolding sendACK_def 0(1) bind.simps req Let_def reply_base_simps t_def[symmetric] 2(1,2) prod.case 1 3(1) 4(1)
      q 5(1) st3_def[symmetric] lease_table_ok[OF ok3]
    using al by simp
  have fr: "handler_frame st st3" using k by (simp add: st3_def)
  show ?thesis
    using s put[unfolded c3] 5(2) k req ok3 fr al handler_frame_trans[OF fr]
    by (intro exI[of _ "if r < 0 then - 1 else 0"] exI[of _ "if r < 0 then st3 else put_table st3 tbl"]
        exI[of _ st2] exI[of _ t]) (auto simp: st3_def t_def put_table_def)
qed

section \<open>Properties\<close>

text \<open>What a client that runs the receive routine of this code obtains from an effect.\<close>

definition delivers :: "effect \<Rightarrow> dhcpMessage \<Rightarrow> bool" where
  "delivers e q \<longleftrightarrow> (\<exists>f n. e = Sent f \<and> get_packet (Some (frame_payload f)) = Some (q, n) \<and> 0 \<le> n)"

lemma sent_reply_delivers:
  assumes "sent_reply cfg p type yi os e"
  shows "\<exists>q rest. delivers e q \<and> is_reply p q \<and> m_yiaddr q = yi \<and>
    repr (m_options q) (reply_head cfg type @ os @ rest)"
proof -
  from assms obtain f q rest where s: "e = Sent f" "sent_payload q = Some (frame_payload f)" "is_reply p q"
    "m_yiaddr q = yi" "repr (m_options q) (reply_head cfg type @ os @ rest)"
    by (auto simp: sent_reply_def)
  have w: "wf_message q" "m_cookie q = DHCP_MAGIC" "m_op q = BOOTREPLY" using s(3) by (simp_all add: is_reply_def)
  from received_sent_payload[OF w(1) s(5)] s(2) obtain q' where
    r: "length (frame_payload f) \<le> 1264" "image_message (received (frame_payload f)) = q'"
    "q' = q\<lparr>m_options := m_options q'\<rparr>" "repr (m_options q') (reply_head cfg type @ os @ rest)" by auto
  have same: "m_cookie q' = m_cookie q" "m_op q' = m_op q" "m_yiaddr q' = m_yiaddr q" by (subst r(3), simp)+
  have "is_reply p q'" using s(3) repr_length[OF r(4)] by (subst r(3)) (auto simp: is_reply_def wf_message_def)
  moreover have "delivers e q'"
    using r(1,2) w same s(1) by (auto simp: delivers_def get_packet_cases split: option.split)
  ultimately show ?thesis using r(4) same s(4) by blast
qed

text \<open>
  C7: handling DISCOVER never faults and always ends, for any message and any answers of the
  network.  Either nothing is sent, or exactly one frame goes out and a client decodes from
  it an OFFER for its own transaction: message type, server identifier, lease time, T1 and
  T2 come first.  The address is the one the client already had in the table, or one of the
  pool that is not reserved, not the router and not in a lease still running; it is held for
  the client for \<^verbatim>\<open>offer_time\<close>, and the table stays free of duplicates.  Nothing is sent
  only when a socket call fails, or when the server has no address for the client: it has no
  entry of its own and the pool has no free address or the table no place (\<open>servable\<close>).
\<close>

theorem sendOffer_correct:
  assumes "server_ok st" "wf_message p" "length (g_serial env) \<le> 110"
  shows "\<exists>r st'. sendOffer env p st = Some (r, st') \<and> server_ok st' \<and> handler_frame st st' \<and>
    (d_out st' = d_out st \<and> r = - 1 \<and> \<not> servable env st (m_chaddr p) \<or>
     (\<exists>e q a t rest. d_out st' = d_out st @ [e] \<and> delivers e q \<and> is_reply p q \<and> m_yiaddr q = a \<and>
        repr (m_options q) (reply_head (d_config st) DHCPOFFER @ lease_opts t @ rest) \<and>
        a \<noteq> 0 \<and> bound (leases_of st') (m_chaddr p) a (g_now env + c_offer_time (d_config st)) \<and>
        (case find_lease_by_chaddr (leases_of st) (m_chaddr p) of
           Some i \<Rightarrow> a = l_yiaddr (leases_of st ! i)
         | None \<Rightarrow> offerable (d_config st) (leases_of st) (g_now env) a)))"
  using sendOffer_spec[OF assms] sent_reply_delivers by metis

definition sample_state :: dhcpd where
  "sample_state = \<lparr>d_config = sample_config, d_config2 = sample_config, d_tmpSrvCfg = zero_config, d_leases = sample_leases, d_leases2 = sample_leases,
     d_tmpls = sample_leases, d_enblSrv1 = 1, d_enblSrv2 = 0, d_viList = empty_vi_list,
     d_flag_option121 = False, d_bIpphone = False, d_UseIpPhoneVlan = False,
     d_ipPhoneipaddr = replicate 255 0, d_EnableQosVlan = False, d_out = []\<rparr>"

definition sample_world :: env where
  "sample_world = \<lparr>g_now = 1000, g_net = sample_env,
     g_sock = \<lparr>e_socket = True, e_bindtodevice = True, e_reuseaddr = True, e_bind = True, e_connect = True,
       e_result = 300\<rparr>,
     g_serial = [49, 50], g_mac = [0, 0x25, 0x9E, 1, 2, 3],
     g_vi = \<lparr>w_malloc0 = False, w_fopen = True,
       w_tr069 = \<lparr>t_pidfile = True, t_pid = True, t_msgget = True, t_msgsnd = True\<rparr>\<rparr>,
     g_staticnat = None, g_fopen = (\<lambda>f. True)\<rparr>"

lemma sample_state_ok [simp]: "server_ok sample_state"
  using sample_leases_inv
  by (simp add: server_ok_def leases_of_def sample_state_def sample_config_def zero_config_def wf_config_def
      wf_optset_def sample_leases_def empty_vi_list_def)

lemma sample_world_serial: "length (g_serial sample_world) \<le> 110"
  by (simp add: sample_world_def)

theorem sendOffer_correct_witness:
  "\<exists>r st'. sendOffer sample_world sample_message sample_state = Some (r, st') \<and> server_ok st' \<and>
     handler_frame sample_state st'"
  using sendOffer_correct[OF sample_state_ok wf_sample_message sample_world_serial] by blast


lemma sample_no_option:
  "c \<notin> {DHCP_PADDING, DHCP_END, 53, 50} \<Longrightarrow> get_option sample_message c = Some None"
  using get_option_repr[OF wf_sample_message repr_sample, of c] by (simp add: fits_def)

lemma sample_message_options [simp]:
  "identity_ok env sample_message" "option_u32 sample_message DHCP_LEASE_TIME = Some None" "phones_ok sample_state"
  by (simp_all add: identity_ok_def option_u32_def sample_no_option phones_ok_def sample_state_def)


text \<open>
  The times of a lease are consistent: below about 19 years the renewal time T1, the
  rebinding time T2 and the lease time that go into a reply satisfy T1 \<le> T2 \<le> lease,
  and all three can be read back from the reply.
\<close>

theorem lease_times_ordered:
  assumes "repr opts os" "length (enc os) + 20 \<le> 1024" "t < 613566757"
  shows "\<exists>o' t1 t2. add_lease_times opts t = Some o' \<and> t1 \<le> t2 \<and> t2 \<le> t \<and>
    repr o' (os @ [Opt DHCP_LEASE_TIME (be32_bytes t), Opt DHCP_T1 (be32_bytes t1), Opt DHCP_T2 (be32_bytes t2)])"
proof -
  have lt: "unat t < 613566757" using assms(3) by (simp add: word_less_nat_alt)
  then have m: "unat (t * 7) = 7 * unat t" by (simp add: unat_word_ariths)
  have t1: "unat (t div 2) = unat t div 2" by (simp add: unat_div)
  have t2: "unat (drop_bit 3 (t * 7)) = 7 * unat t div 8" using m by (simp add: drop_bit_eq_div unat_div)
  have "t div 2 \<le> drop_bit 3 (t * 7)" "drop_bit 3 (t * 7) \<le> t"
    unfolding word_le_nat_alt t1 t2 by arith+
  with add_lease_times_reply[OF assms(1,2), of t] show ?thesis unfolding lease_opts_def by blast
qed

theorem lease_times_ordered_witness:
  "\<exists>o' t1 t2. add_lease_times (DHCP_END # replicate 1023 0) 864000 = Some o' \<and> t1 \<le> t2 \<and> t2 \<le> 864000 \<and>
    repr o' [Opt DHCP_LEASE_TIME (be32_bytes 864000), Opt DHCP_T1 (be32_bytes t1), Opt DHCP_T2 (be32_bytes t2)]"
  using lease_times_ordered[OF repr_empty, of 864000] by simp

text \<open>
  The product 7 * lease wraps at 32 bits: a reply for an infinite lease (0xFFFFFFFF)
  carries a rebinding time T2 smaller than its renewal time T1.
\<close>

theorem lease_times_infinite_wrap:
  "\<exists>o'. add_lease_times (DHCP_END # replicate 1023 0) 0xFFFFFFFF = Some o' \<and>
    repr o' [Opt DHCP_LEASE_TIME (be32_bytes 0xFFFFFFFF), Opt DHCP_T1 (be32_bytes 0x7FFFFFFF),
      Opt DHCP_T2 (be32_bytes 0x1FFFFFFF)]"
  using add_lease_times_reply[OF repr_empty, of "0xFFFFFFFF"] by (simp add: lease_opts_def)

end
