(* ===== verification/Dhcp_ClientPacket.thy ===== *)
theory Dhcp_ClientPacket
  imports Dhcp_Server
begin

text \<open>
  \<^verbatim>\<open>udhcp/clientpacket.c\<close>: the messages the DHCP client of the WAN side sends, and the
  reception of a message on its packet socket.  The client is the same program as the
  server and shares \<^verbatim>\<open>options.c\<close> and \<^verbatim>\<open>packet.c\<close> with it.  What the board driver, the
  allocator and the sockets answer while a message is built is the parameter \<open>cworld\<close>.
\<close>

section \<open>Configuration and environment\<close>

abbreviation (input) "DHCP_TIME_OFFSET \<equiv> (0x02 :: u8)"
abbreviation (input) "DHCP_TIME_SERVER \<equiv> (0x04 :: u8)"
abbreviation (input) "DHCP_ROOT_PATH \<equiv> (0x11 :: u8)"
abbreviation (input) "DHCP_BROADCAST \<equiv> (0x1c :: u8)"

record client_config =
  q_foreground :: bool
  q_quit_after_lease :: bool
  q_abort_if_no_lease :: bool
  q_interface :: string
  q_Interface :: string
  q_pidfile :: "string option"
  q_script :: "string option"
  q_clientid :: "u8 list option"
  q_hostname :: "u8 list option"
  q_ifindex :: int
  q_arp :: "u8 list"

text \<open>
  \<open>w_serial k\<close> is the string the \<open>k\<close>-th request to the board driver leaves in
  \<^verbatim>\<open>serial\<close>; \<open>w_vi_serial\<close> and \<open>w_mac\<close> are what \<^verbatim>\<open>createVIoption\<close> reads.
  \<open>w_malloc\<close>: the allocation of the client identifier succeeds.
\<close>

record cworld =
  w_serial :: "nat \<Rightarrow> u8 list"
  w_vi_serial :: "u8 list"
  w_mac :: "u8 list"
  w_malloc :: bool
  w_sock :: sock_env

section \<open>Building a message\<close>

text \<open>The driver is asked for the serial number until it has one, four times at most.\<close>

function serial_loop :: "(nat \<Rightarrow> u8 list) \<Rightarrow> u8 list \<Rightarrow> nat \<Rightarrow> u8 list" where
  "serial_loop reads serial i =
     (if serial \<noteq> [] then serial
      else if i > 2 then reads i else serial_loop reads (reads i) (i + 1))"
  by pat_completeness auto
termination
  by (relation "measure (\<lambda>(reads, serial, i). 3 - i)") auto

declare serial_loop.simps [simp del]

definition client_id :: "cworld \<Rightarrow> u8 list option" where
  "client_id w = (let serial = serial_loop (w_serial w) [] 0 in
     if w_malloc w then Some ([DHCP_CLIENT_ID, of_nat (length serial + 1), 0] @ serial) else None)"

text \<open>
  The vendor class: 64 bytes on the stack behind a code and a length byte.  A configured
  class identifier is printed over the built-in one.
\<close>

definition vendor_id :: "u8 list \<Rightarrow> u8 list option" where
  "vendor_id vendor_class_id =
     (let str = bytes_of ''dslforum.org'' @ replicate 52 0 in
      if vendor_class_id \<noteq> [] then do {
        str' \<leftarrow> memcpy str 0 (vendor_class_id @ [0]);
        Some ([DHCP_VENDOR, of_nat (length vendor_class_id)] @ str') }
      else Some ([DHCP_VENDOR, 12] @ str))"

definition client_init_packet ::
  "cworld \<Rightarrow> u8 list \<Rightarrow> client_config \<Rightarrow> u8 \<Rightarrow> (dhcpMessage \<times> client_config) option" where
  "client_init_packet w vendor_class_id cfg type = do {
     arp \<leftarrow> rdn (q_arp cfg) 0 6;
     let packet = zero_message\<lparr>m_op := BOOTREQUEST, m_htype := ETH_10MB, m_hlen := ETH_10MB_LEN,
           m_cookie := DHCP_MAGIC, m_chaddr := blit (replicate 16 0) 0 arp\<rparr>;
     (o1, n1) \<leftarrow> add_simple_option (DHCP_END # replicate 1023 0) DHCP_MESSAGE_TYPE (ucast type);
     o2 \<leftarrow> (case client_id w of None \<Rightarrow> Some o1 | Some s \<Rightarrow> add_opt o1 (Some s));
     o3 \<leftarrow> (case q_hostname cfg of None \<Rightarrow> Some o2 | Some s \<Rightarrow> add_opt o2 (Some s));
     o4 \<leftarrow> add_opt o3 (vendor_id vendor_class_id);
     Some (packet\<lparr>m_options := o4\<rparr>, cfg\<lparr>q_clientid := client_id w\<rparr>) }"

definition request_list :: "u8 list" where
  "request_list = [DHCP_PARAM_REQ, 14, DHCP_STATIC_ROUTE, DHCP_SUBNET, DHCP_ROUTER, DHCP_DNS_SERVER,
     DHCP_DOMAIN_NAME, DHCP_ROOT_PATH, DHCP_BROADCAST, DHCP_TIME_OFFSET, DHCP_TIME_SERVER,
     DHCP_LOG_SERVER, DHCP_NTP_SERVER, DHCP_TFTP_SERVER_NAME, DHCP_BOOTFILE_NAME, DHCP_TR069_ACS]"

definition add_requests :: "u8 list \<Rightarrow> u8 list option" where
  "add_requests opts = add_opt opts (Some request_list)"

definition add_identity :: "cworld \<Rightarrow> u8 list \<Rightarrow> u8 list option" where
  "add_identity w opts =
     (case createVIoption False (w_vi_serial w) (w_mac w) of
        None \<Rightarrow> Some opts | Some s \<Rightarrow> add_opt opts (Some s))"

definition add_address :: "u8 list \<Rightarrow> u8 \<Rightarrow> u32 \<Rightarrow> u8 list option" where
  "add_address opts code addr = do { (o', n) \<leftarrow> add_simple_option opts code addr; Some o' }"

section \<open>Sending\<close>

type_synonym sent = "send_outcome \<times> client_config"

definition broadcast :: "cworld \<Rightarrow> client_config \<Rightarrow> dhcpMessage \<Rightarrow> sent option" where
  "broadcast w cfg packet = do {
     r \<leftarrow> raw_packet (w_sock w) packet 0 CLIENT_PORT 0xFFFFFFFF SERVER_PORT MAC_BCAST_ADDR (q_ifindex cfg);
     Some (r, cfg) }"

definition unicast :: "cworld \<Rightarrow> client_config \<Rightarrow> dhcpMessage \<Rightarrow> u32 \<Rightarrow> u32 \<Rightarrow> sent option" where
  "unicast w cfg packet ciaddr server = do {
     r \<leftarrow> kernel_packet (w_sock w) packet ciaddr CLIENT_PORT server SERVER_PORT (Some (q_Interface cfg));
     Some (r, cfg) }"

definition send_discover :: "cworld \<Rightarrow> u8 list \<Rightarrow> client_config \<Rightarrow> u32 \<Rightarrow> u32 \<Rightarrow> sent option" where
  "send_discover w vc cfg xid requested = do {
     (packet, cfg') \<leftarrow> client_init_packet w vc cfg DHCPDISCOVER;
     o1 \<leftarrow> (if requested \<noteq> 0 then add_address (m_options packet) DHCP_REQUESTED_IP requested
            else Some (m_options packet));
     o2 \<leftarrow> add_requests o1;
     o3 \<leftarrow> add_identity w o2;
     o4 \<leftarrow> add_opt o3 (Some ([DHCP_USER_CLASS, 4, 3] @ bytes_of ''HWG''));
     broadcast w cfg' (packet\<lparr>m_xid := xid, m_options := o4\<rparr>) }"

definition send_selecting ::
  "cworld \<Rightarrow> u8 list \<Rightarrow> client_config \<Rightarrow> u32 \<Rightarrow> u32 \<Rightarrow> u32 \<Rightarrow> sent option" where
  "send_selecting w vc cfg xid server requested = do {
     (packet, cfg') \<leftarrow> client_init_packet w vc cfg DHCPREQUEST;
     o1 \<leftarrow> add_address (m_options packet) DHCP_REQUESTED_IP requested;
     o2 \<leftarrow> add_address o1 DHCP_SERVER_ID server;
     o3 \<leftarrow> add_requests o2;
     o4 \<leftarrow> add_identity w o3;
     broadcast w cfg' (packet\<lparr>m_xid := xid, m_options := o4\<rparr>) }"

definition send_renew :: "cworld \<Rightarrow> u8 list \<Rightarrow> client_config \<Rightarrow> u32 \<Rightarrow> u32 \<Rightarrow> u32 \<Rightarrow> sent option" where
  "send_renew w vc cfg xid server ciaddr = do {
     (packet, cfg') \<leftarrow> client_init_packet w vc cfg DHCPREQUEST;
     let packet' = packet\<lparr>m_xid := xid, m_ciaddr := ciaddr\<rparr>;
     if server \<noteq> 0 then unicast w cfg' packet' ciaddr server else broadcast w cfg' packet' }"

definition send_renew_with_request ::
  "cworld \<Rightarrow> u8 list \<Rightarrow> client_config \<Rightarrow> u32 \<Rightarrow> u32 \<Rightarrow> u32 \<Rightarrow> sent option" where
  "send_renew_with_request w vc cfg xid server ciaddr = do {
     (packet, cfg') \<leftarrow> client_init_packet w vc cfg DHCPREQUEST;
     o1 \<leftarrow> add_requests (m_options packet);
     let packet' = packet\<lparr>m_xid := xid, m_ciaddr := ciaddr, m_options := o1\<rparr>;
     if server \<noteq> 0 then unicast w cfg' packet' ciaddr server else broadcast w cfg' packet' }"

definition send_release :: "cworld \<Rightarrow> u8 list \<Rightarrow> client_config \<Rightarrow> u32 \<Rightarrow> u32 \<Rightarrow> u32 \<Rightarrow> sent option" where
  "send_release w vc cfg xid server ciaddr = do {
     (packet, cfg') \<leftarrow> client_init_packet w vc cfg DHCPRELEASE;
     o1 \<leftarrow> add_address (m_options packet) DHCP_REQUESTED_IP ciaddr;
     o2 \<leftarrow> add_address o1 DHCP_SERVER_ID server;
     unicast w cfg' (packet\<lparr>m_xid := xid, m_ciaddr := ciaddr, m_options := o2\<rparr>) ciaddr server }"

section \<open>Receiving on the packet socket\<close>

text \<open>
  \<open>rr\<close> is what \<^verbatim>\<open>read\<close> delivers of an IP datagram: nothing on an error, at most 1292
  bytes else.  The message is copied over \<open>payload\<close>, the caller's buffer, which keeps what
  the datagram is too short to replace.  The UDP checksum is not compared.
\<close>

definition udp_dhcp_size :: nat where "udp_dhcp_size = 1292"

definition get_raw_packet :: "u8 list option \<Rightarrow> dhcpMessage \<Rightarrow> (dhcpMessage \<times> int) option" where
  "get_raw_packet rr payload =
     (case rr of None \<Rightarrow> Some (payload, - 1)
      | Some dgram \<Rightarrow>
          let got = take udp_dhcp_size dgram;
              bytes = length got;
              packet = blit (replicate udp_dhcp_size 0) 0 got in
          if bytes < 28 then Some (payload, - 1)
          else if packet ! 9 \<noteq> 17 \<or> drop_bit 4 (packet ! 0) \<noteq> 4 \<or> packet ! 0 AND 0x0F \<noteq> 5 \<or>
            at16 packet 22 \<noteq> CLIENT_PORT \<or> bytes > udp_dhcp_size then Some (payload, - 1)
          else if at16 packet 10 \<noteq> checksum (slice (blit packet 10 [0, 0]) 0 20)
          then Some (payload, - 1)
          else do {
            data \<leftarrow> rdn packet 28 (bytes - 28);
            img \<leftarrow> memcpy (message_image payload) 0 data;
            let payload' = image_message img;
            if m_cookie payload' \<noteq> DHCP_MAGIC then Some (payload', - 1)
            else Some (payload', int (bytes - 28)) })"

section \<open>What the messages say\<close>

text \<open>What the environment has to respect: the sizes of the buffers its answers are stored in.\<close>

definition client_ready :: "cworld \<Rightarrow> u8 list \<Rightarrow> client_config \<Rightarrow> bool" where
  "client_ready w vc cfg \<longleftrightarrow> length (q_arp cfg) = 6 \<and> (\<forall>k. length (w_serial w k) \<le> 32) \<and> length vc < 64 \<and>
     (\<forall>h. q_hostname cfg = Some h \<longrightarrow> wf_block h)"

definition vendor_class :: "u8 list \<Rightarrow> u8 list" where
  "vendor_class vc = (if vc = [] then bytes_of ''dslforum.org'' else vc)"

definition client_head :: "cworld \<Rightarrow> u8 list \<Rightarrow> client_config \<Rightarrow> u8 \<Rightarrow> opt list" where
  "client_head w vc cfg type = Opt DHCP_MESSAGE_TYPE [type] #
     (case client_id w of None \<Rightarrow> [] | Some b \<Rightarrow> [block_opt b]) @
     (case q_hostname cfg of None \<Rightarrow> [] | Some h \<Rightarrow> [block_opt h]) @ [Opt DHCP_VENDOR (vendor_class vc)]"

definition client_identity :: "cworld \<Rightarrow> opt list" where
  "client_identity w = (case createVIoption False (w_vi_serial w) (w_mac w) of None \<Rightarrow> [] | Some b \<Rightarrow> [block_opt b])"

definition discover_options :: "cworld \<Rightarrow> u8 list \<Rightarrow> client_config \<Rightarrow> u32 \<Rightarrow> opt list" where
  "discover_options w vc cfg requested = client_head w vc cfg DHCPDISCOVER @
     (if requested \<noteq> 0 then [Opt DHCP_REQUESTED_IP (be32_bytes requested)] else []) @
     [block_opt request_list] @ client_identity w @ [Opt DHCP_USER_CLASS (3 # bytes_of ''HWG'')]"

definition selecting_options :: "cworld \<Rightarrow> u8 list \<Rightarrow> client_config \<Rightarrow> u32 \<Rightarrow> u32 \<Rightarrow> opt list" where
  "selecting_options w vc cfg server requested = client_head w vc cfg DHCPREQUEST @
     [Opt DHCP_REQUESTED_IP (be32_bytes requested), Opt DHCP_SERVER_ID (be32_bytes server)] @
     [block_opt request_list] @ client_identity w"

definition release_options :: "cworld \<Rightarrow> u8 list \<Rightarrow> client_config \<Rightarrow> u32 \<Rightarrow> u32 \<Rightarrow> opt list" where
  "release_options w vc cfg server ciaddr = client_head w vc cfg DHCPRELEASE @
     [Opt DHCP_REQUESTED_IP (be32_bytes ciaddr), Opt DHCP_SERVER_ID (be32_bytes server)]"

definition client_packet :: "client_config \<Rightarrow> u32 \<Rightarrow> u32 \<Rightarrow> u8 list \<Rightarrow> dhcpMessage" where
  "client_packet cfg xid ciaddr opts = zero_message\<lparr>m_op := BOOTREQUEST, m_htype := ETH_10MB,
     m_hlen := ETH_10MB_LEN, m_xid := xid, m_ciaddr := ciaddr, m_chaddr := q_arp cfg @ replicate 10 0,
     m_cookie := DHCP_MAGIC, m_options := opts\<rparr>"

lemma serial_loop_read: "serial_loop reads s i = s \<or> (\<exists>k. serial_loop reads s i = reads k)"
proof (induction reads s i rule: serial_loop.induct)
  case (1 reads s i)
  then show ?case by (subst (1 2) serial_loop.simps) (auto split: if_splits)
qed

lemma client_id_block:
  assumes "client_ready w vc cfg" "client_id w = Some b"
  shows "wf_block b" "b ! 0 = DHCP_CLIENT_ID" "length b \<le> 35"
proof -
  let ?s = "serial_loop (w_serial w) [] 0"
  have l: "length ?s \<le> 32" using serial_loop_read[of "w_serial w" "[]" 0] assms(1) by (auto simp: client_ready_def)
  have b: "b = [DHCP_CLIENT_ID, of_nat (length ?s + 1), 0] @ ?s"
    using assms(2) by (simp add: client_id_def Let_def split: if_splits)
  have "unat (of_nat (length ?s + 1) :: u8) = length ?s + 1" using l by (intro unat_of_nat_u8_small) simp
  then show "wf_block b" "b ! 0 = DHCP_CLIENT_ID" "length b \<le> 35"
    using l unfolding b by (simp_all add: wf_block_def del: of_nat_add unat_of_nat)
qed

lemma add_opt_block:
  assumes "repr m os" "wf_block b" "length (enc os) + length b + 1 < 1024"
  shows "\<exists>m'. add_opt m (Some (b @ junk)) = Some m' \<and> repr m' (os @ [block_opt b])"
proof -
  note d = wf_block_decomp[OF assms(2)]
  have l: "length (drop 2 b) + 2 = length b" using assms(2) by (simp add: wf_block_def)
  have "add_option_string m (b @ junk) = Some (blit m (length (enc os))
      (b ! 0 # of_nat (length (drop 2 b)) # drop 2 b @ [DHCP_END]), length (drop 2 b) + 2)"
    using add_option_string_repr[OF assms(1) d(2)[unfolded block_opt_def], of junk] assms(3) l
    unfolding wf_block_append[OF assms(2)] by simp
  moreover have "repr (blit m (length (enc os)) (b ! 0 # of_nat (length (drop 2 b)) # drop 2 b @ [DHCP_END]))
      (os @ [block_opt b])"
    using blit_repr[OF assms(1) d(2)[unfolded block_opt_def]] assms(3) l by (simp add: block_opt_def)
  ultimately show ?thesis by (simp add: add_opt_def)
qed

lemma simple_requested:
  "simple_option_length DHCP_REQUESTED_IP = 4" "simple_code DHCP_REQUESTED_IP"
  by (simp_all add: simple_code_def simple_option_length_def options_def option_lengths_def TYPE_MASK_def)

lemma add_address_repr:
  assumes "repr m os" "c \<in> {DHCP_REQUESTED_IP, DHCP_SERVER_ID}" "length (enc os) + 7 \<le> 1024"
  shows "\<exists>m'. add_address m c a = Some m' \<and> repr m' (os @ [Opt c (be32_bytes a)])"
proof -
  have c: "simple_code c" "simple_option_length c = 4"
    using assms(2) simple_requested simple_codes(2) simple_option_lengths(3) by auto
  have b: "simple_option_bytes (sint (simple_option_length c)) a = be32_bytes a"
    by (simp add: c(2) simple_option_bytes_def)
  from add_simple_appends[OF assms(1) c(1), of a] assms(3) c(2) show ?thesis
    unfolding b by (auto simp: add_address_def)
qed

lemma vendor_id_repr:
  assumes "repr m os" "length vc < 64" "length (enc os) + 66 < 1024"
  shows "\<exists>m'. add_opt m (vendor_id vc) = Some m' \<and> repr m' (os @ [Opt DHCP_VENDOR (vendor_class vc)])"
proof -
  let ?v = "vendor_class vc"
  define b where "b = [DHCP_VENDOR, of_nat (length ?v)] @ ?v"
  have l: "length ?v < 64" using assms(2) by (simp add: vendor_class_def)
  then have u: "unat (of_nat (length ?v) :: u8) = length ?v" by (intro unat_of_nat_u8_small) simp
  have wb: "wf_block b" using u by (simp add: b_def wf_block_def del: unat_of_nat)
  have "\<exists>junk. vendor_id vc = Some (b @ junk)"
  proof (cases "vc = []")
    case True
    then show ?thesis by (simp add: vendor_id_def b_def vendor_class_def bytes_of_def)
  next
    case False
    then show ?thesis using assms(2)
      by (simp add: vendor_id_def b_def vendor_class_def memcpy_in blit_def bytes_of_def Let_def)
  qed
  then obtain junk where "vendor_id vc = Some (b @ junk)" by blast
  moreover have "block_opt b = Opt DHCP_VENDOR ?v" by (simp add: b_def block_opt_def)
  moreover have "length b = length ?v + 2" by (simp add: b_def)
  ultimately show ?thesis using add_opt_block[OF assms(1) wb, of junk] assms(3) l by simp
qed

lemma enc_block [simp]: "wf_block b \<Longrightarrow> length (enc [block_opt b]) = length b"
  by (simp add: block_opt_def wf_block_def)

lemma length_block: "wf_block b \<Longrightarrow> length b \<le> 257"
  using unat_u8[of "b ! 1"] by (simp add: wf_block_def)

lemma length_client_head:
  assumes "client_ready w vc cfg"
  shows "length (enc (client_head w vc cfg type)) \<le> 360"
proof -
  have "length (enc (case client_id w of None \<Rightarrow> [] | Some b \<Rightarrow> [block_opt b])) \<le> 35"
    using client_id_block[OF assms] by (auto split: option.split)
  moreover have "length (enc (case q_hostname cfg of None \<Rightarrow> [] | Some h \<Rightarrow> [block_opt h])) \<le> 257"
    using assms length_block by (auto simp: client_ready_def split: option.split)
  moreover have "length (vendor_class vc) < 64" using assms by (simp add: client_ready_def vendor_class_def)
  ultimately show ?thesis unfolding client_head_def by simp
qed

lemma client_init_packet_repr:
  assumes "client_ready w vc cfg"
  shows "\<exists>o4. client_init_packet w vc cfg type =
      Some (client_packet cfg 0 0 o4, cfg\<lparr>q_clientid := client_id w\<rparr>) \<and>
    repr o4 (client_head w vc cfg type)"
proof -
  have u: "ucast (ucast type :: u32) = type"
    by (rule bit_word_eqI) (simp add: bit_ucast_iff)
  obtain o1 n1 where 1: "add_simple_option (DHCP_END # replicate 1023 0) DHCP_MESSAGE_TYPE (ucast type) = Some (o1, n1)"
    "repr o1 [Opt DHCP_MESSAGE_TYPE [type]]"
    using add_simple_appends[OF repr_empty simple_codes(1), of "ucast type"]
    by (auto simp: simple_option_lengths simple_option_bytes_def u)
  let ?id = "case client_id w of None \<Rightarrow> [] | Some b \<Rightarrow> [block_opt b]"
  let ?hn = "case q_hostname cfg of None \<Rightarrow> [] | Some h \<Rightarrow> [block_opt h]"
  have l2: "length (enc ?id) \<le> 35" using client_id_block[OF assms] by (auto split: option.split)
  have l3: "length (enc ?hn) \<le> 257" using assms length_block by (auto simp: client_ready_def split: option.split)
  have "\<exists>o2. (case client_id w of None \<Rightarrow> Some o1 | Some s \<Rightarrow> add_opt o1 (Some s)) = Some o2 \<and>
      repr o2 (Opt DHCP_MESSAGE_TYPE [type] # ?id)"
    using add_opt_block[OF 1(2), of _ "[]"] client_id_block[OF assms] 1(2) by (auto split: option.split)
  then obtain o2 where 2: "(case client_id w of None \<Rightarrow> Some o1 | Some s \<Rightarrow> add_opt o1 (Some s)) = Some o2"
    "repr o2 (Opt DHCP_MESSAGE_TYPE [type] # ?id)" by blast
  have "\<exists>o3. (case q_hostname cfg of None \<Rightarrow> Some o2 | Some s \<Rightarrow> add_opt o2 (Some s)) = Some o3 \<and>
      repr o3 (Opt DHCP_MESSAGE_TYPE [type] # ?id @ ?hn)"
  proof (cases "q_hostname cfg")
    case (Some h)
    then have h: "wf_block h" using assms by (simp add: client_ready_def)
    from add_opt_block[OF 2(2) h, of "[]"] l2 length_block[OF h] Some show ?thesis by simp
  qed (use 2(2) in simp)
  then obtain o3 where 3: "(case q_hostname cfg of None \<Rightarrow> Some o2 | Some s \<Rightarrow> add_opt o2 (Some s)) = Some o3"
    "repr o3 (Opt DHCP_MESSAGE_TYPE [type] # ?id @ ?hn)" by blast
  from vendor_id_repr[OF 3(2), of vc] l2 l3 assms obtain o4 where 4: "add_opt o3 (vendor_id vc) = Some o4"
    "repr o4 (client_head w vc cfg type)"
    unfolding client_head_def by (auto simp: client_ready_def)
  have "rdn (q_arp cfg) 0 6 = Some (q_arp cfg)" "blit (replicate 16 0) 0 (q_arp cfg) = q_arp cfg @ replicate 10 0"
    using assms by (simp_all add: client_ready_def rdn_def slice_def blit_def)
  then show ?thesis
    unfolding client_init_packet_def Let_def 2(1)[symmetric] using 1(1) 2(1) 3(1) 4
    by (intro exI[of _ o4]) (simp add: client_packet_def zero_message_def)
qed

lemma wf_client_packet: "length (q_arp cfg) = 6 \<Longrightarrow> repr o' os \<Longrightarrow> wf_message (client_packet cfg xid ci o')"
  by (simp add: client_packet_def wf_message_def zero_message_def repr_def)

lemma client_packet_simps [simp]:
  "m_options (client_packet cfg xid ci o') = o'" "client_packet cfg xid ci o'\<lparr>m_options := o2\<rparr> = client_packet cfg xid ci o2"
  "client_packet cfg xid ci o'\<lparr>m_xid := x\<rparr> = client_packet cfg x ci o'"
  "client_packet cfg xid ci o'\<lparr>m_ciaddr := a\<rparr> = client_packet cfg xid a o'"
  "m_xid (client_packet cfg xid ci o') = xid" "m_ciaddr (client_packet cfg xid ci o') = ci"
  "m_op (client_packet cfg xid ci o') = BOOTREQUEST" "m_cookie (client_packet cfg xid ci o') = DHCP_MAGIC"
  "m_giaddr (client_packet cfg xid ci o') = 0" "m_flags (client_packet cfg xid ci o') = 0"
  "m_chaddr (client_packet cfg xid ci o') = q_arp cfg @ replicate 10 0"
  "client_packet (cfg\<lparr>q_clientid := i\<rparr>) xid ci o' = client_packet cfg xid ci o'"
  by (simp_all add: client_packet_def zero_message_def)

text \<open>A call hands the kernel one frame with the message, unless a socket call fails.\<close>

definition client_sock_works :: "sock_env \<Rightarrow> bool" where
  "client_sock_works e \<longleftrightarrow> sock_works e \<and> e_bindtodevice e"

definition sends_message ::
  "cworld \<Rightarrow> client_config \<Rightarrow> u32 \<Rightarrow> u32 \<Rightarrow> opt list \<Rightarrow> sent option \<Rightarrow> bool" where
  "sends_message w cfg xid ci os res \<longleftrightarrow> (\<exists>r. res = Some (r, cfg\<lparr>q_clientid := client_id w\<rparr>) \<and>
     (case s_frame r of None \<Rightarrow> \<not> client_sock_works (w_sock w)
      | Some f \<Rightarrow> (\<exists>opts. repr opts os \<and>
          sent_payload (client_packet cfg xid ci opts) = Some (frame_payload f))))"

lemma broadcast_sends:
  assumes "length (q_arp cfg) = 6" "repr opts os"
  shows "sends_message w cfg xid ci os (broadcast w (cfg\<lparr>q_clientid := client_id w\<rparr>) (client_packet cfg xid ci opts))"
proof -
  let ?q = "client_packet cfg xid ci opts"
  from calc_length_repr[OF wf_client_packet[OF assms], unfolded client_packet_simps, OF assms(2)] obtain q' n where
    c: "calc_length ?q = Some (q', n)" "n \<le> 1264" "wf_message q'" by blast
  then have rn: "rdn (message_image q') 0 n = Some (take n (message_image q'))"
    by (simp add: rdn_def slice_def length_message_image)
  have "rdn MAC_BCAST_ADDR 0 6 = Some MAC_BCAST_ADDR" by (simp add: MAC_BCAST_ADDR_def rdn_def slice_def)
  moreover have "drop 28 (raw_frame x s sp dd dp) = x" for x s sp dd dp
    by (simp add: raw_frame_def Let_def)
  ultimately show ?thesis
    using c(1) rn assms(2) unfolding sends_message_def broadcast_def
    by (auto simp: raw_packet_def client_sock_works_def sock_works_def sent_payload_def)
qed

lemma unicast_sends:
  assumes "length (q_arp cfg) = 6" "repr opts os"
  shows "sends_message w cfg xid ci os
    (unicast w (cfg\<lparr>q_clientid := client_id w\<rparr>) (client_packet cfg xid ci opts) a srv)"
proof -
  let ?q = "client_packet cfg xid ci opts"
  from calc_length_repr[OF wf_client_packet[OF assms], unfolded client_packet_simps, OF assms(2)] obtain q' n where
    c: "calc_length ?q = Some (q', n)" "n \<le> 1264" "wf_message q'" by blast
  then have "rdn (message_image q') 0 n = Some (take n (message_image q'))"
    by (simp add: rdn_def slice_def length_message_image)
  then show ?thesis
    using c(1) assms(2) unfolding sends_message_def unicast_def
    by (auto simp: kernel_packet_def client_sock_works_def sock_works_def sent_payload_def)
qed

lemma client_identity_length: "length (enc (client_identity w)) \<le> 137"
proof (cases "createVIoption False (w_vi_serial w) (w_mac w)")
  case (Some b)
  then have "length b \<le> 137" unfolding createVIoption_Some by auto
  with Some createVIoption_block[OF Some] show ?thesis by (simp add: client_identity_def)
qed (simp add: client_identity_def)

lemma wf_request_list: "wf_block request_list"
  by (simp add: request_list_def wf_block_def)

lemma add_requests_repr:
  assumes "repr m os" "length (enc os) \<le> 1000"
  shows "\<exists>m'. add_requests m = Some m' \<and> repr m' (os @ [block_opt request_list])"
  using add_opt_block[OF assms(1) wf_request_list, of "[]"] assms(2)
  by (simp add: add_requests_def request_list_def)

lemma add_identity_repr:
  assumes "repr m os" "length (enc os) \<le> 800"
  shows "\<exists>m'. add_identity w m = Some m' \<and> repr m' (os @ client_identity w)"
proof (cases "createVIoption False (w_vi_serial w) (w_mac w)")
  case (Some b)
  note wb = conjunct1[OF createVIoption_block[OF Some]]
  have "length b \<le> 137" using client_identity_length[of w] Some wb by (simp add: client_identity_def)
  with add_opt_block[OF assms(1) wb, of "[]"] assms(2) Some show ?thesis
    by (simp add: add_identity_def client_identity_def)
qed (use assms(1) in \<open>simp add: add_identity_def client_identity_def\<close>)

lemma length_request_opt: "length (enc [block_opt request_list]) = 16"
  unfolding enc_block[OF wf_request_list] by (simp add: request_list_def)

lemma send_discover_sends:
  assumes "client_ready w vc cfg"
  shows "sends_message w cfg xid 0 (discover_options w vc cfg requested) (send_discover w vc cfg xid requested)"
proof -
  let ?h = "client_head w vc cfg DHCPDISCOVER"
  let ?rq = "if requested \<noteq> 0 then [Opt DHCP_REQUESTED_IP (be32_bytes requested)] else []"
  have "length (enc ?rq) \<le> 6" by simp
  note l = this length_client_head[OF assms, of DHCPDISCOVER] client_identity_length[of w] length_request_opt
  from client_init_packet_repr[OF assms, of DHCPDISCOVER] obtain o0 where
    0: "client_init_packet w vc cfg DHCPDISCOVER = Some (client_packet cfg 0 0 o0, cfg\<lparr>q_clientid := client_id w\<rparr>)"
    "repr o0 ?h" by blast
  have "\<exists>o1. (if requested \<noteq> 0 then add_address o0 DHCP_REQUESTED_IP requested else Some o0) = Some o1 \<and>
      repr o1 (?h @ ?rq)" using add_address_repr[OF 0(2)] 0(2) l by simp
  then obtain o1 where 1: "(if requested \<noteq> 0 then add_address o0 DHCP_REQUESTED_IP requested else Some o0) = Some o1"
    "repr o1 (?h @ ?rq)" by blast
  from add_requests_repr[OF 1(2)] l obtain o2 where 2: "add_requests o1 = Some o2"
    "repr o2 ((?h @ ?rq) @ [block_opt request_list])" by auto
  from add_identity_repr[OF 2(2), of w] l obtain o3 where 3: "add_identity w o2 = Some o3"
    "repr o3 (((?h @ ?rq) @ [block_opt request_list]) @ client_identity w)" by auto
  have u: "wf_block ([DHCP_USER_CLASS, 4, 3] @ bytes_of ''HWG'')" by (simp add: wf_block_def bytes_of_def)
  from add_opt_block[OF 3(2) u, of "[]"] l obtain o4 where 4: "add_opt o3 (Some ([DHCP_USER_CLASS, 4, 3] @ bytes_of ''HWG'')) = Some o4"
    "repr o4 (discover_options w vc cfg requested)" by (auto simp: discover_options_def block_opt_def)
  have "send_discover w vc cfg xid requested = broadcast w (cfg\<lparr>q_clientid := client_id w\<rparr>) (client_packet cfg xid 0 o4)"
    unfolding send_discover_def 0(1) bind.simps prod.case client_packet_simps(1) 1(1) 2(1) 3(1) 4(1) by simp
  with broadcast_sends[OF _ 4(2)] assms show ?thesis by (simp add: client_ready_def)
qed

lemma two_addresses_repr:
  assumes "repr o0 h" "length (enc h) \<le> 360"
  shows "\<exists>o1 o2. add_address o0 DHCP_REQUESTED_IP a = Some o1 \<and> add_address o1 DHCP_SERVER_ID b = Some o2 \<and>
    repr o2 (h @ [Opt DHCP_REQUESTED_IP (be32_bytes a), Opt DHCP_SERVER_ID (be32_bytes b)])"
proof -
  from add_address_repr[OF assms(1), of DHCP_REQUESTED_IP a] assms(2) obtain o1 where
    1: "add_address o0 DHCP_REQUESTED_IP a = Some o1" "repr o1 (h @ [Opt DHCP_REQUESTED_IP (be32_bytes a)])" by auto
  from add_address_repr[OF 1(2), of DHCP_SERVER_ID b] assms(2) 1(1) show ?thesis by auto
qed

lemma send_selecting_sends:
  assumes "client_ready w vc cfg"
  shows "sends_message w cfg xid 0 (selecting_options w vc cfg server requested)
    (send_selecting w vc cfg xid server requested)"
proof -
  let ?h = "client_head w vc cfg DHCPREQUEST"
  let ?ad = "[Opt DHCP_REQUESTED_IP (be32_bytes requested), Opt DHCP_SERVER_ID (be32_bytes server)]"
  note l = length_client_head[OF assms, of DHCPREQUEST] client_identity_length[of w] length_request_opt
  from client_init_packet_repr[OF assms, of DHCPREQUEST] obtain o0 where
    0: "client_init_packet w vc cfg DHCPREQUEST = Some (client_packet cfg 0 0 o0, cfg\<lparr>q_clientid := client_id w\<rparr>)"
    "repr o0 ?h" by blast
  from two_addresses_repr[OF 0(2) l(1)] obtain o1 o2 where 2: "add_address o0 DHCP_REQUESTED_IP requested = Some o1"
    "add_address o1 DHCP_SERVER_ID server = Some o2" "repr o2 (?h @ ?ad)" by blast
  from add_requests_repr[OF 2(3)] l obtain o3 where 3: "add_requests o2 = Some o3"
    "repr o3 ((?h @ ?ad) @ [block_opt request_list])" by auto
  from add_identity_repr[OF 3(2), of w] l obtain o4 where 4: "add_identity w o3 = Some o4"
    "repr o4 (selecting_options w vc cfg server requested)" by (auto simp: selecting_options_def)
  have "send_selecting w vc cfg xid server requested =
      broadcast w (cfg\<lparr>q_clientid := client_id w\<rparr>) (client_packet cfg xid 0 o4)"
    unfolding send_selecting_def 0(1) bind.simps prod.case client_packet_simps(1) 2(1,2) 3(1) 4(1) by simp
  with broadcast_sends[OF _ 4(2)] assms show ?thesis by (simp add: client_ready_def)
qed

lemma send_renew_sends:
  assumes "client_ready w vc cfg"
  shows "sends_message w cfg xid ci (client_head w vc cfg DHCPREQUEST) (send_renew w vc cfg xid server ci)"
    and "sends_message w cfg xid ci (client_head w vc cfg DHCPREQUEST @ [block_opt request_list])
      (send_renew_with_request w vc cfg xid server ci)"
proof -
  have a: "length (q_arp cfg) = 6" using assms by (simp add: client_ready_def)
  from client_init_packet_repr[OF assms, of DHCPREQUEST] obtain o0 where
    0: "client_init_packet w vc cfg DHCPREQUEST = Some (client_packet cfg 0 0 o0, cfg\<lparr>q_clientid := client_id w\<rparr>)"
    "repr o0 (client_head w vc cfg DHCPREQUEST)" by blast
  from add_requests_repr[OF 0(2)] length_client_head[OF assms, of DHCPREQUEST] obtain o1 where
    1: "add_requests o0 = Some o1" "repr o1 (client_head w vc cfg DHCPREQUEST @ [block_opt request_list])" by auto
  show "sends_message w cfg xid ci (client_head w vc cfg DHCPREQUEST) (send_renew w vc cfg xid server ci)"
    using broadcast_sends[OF a 0(2)] unicast_sends[OF a 0(2)] 0(1) by (simp add: send_renew_def Let_def)
  show "sends_message w cfg xid ci (client_head w vc cfg DHCPREQUEST @ [block_opt request_list])
      (send_renew_with_request w vc cfg xid server ci)"
    using broadcast_sends[OF a 1(2)] unicast_sends[OF a 1(2)] 0(1) 1(1) by (simp add: send_renew_with_request_def Let_def)
qed

lemma send_release_sends:
  assumes "client_ready w vc cfg"
  shows "sends_message w cfg xid ci (release_options w vc cfg server ci) (send_release w vc cfg xid server ci)"
proof -
  from client_init_packet_repr[OF assms, of DHCPRELEASE] obtain o0 where
    0: "client_init_packet w vc cfg DHCPRELEASE = Some (client_packet cfg 0 0 o0, cfg\<lparr>q_clientid := client_id w\<rparr>)"
    "repr o0 (client_head w vc cfg DHCPRELEASE)" by blast
  from two_addresses_repr[OF 0(2) length_client_head[OF assms], of ci server] obtain o1 o2 where
    2: "add_address o0 DHCP_REQUESTED_IP ci = Some o1" "add_address o1 DHCP_SERVER_ID server = Some o2"
    "repr o2 (release_options w vc cfg server ci)" unfolding release_options_def by blast
  have "length (q_arp cfg) = 6" using assms by (simp add: client_ready_def)
  from unicast_sends[OF this 2(3)] 0(1) 2(1,2) show ?thesis by (simp add: send_release_def)
qed

lemmas client_sends = send_discover_sends send_selecting_sends send_renew_sends send_release_sends

section \<open>What the packet socket accepts\<close>

lemma raw_frame_fields:
  fixes data zs :: "u8 list" and s d :: u32 and sp dp :: u16
  defines "m \<equiv> raw_frame data s sp d dp @ zs"
  shows "m ! 9 = 17" "m ! 0 = 0x45" "at16 m 22 = dp"
    "at16 m 10 = checksum (slice (blit m 10 [0, 0]) 0 20)" "slice m 28 (length data) = data"
proof -
  let ?t = "of_nat (20 + 8 + length data) :: u16" and ?u = "of_nat (8 + length data) :: u16"
  let ?c = "checksum (ip_header 0x45 ?t 64 0 s d)"
  let ?k = "checksum (ip_header 0 ?u 0 0 s d @ udp_header sp dp ?u 0 @ data)"
  have f: "m = [0x45, 0] @ be16_bytes ?t @ [0, 0, 0, 0, 64, 17] @ be16_bytes ?c @ be32_bytes s @ be32_bytes d @
      be16_bytes sp @ be16_bytes dp @ be16_bytes ?u @ be16_bytes ?k @ data @ zs"
    by (simp add: m_def raw_frame_def Let_def ip_header_def udp_header_def)
  have z: "be16_bytes 0 = [0, 0]" by (simp add: be16_bytes_def)
  show "m ! 9 = 17" "m ! 0 = 0x45" unfolding f by (simp_all add: nth_append)
  show "at16 m 22 = dp" by (rule at16_be16_bytes) (simp_all add: f slice_def)
  have "at16 m 10 = ?c" by (rule at16_be16_bytes) (simp_all add: f slice_def)
  moreover have "slice (blit m 10 [0, 0]) 0 20 = ip_header 0x45 ?t 64 0 s d"
    unfolding f by (simp add: slice_def blit_def ip_header_def z)
  ultimately show "at16 m 10 = checksum (slice (blit m 10 [0, 0]) 0 20)" by simp
  show "slice m 28 (length data) = data" unfolding f by (simp add: slice_def)
qed

lemma get_raw_packet_accepts:
  assumes "length data \<le> 1264" "wf_message p0"
  defines "p \<equiv> image_message (blit (message_image p0) 0 data)"
  shows "get_raw_packet (Some (raw_frame data s sp d CLIENT_PORT)) p0 =
    Some (p, if m_cookie p = DHCP_MAGIC then int (length data) else - 1)"
proof -
  let ?f = "raw_frame data s sp d CLIENT_PORT"
  have l: "length ?f = 28 + length data" by simp
  have t: "take udp_dhcp_size ?f = ?f" using assms(1) l by (simp add: udp_dhcp_size_def)
  have b: "blit (replicate udp_dhcp_size 0) 0 ?f = ?f @ replicate (1264 - length data) 0"
    using assms(1) l by (simp add: blit_def udp_dhcp_size_def)
  note f = raw_frame_fields[of data s sp d CLIENT_PORT "replicate (1264 - length data) 0"]
  have r: "rdn (?f @ replicate (1264 - length data) 0) 28 (length data) = Some data"
    using f(5) l by (simp add: rdn_def)
  have m: "memcpy (message_image p0) 0 data = Some (blit (message_image p0) 0 data)"
    using assms(1) length_message_image[OF assms(2)] by (simp add: memcpy_in)
  have n: "\<not> udp_dhcp_size < length ?f" "\<not> length ?f < 28" "length ?f - 28 = length data"
    using assms(1) l by (simp_all add: udp_dhcp_size_def)
  have h: "drop_bit 4 (0x45 :: u8) = 4" "(0x45 :: u8) AND 0x0F = 5" by simp_all
  show ?thesis
    unfolding get_raw_packet_def option.case Let_def t b f(1-3) f(4)[symmetric] n(3) r bind.simps m h p_def
    using n(1,2) by simp
qed

lemma get_raw_packet_total:
  assumes "wf_message p0"
  shows "\<exists>p n. get_raw_packet rr p0 = Some (p, n) \<and> wf_message p \<and> - 1 \<le> n \<and> n \<le> 1264 \<and>
    (0 \<le> n \<longrightarrow> m_cookie p = DHCP_MAGIC)"
proof (cases rr)
  case (Some dgram)
  let ?got = "take udp_dhcp_size dgram"
  let ?p = "blit (replicate udp_dhcp_size 0) 0 ?got"
  have l: "length ?p = 1292" "length ?got \<le> 1292"
    by (simp_all add: blit_def udp_dhcp_size_def)
  show ?thesis
  proof (cases "length ?got < 28")
    case False
    let ?d = "slice ?p 28 (length ?got - 28)"
    have r: "rdn ?p 28 (length ?got - 28) = Some ?d" using l False by (simp add: rdn_def)
    have ld: "length ?d = length ?got - 28" using l False by simp
    have m: "memcpy (message_image p0) 0 ?d = Some (blit (message_image p0) 0 ?d)"
      using ld l(2) length_message_image[OF assms] by (simp add: memcpy_in)
    have w: "wf_message (image_message (blit (message_image p0) 0 ?d))"
      using ld l(2) length_message_image[OF assms] by (intro wf_image_message) simp
    have "int (length ?got - 28) \<le> 1264" using l(2) by simp
    with r m w False assms Some show ?thesis
      unfolding get_raw_packet_def Some option.case Let_def r bind.simps m by auto
  qed (simp add: get_raw_packet_def Some Let_def assms)
qed (simp add: get_raw_packet_def assms)

text \<open>What a sender emits replaces the buffer up to the end option.\<close>

lemma get_raw_packet_sent:
  assumes "wf_message q" "repr (m_options q) os" "m_cookie q = DHCP_MAGIC" "sent_payload q = Some data" "wf_message p0"
  shows "\<exists>q'. get_raw_packet (Some (raw_frame data s sp d CLIENT_PORT)) p0 = Some (q', int (length data)) \<and>
    q' = q\<lparr>m_options := m_options q'\<rparr> \<and> repr (m_options q') os"
proof -
  let ?e = "length (enc os)"
  from sent_payload_image[OF assms(1,2)] assms(4) obtain pad where bs: "length data \<le> 1264"
    "data = take (241 + ?e) (message_image q) @ pad" by auto
  from message_image_prefix[OF assms(1)] obtain pre where
    pre: "length pre = 240" "message_image q = pre @ m_options q" by blast
  have t: "take (Suc ?e) (m_options q) = enc os @ [DHCP_END]" using assms(2) by (auto simp: repr_def)
  have e: "?e < 1024" using assms(2) by (rule repr_size)
  let ?img = "blit (message_image p0) 0 data"
  define r where "r = pad @ drop (length data) (message_image p0)"
  have l: "length ?img = 1264" using bs(1) length_message_image[OF assms(5)] by simp
  have i: "?img = pre @ enc os @ DHCP_END # r"
    using bs(2) pre t by (simp add: blit_def r_def)
  define q' where "q' = q\<lparr>m_options := enc os @ DHCP_END # r\<rparr>"
  have lr: "?e + 1 + length r = 1024" using l pre(1) unfolding i by simp
  have "?img = message_image q'" unfolding i q'_def using pre by (simp add: message_image_def)
  moreover have "wf_message q'" using assms(1) lr by (simp add: q'_def wf_message_def)
  ultimately have im: "image_message ?img = q'" by (simp add: image_message_image)
  have "get_raw_packet (Some (raw_frame data s sp d CLIENT_PORT)) p0 = Some (q', int (length data))"
    using get_raw_packet_accepts[OF bs(1) assms(5), of s sp d] assms(3) unfolding im by (simp add: q'_def)
  moreover have "repr (m_options q') os" using assms(2) lr by (auto simp: q'_def repr_def)
  ultimately show ?thesis by (auto simp: q'_def)
qed

section \<open>Properties\<close>

text \<open>
  C15: a reply sent to the client port on a packet socket is accepted by the client's raw
  reception and decoded to the same fields and the same options, whatever message the
  client's buffer held before.
\<close>

theorem raw_reply_received:
  assumes "wf_message q" "repr (m_options q) os" "m_cookie q = DHCP_MAGIC" "e_socket env" "e_bind env"
    "length arp = 6" "wf_message p0"
  shows "\<exists>bs q'. raw_packet env q sip SERVER_PORT dip CLIENT_PORT arp ifindex =
      Some \<lparr>s_frame = Some (RawFrame bs arp ifindex), s_result = e_result env, s_leaked = 0\<rparr> \<and>
    get_raw_packet (Some bs) p0 = Some (q', int (length bs) - 28) \<and>
    q' = q\<lparr>m_options := m_options q'\<rparr> \<and> repr (m_options q') os"
proof -
  from calc_length_repr[OF assms(1,2)] obtain p' n where c: "calc_length q = Some (p', n)" "n \<le> 1264"
    "wf_message p'" by blast
  then have rn: "rdn (message_image p') 0 n = Some (take n (message_image p'))"
    by (simp add: rdn_def slice_def length_message_image)
  define data where "data = take n (message_image p')"
  have sp: "sent_payload q = Some data" using c rn by (simp add: sent_payload_def data_def)
  have "raw_packet env q sip SERVER_PORT dip CLIENT_PORT arp ifindex =
      Some \<lparr>s_frame = Some (RawFrame (raw_frame data sip SERVER_PORT dip CLIENT_PORT) arp ifindex),
            s_result = e_result env, s_leaked = 0\<rparr>"
    using c rn assms(4-6) by (simp add: raw_packet_def data_def rdn_def slice_def)
  with get_raw_packet_sent[OF assms(1-3) sp assms(7), of sip SERVER_PORT dip] show ?thesis
    by (intro exI[of _ "raw_frame data sip SERVER_PORT dip CLIENT_PORT"]) auto
qed

theorem raw_reply_received_witness:
  "\<exists>bs q'. raw_packet \<lparr>e_socket = True, e_bindtodevice = True, e_reuseaddr = True, e_bind = True,
      e_connect = True, e_result = 280\<rparr> sample_message 0xC0A80101 67 0xFFFFFFFF 68 [1, 2, 3, 4, 5, 6] 4 =
    Some \<lparr>s_frame = Some (RawFrame bs [1, 2, 3, 4, 5, 6] 4), s_result = 280, s_leaked = 0\<rparr> \<and>
    get_raw_packet (Some bs) zero_message = Some (q', int (length bs) - 28) \<and>
    repr (m_options q') [Opt 53 [1], Opt 50 [192, 168, 1, 7]]"
  using raw_reply_received[OF wf_sample_message repr_sample, where
      env = "\<lparr>e_socket = True, e_bindtodevice = True, e_reuseaddr = True, e_bind = True,
        e_connect = True, e_result = 280\<rparr>" and arp = "[1, 2, 3, 4, 5, 6]" and
      sip = "0xC0A80101" and dip = "0xFFFFFFFF" and ifindex = 4 and ?p0.0 = zero_message]
  by (auto simp: sample_message_def)

text \<open>
  The message buffer is not cleared before a datagram is copied into it.  An IP datagram
  to the client port that carries nothing makes the client take the message it received
  before for a new one.
\<close>

theorem empty_datagram_replays:
  assumes "wf_message p0" "m_cookie p0 = DHCP_MAGIC"
  shows "get_raw_packet (Some (raw_frame [] s sp d CLIENT_PORT)) p0 = Some (p0, 0)"
  using get_raw_packet_accepts[of "[]" p0 s sp d] assms by (simp add: blit_def image_message_image)

theorem empty_datagram_replays_witness:
  "get_raw_packet (Some (raw_frame [] 0x0A000001 1000 0xFFFFFFFF CLIENT_PORT)) sample_message =
     Some (sample_message, 0)"
  by (rule empty_datagram_replays) (simp_all add: sample_message_def wf_sample_message[unfolded sample_message_def])

end
