(* ===== verification/Dhcp_Files.thy ===== *)
theory Dhcp_Files
  imports Dhcp_Server
begin

text \<open>
  \<^verbatim>\<open>udhcp/files.c\<close>: the configuration file, the lease files and the file with the NTP servers of
  the IP phones.  A file is its content, or nothing when it cannot be opened; memory the code
  reads before writing it is a parameter (\<open>buf0\<close> in \<open>read_opt\<close>).  As everywhere, the outer
  \<open>None\<close> is an access outside a buffer.
\<close>

abbreviation (input) "MAX_VENDOR_IDS \<equiv> (80 :: nat)"

section \<open>Values of the configuration file\<close>

type_synonym handler = "string \<Rightarrow> dhcpd \<Rightarrow> dhcpd option"

definition read_ip :: "(u32 \<Rightarrow> dhcpd \<Rightarrow> dhcpd) \<Rightarrow> handler" where
  "read_ip var line st = Some (case inet_aton line of None \<Rightarrow> st | Some a \<Rightarrow> var a st)"

definition read_str :: "(string \<Rightarrow> dhcpd \<Rightarrow> dhcpd) \<Rightarrow> handler" where
  "read_str var line st = Some (var line st)"

definition read_u32 :: "(u32 \<Rightarrow> dhcpd \<Rightarrow> dhcpd) \<Rightarrow> handler" where
  "read_u32 var line st = Some (var (strtoul line) st)"

definition yes_no :: "string \<Rightarrow> bool option" where
  "yes_no line =
     (if strcaseeq ''yes'' line \<or> line = ''1'' \<or> strcaseeq ''true'' line then Some True
      else if strcaseeq ''no'' line \<or> line = ''0'' \<or> strcaseeq ''false'' line then Some False
      else None)"

definition read_yn :: "(bool \<Rightarrow> dhcpd \<Rightarrow> dhcpd) \<Rightarrow> handler" where
  "read_yn var line st = Some (case yes_no line of None \<Rightarrow> st | Some b \<Rightarrow> var b st)"

section \<open>Options\<close>

text \<open>
  One value of an option: whether it failed, the length set so far, the buffer and the rest
  of the line.  Types the switch does not name leave the buffer as it is.
\<close>

definition opt_value :: "u8 \<Rightarrow> string \<Rightarrow> string \<Rightarrow> u8 list \<Rightarrow> bool \<times> nat \<times> u8 list \<times> string" where
  "opt_value type val rest buffer =
     (if type = OPTION_IP then
        (False, 0, (case inet_aton val of None \<Rightarrow> buffer | Some a \<Rightarrow> blit buffer 0 (be32_bytes a)), rest)
      else if type = OPTION_IP_PAIR then
        (let b1 = (case inet_aton val of None \<Rightarrow> buffer | Some a \<Rightarrow> blit buffer 0 (be32_bytes a)) in
         (case strtok_next [CHR '','', CHR '' '', CHR 0x09, CHR ''/'', CHR ''-''] rest of
            None \<Rightarrow> (True, 0, b1, rest)
          | Some (val2, rest2) \<Rightarrow>
              (False, 0, (case inet_aton val2 of None \<Rightarrow> b1 | Some a \<Rightarrow> blit b1 4 (be32_bytes a)), rest2)))
      else if type = OPTION_STRING then
        (let len = (if length val > 254 then 254 else length val) in
         (False, len, blit buffer 0 (bytes_of (take len val)), rest))
      else if type = OPTION_BOOLEAN then
        (case yes_no val of None \<Rightarrow> (True, 0, buffer, rest)
         | Some b \<Rightarrow> (False, 0, blit buffer 0 [if b then 1 else 0], rest))
      else if type = OPTION_U8 then (False, 0, blit buffer 0 [ucast (strtoul val)], rest)
      else if type = OPTION_U16 then (False, 0, blit buffer 0 (be16_bytes (ucast (strtoul val))), rest)
      else if type = OPTION_S16 then (False, 0, blit buffer 0 (be16_bytes (ucast (strtol0 val))), rest)
      else if type = OPTION_U32 then (False, 0, blit buffer 0 (be32_bytes (strtoul val)), rest)
      else if type = OPTION_S32 then (False, 0, blit buffer 0 (be32_bytes (strtol0 val)), rest)
      else (False, 0, buffer, rest))"

lemma opt_value_shrinks: "opt_value type val rest buffer = (f, l, b, r) \<Longrightarrow> length r \<le> length rest"
  by (auto simp: opt_value_def Let_def split: if_splits option.splits dest: strtok_next_shrinks)

function read_opt_loop :: "dhcp_option \<Rightarrow> string \<Rightarrow> u8 list \<Rightarrow> u8 list list \<Rightarrow> u8 list list" where
  "read_opt_loop opt line buffer opts =
     (case strtok_next [CHR '','', CHR 0x09] line of
        None \<Rightarrow> opts
      | Some (val, rest) \<Rightarrow>
          (case opt_value (o_flags opt AND TYPE_MASK) val rest buffer of
             (fail, len, buffer', rest') \<Rightarrow>
               (let opts' = (if fail then opts
                     else attach_option opts opt
                       (take (len + nat (option_lengths (o_flags opt AND TYPE_MASK))) buffer')) in
                if \<not> fail \<and> (o_flags opt AND OPTION_LIST \<noteq> 0 \<or> (240 \<le> o_code opt \<and> o_code opt \<le> 245))
                then read_opt_loop opt rest' buffer' opts'
                else opts')))"
  by pat_completeness auto
termination
  by (relation "measure (\<lambda>(opt, line, buffer, opts). length line)")
    (auto dest!: strtok_next_shrinks opt_value_shrinks[OF sym])

declare read_opt_loop.simps [simp del]

definition read_opt_list :: "u8 list \<Rightarrow> string \<Rightarrow> u8 list list \<Rightarrow> u8 list list" where
  "read_opt_list buf0 line opts =
     (case strtok_next [CHR '' '', CHR 0x09, CHR ''=''] line of
        None \<Rightarrow> opts
      | Some (opt, rest) \<Rightarrow>
          (case find (\<lambda>x. o_name x = opt) options of
             None \<Rightarrow> opts
           | Some x \<Rightarrow> read_opt_loop x rest buf0 opts))"

definition read_opt :: "u8 list \<Rightarrow> ((u8 list list \<Rightarrow> u8 list list) \<Rightarrow> dhcpd \<Rightarrow> dhcpd) \<Rightarrow> handler" where
  "read_opt buf0 var line st = Some (var (read_opt_list buf0 line) st)"

section \<open>Reserved addresses\<close>

text \<open>
  The line is copied into 128 bytes and each address into 16; an address of 16 characters
  would leave its copy without a terminator.
\<close>

fun reserved_aton_loop :: "nat \<Rightarrow> nat \<Rightarrow> string \<Rightarrow> u32 list \<Rightarrow> u32 list option" where
  "reserved_aton_loop i 0 pstart addrs = Some addrs"
| "reserved_aton_loop i (Suc n) pstart addrs =
     (case strchr (CHR '','') pstart of
        None \<Rightarrow> Some (addrs[i := inet_addr pstart])
      | Some k \<Rightarrow>
          if k \<ge> 16 then None
          else reserved_aton_loop (i + 1) n (drop (k + 1) pstart) (addrs[i := inet_addr (take k pstart)]))"

definition reserved_aton :: "string \<Rightarrow> u32 list \<Rightarrow> u32 list option" where
  "reserved_aton line addrs =
     (if length line \<ge> 128 then None else reserved_aton_loop 0 MAXRESERVEDIP line addrs)"

definition read_rsvip :: handler where
  "read_rsvip line st = do {
     a \<leftarrow> reserved_aton line (c_reservedAddr (d_config st));
     Some (st\<lparr>d_config := (d_config st)\<lparr>c_reservedAddr := a\<rparr>\<rparr>) }"

section \<open>The keywords\<close>

definition srv1 :: "(server_config \<Rightarrow> server_config) \<Rightarrow> dhcpd \<Rightarrow> dhcpd" where
  "srv1 f st = st\<lparr>d_config := f (d_config st)\<rparr>"

definition srv2 :: "(server_config \<Rightarrow> server_config) \<Rightarrow> dhcpd \<Rightarrow> dhcpd" where
  "srv2 f st = st\<lparr>d_config2 := f (d_config2 st)\<rparr>"

definition config_keywords :: "u8 list \<Rightarrow> (string \<times> handler \<times> string) list" where
  "config_keywords buf0 = [
     (''start'', read_ip (\<lambda>v. srv1 (\<lambda>c. c\<lparr>c_start := v\<rparr>)), ''192.168.0.20''),
     (''end'', read_ip (\<lambda>v. srv1 (\<lambda>c. c\<lparr>c_end := v\<rparr>)), ''192.168.0.254''),
     (''ReservedIpstr'', read_rsvip, ''''),
     (''interface'', read_str (\<lambda>v. srv1 (\<lambda>c. c\<lparr>c_interface := v\<rparr>)), ''eth0''),
     (''option'', read_opt buf0 (\<lambda>f. srv1 (\<lambda>c. c\<lparr>c_options := f (c_options c)\<rparr>)), ''''),
     (''opt'', read_opt buf0 (\<lambda>f. srv1 (\<lambda>c. c\<lparr>c_options := f (c_options c)\<rparr>)), ''''),
     (''max_leases'', read_u32 (\<lambda>v. srv1 (\<lambda>c. c\<lparr>c_max_leases := v\<rparr>)), ''254''),
     (''remaining'', read_yn (\<lambda>v. srv1 (\<lambda>c. c\<lparr>c_remaining := v\<rparr>)), ''yes''),
     (''auto_time'', read_u32 (\<lambda>v. srv1 (\<lambda>c. c\<lparr>c_auto_time := v\<rparr>)), ''7200''),
     (''decline_time'', read_u32 (\<lambda>v. srv1 (\<lambda>c. c\<lparr>c_decline_time := v\<rparr>)), ''3600''),
     (''conflict_time'', read_u32 (\<lambda>v. srv1 (\<lambda>c. c\<lparr>c_conflict_time := v\<rparr>)), ''3600''),
     (''offer_time'', read_u32 (\<lambda>v. srv1 (\<lambda>c. c\<lparr>c_offer_time := v\<rparr>)), ''60''),
     (''min_lease'', read_u32 (\<lambda>v. srv1 (\<lambda>c. c\<lparr>c_min_lease := v\<rparr>)), ''60''),
     (''lease_file'', read_str (\<lambda>v. srv1 (\<lambda>c. c\<lparr>c_lease_file := Some v\<rparr>)), ''/etc/udhcpd.leases''),
     (''pidfile'', read_str (\<lambda>v. srv1 (\<lambda>c. c\<lparr>c_pidfile := Some v\<rparr>)), ''/var/run/udhcpd.pid''),
     (''notify_file'', read_str (\<lambda>v. srv1 (\<lambda>c. c\<lparr>c_notify_file := Some v\<rparr>)), ''''),
     (''siaddr'', read_ip (\<lambda>v. srv1 (\<lambda>c. c\<lparr>c_siaddr := v\<rparr>)), ''0.0.0.0''),
     (''sname'', read_str (\<lambda>v. srv1 (\<lambda>c. c\<lparr>c_sname := Some v\<rparr>)), ''''),
     (''IPPhoneDomainName'', read_str (\<lambda>v. srv1 (\<lambda>c. c\<lparr>c_pIPPhoneDomainName := Some v\<rparr>)), ''''),
     (''IPPhoneDNSServers'', read_str (\<lambda>v. srv1 (\<lambda>c. c\<lparr>c_pIPPhoneDNSServers := Some v\<rparr>)), ''''),
     (''IPPhoneTFTPServerIp'', read_str (\<lambda>v. srv1 (\<lambda>c. c\<lparr>c_pIPPhoneTFTPServer := Some v\<rparr>)), ''''),
     (''TFTPServerName'', read_str (\<lambda>v. srv1 (\<lambda>c. c\<lparr>c_pIPPhoneTFTPServerName := Some v\<rparr>)), ''''),
     (''OutBoundProxy'', read_str (\<lambda>v. srv1 (\<lambda>c. c\<lparr>c_pOutBoundProxy := Some v\<rparr>)), ''''),
     (''DhcpOpt60'', read_str (\<lambda>v. srv1 (\<lambda>c. c\<lparr>c_pDhcpOpt60 := Some v\<rparr>)), ''''),
     (''IPPhoneVLANQoSEnable'', read_u32 (\<lambda>v. srv1 (\<lambda>c. c\<lparr>c_iIPPhoneVLANQoSEnable := sint v\<rparr>)), ''0''),
     (''IPPhoneNtpSvr1'', read_ip (\<lambda>v. srv1 (\<lambda>c. c\<lparr>c_iPPhoneNtp1 := v\<rparr>)), ''0.0.0.0''),
     (''IPPhoneNtpSvr2'', read_ip (\<lambda>v. srv1 (\<lambda>c. c\<lparr>c_iPPhoneNtp2 := v\<rparr>)), ''0.0.0.0''),
     (''boot_file'', read_str (\<lambda>v. srv1 (\<lambda>c. c\<lparr>c_boot_file := Some v\<rparr>)), ''''),
     (''vendorid'', read_str (\<lambda>v. srv1 (\<lambda>c. c\<lparr>c_vendorid := Some v\<rparr>)), ''''),
     (''decline_file'', read_str (\<lambda>v. srv1 (\<lambda>c. c\<lparr>c_decline_file := Some v\<rparr>)), ''''),
     (''enblsrv1'', read_u32 (\<lambda>v st. st\<lparr>d_enblSrv1 := v\<rparr>), ''0''),
     (''enblsrv2'', read_u32 (\<lambda>v st. st\<lparr>d_enblSrv2 := v\<rparr>), ''0''),
     (''start2'', read_ip (\<lambda>v. srv2 (\<lambda>c. c\<lparr>c_start := v\<rparr>)), ''0.0.0.0''),
     (''end2'', read_ip (\<lambda>v. srv2 (\<lambda>c. c\<lparr>c_end := v\<rparr>)), ''0.0.0.0''),
     (''interface2'', read_str (\<lambda>v. srv2 (\<lambda>c. c\<lparr>c_interface := v\<rparr>)), ''eth0''),
     (''option2'', read_opt buf0 (\<lambda>f. srv2 (\<lambda>c. c\<lparr>c_options := f (c_options c)\<rparr>)), ''''),
     (''max_leases2'', read_u32 (\<lambda>v. srv2 (\<lambda>c. c\<lparr>c_max_leases := v\<rparr>)), ''254''),
     (''offer_time2'', read_u32 (\<lambda>v. srv2 (\<lambda>c. c\<lparr>c_offer_time := v\<rparr>)), ''60''),
     (''min_lease2'', read_u32 (\<lambda>v. srv2 (\<lambda>c. c\<lparr>c_min_lease := v\<rparr>)), ''60''),
     (''opt2'', read_opt buf0 (\<lambda>f. srv2 (\<lambda>c. c\<lparr>c_options := f (c_options c)\<rparr>)), ''''),
     (''remaining2'', read_yn (\<lambda>v. srv2 (\<lambda>c. c\<lparr>c_remaining := v\<rparr>)), ''yes''),
     (''auto_time2'', read_u32 (\<lambda>v. srv2 (\<lambda>c. c\<lparr>c_auto_time := v\<rparr>)), ''7200''),
     (''decline_time2'', read_u32 (\<lambda>v. srv2 (\<lambda>c. c\<lparr>c_decline_time := v\<rparr>)), ''3600''),
     (''conflict_time2'', read_u32 (\<lambda>v. srv2 (\<lambda>c. c\<lparr>c_conflict_time := v\<rparr>)), ''3600''),
     (''notify_file2'', read_str (\<lambda>v. srv2 (\<lambda>c. c\<lparr>c_notify_file := Some v\<rparr>)), ''''),
     (''siaddr2'', read_ip (\<lambda>v. srv2 (\<lambda>c. c\<lparr>c_siaddr := v\<rparr>)), ''0.0.0.0''),
     (''sname2'', read_str (\<lambda>v. srv2 (\<lambda>c. c\<lparr>c_sname := Some v\<rparr>)), ''''),
     (''boot_file2'', read_str (\<lambda>v. srv2 (\<lambda>c. c\<lparr>c_boot_file := Some v\<rparr>)), ''''),
     (''classid2'', read_str (\<lambda>v. srv2 (\<lambda>c. c\<lparr>c_vendorid := Some v\<rparr>)), ''''),
     (''lease_file2'', read_str (\<lambda>v. srv2 (\<lambda>c. c\<lparr>c_lease_file := Some v\<rparr>)), ''/etc/udhcpd2.leases'')]"

section \<open>Reading the configuration\<close>

text \<open>The successive results of \<^verbatim>\<open>fgets(buffer, n, in)\<close>.\<close>

function fgets_lines :: "nat \<Rightarrow> string \<Rightarrow> string list" where
  "fgets_lines n s =
     (if s = [] \<or> n \<le> 1 then []
      else let m = min (n - 1) (case strchr (CHR 0x0A) s of None \<Rightarrow> length s | Some k \<Rightarrow> k + 1) in
           take m s # fgets_lines n (drop m s))"
  by pat_completeness auto
termination
  by (relation "measure (\<lambda>(n, s). length s)") (auto simp: min_def split: option.splits)

declare fgets_lines.simps [simp del]

definition cut_at :: "char \<Rightarrow> string \<Rightarrow> string" where
  "cut_at c s = takeWhile (\<lambda>x. x \<noteq> c) s"

definition is_blank :: "char \<Rightarrow> bool" where
  "is_blank c \<longleftrightarrow> c = CHR '' '' \<or> c = CHR 0x09"

text \<open>Keyword and value of a line, or nothing when the loop skips it.\<close>

definition config_line :: "string \<Rightarrow> (string \<times> string) option" where
  "config_line buffer =
     (let token = dropWhile is_blank (cut_at (CHR ''#'') (cut_at (CHR 0x0A) buffer));
          sep = (\<lambda>c. is_blank c \<or> c = CHR ''='');
          line = dropWhile (\<lambda>c. \<not> sep c) token;
          val = dropWhile sep (drop 1 line) in
      if token = [] \<or> line = [] \<or> val = [] then None
      else Some (takeWhile (\<lambda>c. \<not> sep c) token, val))"

fun apply_handlers :: "(string \<times> handler \<times> string) list \<Rightarrow> string \<Rightarrow> string \<Rightarrow> dhcpd \<Rightarrow> dhcpd option" where
  "apply_handlers [] token line st = Some st"
| "apply_handlers ((kw, h, def) # ks) token line st = do {
     st1 \<leftarrow> (if strcaseeq token kw then h line st else Some st);
     apply_handlers ks token line st1 }"

fun apply_defaults :: "(string \<times> handler \<times> string) list \<Rightarrow> dhcpd \<Rightarrow> dhcpd option" where
  "apply_defaults [] st = Some st"
| "apply_defaults ((kw, h, def) # ks) st = do {
     st1 \<leftarrow> (if def \<noteq> [] then h def st else Some st);
     apply_defaults ks st1 }"

fun config_lines :: "u8 list \<Rightarrow> string list \<Rightarrow> dhcpd \<Rightarrow> dhcpd option" where
  "config_lines buf0 [] st = Some st"
| "config_lines buf0 (l # ls) st = do {
     st1 \<leftarrow> (case config_line l of None \<Rightarrow> Some st
             | Some (token, line) \<Rightarrow> apply_handlers (config_keywords buf0) token line st);
     config_lines buf0 ls st1 }"

definition read_config :: "u8 list \<Rightarrow> string option \<Rightarrow> dhcpd \<Rightarrow> (int \<times> dhcpd) option" where
  "read_config buf0 content st = do {
     st1 \<leftarrow> apply_defaults (config_keywords buf0) st;
     (case content of None \<Rightarrow> Some (0, st1)
      | Some s \<Rightarrow> do {
          st2 \<leftarrow> config_lines buf0 (fgets_lines 300 s) st1;
          Some (1, st2) }) }"

section \<open>Writing the leases\<close>

definition BcmDelMERRouteRuleGW :: "string \<Rightarrow> effect list option" where
  "BcmDelMERRouteRuleGW srcIp = do {
     c1 \<leftarrow> sprintf_cmd (''iptables -t mangle -D PREROUTING -s '' @ srcIp @ ''  -j MARK --set-mark '' @
             dec 0x11000013 @ ''/0xff0000ff'');
     c2 \<leftarrow> sprintf_cmd (''iptables -t mangle -D PREROUTING -s '' @ srcIp @
             '' -p udp --dport  123 -j MARK --set-mark 0x0/0xff0000ff'');
     c3 \<leftarrow> sprintf_cmd (''iptables -t mangle -D PREROUTING -s '' @ srcIp @
             '' -p udp --dport  69 -j MARK --set-mark 0x0/0xff0000ff'');
     Some (map SystemCmd [c1, c2, c3]) }"

definition bcmdisableQosVlan :: "dhcpd \<Rightarrow> dhcpd" where
  "bcmdisableQosVlan st =
     (if d_EnableQosVlan st then emit (st\<lparr>d_EnableQosVlan := False\<rparr>) [SystemCmd ''ethctl eth0 qos disable'']
      else st)"

text \<open>
  Forgets an IP phone: its rules are removed and the table is compacted, keeping the order.
  The first loop is that of \<open>findSipaddr\<close> and as unbounded.
\<close>

definition findSipAddr :: "u32 \<Rightarrow> dhcpd \<Rightarrow> dhcpd option" where
  "findSipAddr yiaddr st = do {
     found \<leftarrow> findSipaddr (d_ipPhoneipaddr st) yiaddr;
     es \<leftarrow> (if found then BcmDelMERRouteRuleGW (inet_ntoa yiaddr) else Some []);
     let kept = filter (\<lambda>a. a \<noteq> 0) (if found then remove1 yiaddr (d_ipPhoneipaddr st) else d_ipPhoneipaddr st);
     let st1 = emit (st\<lparr>d_ipPhoneipaddr := kept @ replicate (length (d_ipPhoneipaddr st) - length kept) 0\<rparr>) es;
     Some (if kept = [] then bcmdisableQosVlan st1 else st1) }"

definition lease_record :: "dhcpOfferedAddr \<Rightarrow> u32 \<Rightarrow> u8 list" where
  "lease_record l lease_time =
     l_chaddr l @ be32_bytes (l_yiaddr l) @ be32_bytes lease_time @ l_hostname l"

definition stored_time :: "bool \<Rightarrow> u32 \<Rightarrow> dhcpOfferedAddr \<Rightarrow> u32" where
  "stored_time remaining now l =
     (if remaining then if lease_expired l now then 0 else l_expires l - now else l_expires l)"

fun write_leases_loop :: "bool \<Rightarrow> u32 \<Rightarrow> dhcpOfferedAddr list \<Rightarrow> dhcpd \<Rightarrow> (dhcpd \<times> u8 list) option" where
  "write_leases_loop remaining now [] st = Some (st, [])"
| "write_leases_loop remaining now (l # ls) st =
     (if l_yiaddr l = 0 then write_leases_loop remaining now ls st
      else do {
        st1 \<leftarrow> (if remaining \<and> lease_expired l now then findSipAddr (l_yiaddr l) st else Some st);
        (st2, bs) \<leftarrow> write_leases_loop remaining now ls st1;
        Some (st2, lease_record l (stored_time remaining now l) @ bs) })"

text \<open>\<^verbatim>\<open>sprintf\<close> of the notification into 255 bytes.\<close>

definition notify :: "server_config \<Rightarrow> string \<Rightarrow> effect list option" where
  "notify cfg f =
     (case c_notify_file cfg of None \<Rightarrow> Some []
      | Some n \<Rightarrow> if length (n @ '' '' @ f) < 255 then Some [SystemCmd (n @ '' '' @ f)] else None)"

definition write_leases :: "env \<Rightarrow> dhcpd \<Rightarrow> dhcpd option" where
  "write_leases env st = do {
     f \<leftarrow> c_lease_file (d_config st);
     if \<not> g_fopen env f then Some st
     else do {
       tbl \<leftarrow> lease_table st;
       (st1, bs) \<leftarrow> write_leases_loop (c_remaining (d_config st)) (g_now env) tbl st;
       es \<leftarrow> notify (d_config st) f;
       Some (emit st1 (FileWritten f bs # es)) } }"

definition write_leases2 :: "env \<Rightarrow> dhcpd \<Rightarrow> dhcpd option" where
  "write_leases2 env st = do {
     f \<leftarrow> c_lease_file (d_config2 st);
     if \<not> g_fopen env f then Some st
     else do {
       tbl \<leftarrow> rdn (d_leases2 st) 0 (unat (c_max_leases (d_config2 st)));
       let bs = concat (map (\<lambda>l. lease_record l (stored_time (c_remaining (d_config2 st)) (g_now env) l))
                  (filter (\<lambda>l. l_yiaddr l \<noteq> 0) tbl));
       es \<leftarrow> notify (d_config2 st) f;
       Some (emit st (FileWritten f bs # es)) } }"

section \<open>Reading the leases\<close>

text \<open>
  \<^verbatim>\<open>sizeof(struct dhcpOfferedAddr)\<close> is 152.  \<open>n\<close> is the number of entries still allowed,
  the table argument what is left of the table.
\<close>

function read_leases_loop ::
  "server_config \<Rightarrow> u32 \<Rightarrow> nat \<Rightarrow> u8 list \<Rightarrow> dhcpOfferedAddr list \<Rightarrow> dhcpOfferedAddr list option" where
  "read_leases_loop cfg now n bs tbl =
     (if n = 0 \<or> length bs < 152 then Some tbl
      else if c_start cfg \<le> at32 bs 16 \<and> at32 bs 16 \<le> c_end cfg then
        (case tbl of [] \<Rightarrow> None
         | l # ls \<Rightarrow> do {
             ls' \<leftarrow> read_leases_loop cfg now (n - 1) (drop 152 bs) ls;
             Some (l\<lparr>l_yiaddr := at32 bs 16,
                     l_expires := (if c_remaining cfg then at32 bs 20 + now else at32 bs 20),
                     l_chaddr := take 16 bs\<rparr> # ls') })
      else read_leases_loop cfg now n (drop 152 bs) tbl)"
  by pat_completeness auto
termination
  by (relation "measure (\<lambda>(cfg, now, n, bs, tbl). length bs)") auto

declare read_leases_loop.simps [simp del]

definition read_leases :: "u32 \<Rightarrow> u8 list option \<Rightarrow> dhcpd \<Rightarrow> dhcpd option" where
  "read_leases now content st =
     (case content of None \<Rightarrow> Some st
      | Some bs \<Rightarrow> do {
          tbl \<leftarrow> read_leases_loop (d_config st) now (unat (c_max_leases (d_config st))) bs (d_leases st);
          Some (st\<lparr>d_leases := tbl\<rparr>) })"

definition read_leases2 :: "u32 \<Rightarrow> u8 list option \<Rightarrow> dhcpd \<Rightarrow> dhcpd option" where
  "read_leases2 now content st =
     (case content of None \<Rightarrow> Some st
      | Some bs \<Rightarrow> do {
          tbl \<leftarrow> read_leases_loop (d_config2 st) now (unat (c_max_leases (d_config2 st))) bs (d_leases2 st);
          Some (st\<lparr>d_leases2 := tbl\<rparr>) })"

section \<open>Declined clients and vendor identifiers\<close>

definition write_decline :: "env \<Rightarrow> dhcpOfferedAddr \<Rightarrow> dhcpd \<Rightarrow> dhcpd option" where
  "write_decline env declines st = do {
     f \<leftarrow> c_decline_file (d_config st);
     Some (if g_fopen env f then emit st [FileWritten f (l_chaddr declines @ l_vendorid declines)] else st) }"

definition read_vendor_id_config :: "string option \<Rightarrow> string list \<Rightarrow> int \<times> string list" where
  "read_vendor_id_config content ids =
     (case content of None \<Rightarrow> (0, ids)
      | Some s \<Rightarrow>
          (let ls = take MAX_VENDOR_IDS (map (cut_at (CHR 0x0A)) (fgets_lines 64 s)) in
           (1, ls @ replicate (MAX_VENDOR_IDS - length ls) [])))"

section \<open>The NTP servers of the IP phones\<close>

text \<open>
  \<open>p\<close> runs over the 256 byte buffer; at a newline the first 31 bytes of the buffer become the
  first address and the 31 bytes behind the newline the second.
\<close>

fun ntp_file_loop :: "nat \<Rightarrow> nat \<Rightarrow> u8 list \<Rightarrow> u8 list \<times> u8 list \<Rightarrow> (u8 list \<times> u8 list) option" where
  "ntp_file_loop 0 p buf (ip1, ip2) = Some (ip1, ip2)"
| "ntp_file_loop (Suc n) p buf (ip1, ip2) = do {
     c \<leftarrow> rd buf p;
     if c = 10 then do {
       buf' \<leftarrow> wr buf p 0;
       ip2' \<leftarrow> (if p + 1 + 31 < 255 then rdn buf' (p + 1) 31 else Some ip2);
       ntp_file_loop n (p + 2) buf' (take 31 buf', ip2') }
     else ntp_file_loop n (p + 1) buf (ip1, ip2) }"

definition ntp_addr :: "u8 list \<Rightarrow> u32 \<Rightarrow> u32" where
  "ntp_addr ip old =
     (let s = str_of (cstr ip) in
      if s \<noteq> [] \<and> inet_addr s \<noteq> 0xFFFFFFFF then inet_addr s else old)"

definition setIPPhoneNtpCfg :: "u8 list option \<Rightarrow> dhcpd \<Rightarrow> dhcpd option" where
  "setIPPhoneNtpCfg content st =
     (case content of None \<Rightarrow> Some st
      | Some bs \<Rightarrow> do {
          (ip1, ip2) \<leftarrow> ntp_file_loop (length (take 256 bs)) 0 (blit (replicate 256 0) 0 (take 256 bs)) ([], []);
          Some (st\<lparr>d_config := (d_config st)
            \<lparr>c_iPPhoneNtp1 := ntp_addr ip1 (c_iPPhoneNtp1 (d_config st)),
              c_iPPhoneNtp2 := ntp_addr ip2 (c_iPPhoneNtp2 (d_config st))\<rparr>\<rparr>) })"

section \<open>The option lists of the configuration\<close>

lemma option_lengths_cases:
  "option_lengths t \<le> (if t = OPTION_STRING then 0 else 128)" "0 \<le> option_lengths t"
  by (simp_all add: option_lengths_def)

lemma opt_value_length:
  "opt_value type val rest buffer = (f, l, b, r) \<Longrightarrow>
   l \<le> 254 \<and> (type \<noteq> OPTION_STRING \<longrightarrow> l = 0)"
  by (auto simp: opt_value_def Let_def split: if_splits option.splits)

lemma read_opt_loop_wf:
  assumes "wf_optset opts" "opt \<in> set options"
  shows "wf_optset (read_opt_loop opt line buffer opts)"
  using assms
proof (induction opt line buffer opts rule: read_opt_loop.induct)
  case (1 opt line buffer opts)
  let ?t = "o_flags opt AND TYPE_MASK"
  have wf: "wf_optset (attach_option opts opt (take (len + nat (option_lengths ?t)) b))"
    if "opt_value ?t val rest buffer = (f, len, b, r)" for val rest f len b r
  proof (rule attach_option_wf[OF "1.prems"(1)])
    show "0 < o_code opt" "o_code opt < 128" using options_codes "1.prems"(2) by (auto simp: list_all_iff)
    have "len + nat (option_lengths ?t) \<le> 255"
      using opt_value_length[OF that] option_lengths_cases[of ?t] by (cases "?t = OPTION_STRING") auto
    then show "length (take (len + nat (option_lengths ?t)) b) \<le> 255" by simp
  qed
  show ?case
    using "1.prems" "1.IH"[OF _ refl] wf
    by (subst read_opt_loop.simps) (auto simp: Let_def split: option.split prod.split)
qed

lemma read_opt_list_wf: "wf_optset opts \<Longrightarrow> wf_optset (read_opt_list buf0 line opts)"
  by (auto simp: read_opt_list_def find_Some_iff intro!: read_opt_loop_wf split: option.split)

definition option_lists_ok :: "dhcpd \<Rightarrow> bool" where
  "option_lists_ok st \<longleftrightarrow> wf_optset (c_options (d_config st)) \<and> wf_optset (c_options (d_config2 st))"

definition keeps_option_lists :: "handler \<Rightarrow> bool" where
  "keeps_option_lists h \<longleftrightarrow> (\<forall>line st st'. h line st = Some st' \<longrightarrow> option_lists_ok st \<longrightarrow> option_lists_ok st')"

lemma keeps_read:
  "(\<And>v st. option_lists_ok (f v st) = option_lists_ok st) \<Longrightarrow> keeps_option_lists (read_ip f)"
  "(\<And>v st. option_lists_ok (g v st) = option_lists_ok st) \<Longrightarrow> keeps_option_lists (read_str g)"
  "(\<And>v st. option_lists_ok (h v st) = option_lists_ok st) \<Longrightarrow> keeps_option_lists (read_u32 h)"
  "(\<And>v st. option_lists_ok (k v st) = option_lists_ok st) \<Longrightarrow> keeps_option_lists (read_yn k)"
  by (auto simp: keeps_option_lists_def read_ip_def read_str_def read_u32_def read_yn_def split: option.split)

lemma keeps_read_opt:
  "keeps_option_lists (read_opt buf0 (\<lambda>f. srv1 (\<lambda>c. c\<lparr>c_options := f (c_options c)\<rparr>)))"
  "keeps_option_lists (read_opt buf0 (\<lambda>f. srv2 (\<lambda>c. c\<lparr>c_options := f (c_options c)\<rparr>)))"
  "keeps_option_lists read_rsvip"
  by (auto simp: keeps_option_lists_def read_opt_def read_rsvip_def srv1_def srv2_def option_lists_ok_def
      bind_eq_Some_conv intro: read_opt_list_wf)

lemma config_keywords_keep: "list_all (\<lambda>(kw, h, def). keeps_option_lists h) (config_keywords buf0)"
  unfolding config_keywords_def list.pred_inject prod.case
  by (intro conjI keeps_read keeps_read_opt TrueI) (simp_all add: option_lists_ok_def srv1_def srv2_def)

lemma apply_handlers_keep:
  "list_all (\<lambda>(kw, h, def). keeps_option_lists h) ks \<Longrightarrow> apply_handlers ks token line st = Some st' \<Longrightarrow>
   option_lists_ok st \<Longrightarrow> option_lists_ok st'"
  by (induction ks token line st rule: apply_handlers.induct)
    (auto simp: bind_eq_Some_conv keeps_option_lists_def split: if_splits)

lemma apply_defaults_keep:
  "list_all (\<lambda>(kw, h, def). keeps_option_lists h) ks \<Longrightarrow> apply_defaults ks st = Some st' \<Longrightarrow>
   option_lists_ok st \<Longrightarrow> option_lists_ok st'"
  by (induction ks st rule: apply_defaults.induct)
    (auto simp: bind_eq_Some_conv keeps_option_lists_def split: if_splits)

lemma config_lines_keep:
  "config_lines buf0 ls st = Some st' \<Longrightarrow> option_lists_ok st \<Longrightarrow> option_lists_ok st'"
  by (induction buf0 ls st rule: config_lines.induct)
    (auto simp: bind_eq_Some_conv split: option.splits dest: apply_handlers_keep[OF config_keywords_keep])

section \<open>The lease files\<close>

lemma length_lease_record:
  "length (l_chaddr l) = 16 \<Longrightarrow> length (l_hostname l) = 64 \<Longrightarrow> length (lease_record l t) = 88"
  by (simp add: lease_record_def)

lemma findSipaddr_Some_True: "findSipaddr as yi = Some True \<Longrightarrow> yi \<in> set as"
  by (induction as) (auto split: if_splits)

lemma BcmDelMERRouteRuleGW_total:
  "length host \<le> 15 \<Longrightarrow> \<exists>es. BcmDelMERRouteRuleGW host = Some es \<and> (\<forall>e \<in> set es. \<forall>f. e \<noteq> Sent f)"
  by (simp add: BcmDelMERRouteRuleGW_def sprintf_cmd_def length_dec_mark[simplified])

lemma bcmdisableQosVlan_keeps:
  "server_ok st \<Longrightarrow> keeps_leases st (bcmdisableQosVlan st) \<and>
   d_ipPhoneipaddr (bcmdisableQosVlan st) = d_ipPhoneipaddr st"
  by (simp add: keeps_leases_def bcmdisableQosVlan_def server_ok_def leases_of_def handler_frame_def quiet_def)

lemma keeps_leases_refl: "server_ok st \<Longrightarrow> keeps_leases st st"
  by (simp add: keeps_leases_def)

lemma findSipAddr_keeps:
  assumes "server_ok st" "0 \<in> set (d_ipPhoneipaddr st)"
  shows "\<exists>st'. findSipAddr yi st = Some st' \<and> keeps_leases st st' \<and> 0 \<in> set (d_ipPhoneipaddr st') \<and>
    (\<forall>a. a \<noteq> 0 \<and> a \<noteq> yi \<longrightarrow> (a \<in> set (d_ipPhoneipaddr st') \<longleftrightarrow> a \<in> set (d_ipPhoneipaddr st)))"
proof -
  let ?as = "d_ipPhoneipaddr st"
  obtain found where f: "findSipaddr ?as yi = Some found" using findSipaddr_total[OF assms(2)] by blast
  obtain es where es: "(if found then BcmDelMERRouteRuleGW (inet_ntoa yi) else Some []) = Some es"
    "\<forall>e \<in> set es. \<forall>f. e \<noteq> Sent f"
    using BcmDelMERRouteRuleGW_total[OF length_inet_ntoa, of yi] by (cases found) auto
  define kept where "kept = filter (\<lambda>a. a \<noteq> 0) (if found then remove1 yi ?as else ?as)"
  define as' where "as' = kept @ replicate (length ?as - length kept) 0"
  have "length (filter (\<lambda>a. a \<noteq> 0) ?as) < length ?as" using assms(2) by (intro length_filter_less) auto
  moreover have "length kept \<le> length (filter (\<lambda>a. a \<noteq> 0) ?as)"
    by (simp add: kept_def filter_remove1 length_remove1)
  ultimately have lt: "length kept < length ?as" by linarith
  then have as': "length as' = length ?as" "0 \<in> set as'" by (simp_all add: as'_def)
  define st1 where "st1 = emit (st\<lparr>d_ipPhoneipaddr := as'\<rparr>) es"
  have k1: "keeps_leases st st1" unfolding st1_def by (rule keeps_set_phones[OF assms(1) as'(1) es(2)])
  then have "server_ok st1" by (simp add: keeps_leases_def)
  note q = bcmdisableQosVlan_keeps[OF this]
  have p1: "d_ipPhoneipaddr st1 = as'" by (simp add: st1_def)
  have mem: "a \<in> set as' \<longleftrightarrow> a \<in> set ?as" if "a \<noteq> 0" "a \<noteq> yi" for a
    using that by (auto simp: as'_def kept_def)
  have "findSipAddr yi st = Some (if kept = [] then bcmdisableQosVlan st1 else st1)"
    unfolding findSipAddr_def f bind.simps es(1) Let_def kept_def[symmetric] as'_def[symmetric] st1_def[symmetric] ..
  with k1 q p1 as'(2) mem keeps_leases_trans[OF k1] show ?thesis by auto
qed

lemma write_leases_loop_spec:
  assumes "server_ok st" "0 \<in> set (d_ipPhoneipaddr st)"
  shows "\<exists>st'. write_leases_loop remaining now ls st = Some (st',
      concat (map (\<lambda>l. lease_record l (stored_time remaining now l)) (filter (\<lambda>l. l_yiaddr l \<noteq> 0) ls))) \<and>
    keeps_leases st st' \<and> 0 \<in> set (d_ipPhoneipaddr st')"
  using assms
proof (induction ls arbitrary: st)
  case (Cons l ls)
  show ?case
  proof (cases "l_yiaddr l = 0")
    case False
    obtain st1 where 1: "(if remaining \<and> lease_expired l now then findSipAddr (l_yiaddr l) st else Some st) = Some st1"
      "keeps_leases st st1" "0 \<in> set (d_ipPhoneipaddr st1)"
      using findSipAddr_keeps[OF Cons.prems, of "l_yiaddr l"] keeps_leases_refl[OF Cons.prems(1)] Cons.prems(2)
      by (cases "remaining \<and> lease_expired l now") auto
    have "server_ok st1" using 1(2) by (simp add: keeps_leases_def)
    from Cons.IH[OF this 1(3)] obtain st2 where 2: "write_leases_loop remaining now ls st1 = Some (st2,
        concat (map (\<lambda>l. lease_record l (stored_time remaining now l)) (filter (\<lambda>l. l_yiaddr l \<noteq> 0) ls)))"
      "keeps_leases st1 st2" "0 \<in> set (d_ipPhoneipaddr st2)" by blast
    show ?thesis
      unfolding write_leases_loop.simps using False 1 2 keeps_leases_trans[OF 1(2) 2(2)] by simp
  qed (use Cons in simp)
qed (use keeps_leases_refl in simp)

lemma write_leases_spec:
  assumes "server_ok st" "0 \<in> set (d_ipPhoneipaddr st)"
  shows "\<exists>st'. write_leases env st = Some st' \<and> keeps_leases st st' \<and> 0 \<in> set (d_ipPhoneipaddr st')"
proof -
  have wc: "wf_config (d_config st)" using assms(1) by (simp add: server_ok_def)
  then obtain f where f: "c_lease_file (d_config st) = Some f" by (auto simp: wf_config_def split: option.splits)
  obtain es where es: "notify (d_config st) f = Some es" "\<forall>e \<in> set es. \<forall>f. e \<noteq> Sent f"
    using wc f by (cases "c_notify_file (d_config st)") (auto simp: notify_def wf_config_def)
  from write_leases_loop_spec[OF assms, of "c_remaining (d_config st)" "g_now env" "leases_of st"] obtain st1 bs where
    1: "write_leases_loop (c_remaining (d_config st)) (g_now env) (leases_of st) st = Some (st1, bs)"
    "keeps_leases st st1" "0 \<in> set (d_ipPhoneipaddr st1)" by blast
  have "quiet st1 (emit st1 (FileWritten f bs # es))" by (rule quietI[of _ _ "FileWritten f bs # es"]) (use es(2) in simp_all)
  then have "keeps_leases st1 (emit st1 (FileWritten f bs # es))"
    using 1(2) by (simp add: keeps_leases_def)
  from keeps_leases_trans[OF 1(2) this] 1 f es(1) keeps_leases_refl[OF assms(1)] assms(2) show ?thesis
    by (auto simp: write_leases_def lease_table_ok[OF assms(1)])
qed

lemma write_leases2_spec:
  assumes "wf_config (d_config2 st)" "unat (c_max_leases (d_config2 st)) \<le> length (d_leases2 st)"
  shows "\<exists>es. write_leases2 env st = Some (emit st es) \<and> (\<forall>e \<in> set es. \<forall>f. e \<noteq> Sent f)"
proof -
  obtain f where f: "c_lease_file (d_config2 st) = Some f" using assms(1) by (auto simp: wf_config_def split: option.splits)
  obtain es where es: "notify (d_config2 st) f = Some es" "\<forall>e \<in> set es. \<forall>f. e \<noteq> Sent f"
    using assms(1) f by (cases "c_notify_file (d_config2 st)") (auto simp: notify_def wf_config_def)
  define bs where "bs = concat (map (\<lambda>l. lease_record l (stored_time (c_remaining (d_config2 st)) (g_now env) l))
      (filter (\<lambda>l. l_yiaddr l \<noteq> 0) (take (unat (c_max_leases (d_config2 st))) (d_leases2 st))))"
  have "write_leases2 env st = Some (emit st (if g_fopen env f then FileWritten f bs # es else []))"
    using f es(1) assms(2) by (simp add: write_leases2_def rdn_def slice_def Let_def bs_def emit_def)
  with es(2) show ?thesis by (intro exI[of _ "if g_fopen env f then FileWritten f bs # es else []"]) auto
qed

section \<open>Properties\<close>

text \<open>
  C24: whatever the configuration file contains, the option lists of both address pools stay
  well formed: every block within its 255 bytes, sorted by code, no code twice.
\<close>

theorem read_config_option_lists:
  assumes "read_config buf0 content st = Some (r, st')"
    "wf_optset (c_options (d_config st))" "wf_optset (c_options (d_config2 st))"
  shows "wf_optset (c_options (d_config st')) \<and> wf_optset (c_options (d_config2 st'))"
proof -
  have "option_lists_ok st" using assms(2,3) by (simp add: option_lists_ok_def)
  then have "option_lists_ok st'"
    using assms(1)
    by (auto simp: read_config_def bind_eq_Some_conv split: option.splits
        dest: apply_defaults_keep[OF config_keywords_keep] config_lines_keep)
  then show ?thesis by (simp add: option_lists_ok_def)
qed

lemma lease_record_fields:
  assumes "length (l_chaddr l) = 16"
  shows "at32 (lease_record l t @ bs) 16 = l_yiaddr l" "at32 (lease_record l t @ bs) 20 = t"
    "take 16 (lease_record l t @ bs) = l_chaddr l"
  using assms by (auto intro!: at32_be32_bytes simp: lease_record_def slice_def)



text \<open>
  C25: writing the lease file neither faults nor changes a lease, for every table and every
  answer of the file system; the file holds one record per leased address, in table order,
  with the remaining time (0 for an expired lease) or the expiry, as configured.
\<close>

theorem write_leases_content:
  assumes "server_ok st" "0 \<in> set (d_ipPhoneipaddr st)" "c_lease_file (d_config st) = Some f" "g_fopen env f"
  shows "\<exists>st' bs. write_leases env st = Some st' \<and> leases_of st' = leases_of st \<and> server_ok st' \<and>
    FileWritten f bs \<in> set (d_out st') \<and>
    bs = concat (map (\<lambda>l. lease_record l
        (if c_remaining (d_config st) then if l_expires l < g_now env then 0 else l_expires l - g_now env
         else l_expires l)) (filter (\<lambda>l. l_yiaddr l \<noteq> 0) (leases_of st)))"
proof -
  from write_leases_spec[OF assms(1,2), of env] obtain st' where
    s: "write_leases env st = Some st'" "keeps_leases st st'" by blast
  from write_leases_loop_spec[OF assms(1,2), of "c_remaining (d_config st)" "g_now env" "leases_of st"]
  obtain st1 where 1: "write_leases_loop (c_remaining (d_config st)) (g_now env) (leases_of st) st = Some (st1,
      concat (map (\<lambda>l. lease_record l (stored_time (c_remaining (d_config st)) (g_now env) l))
        (filter (\<lambda>l. l_yiaddr l \<noteq> 0) (leases_of st))))" by blast
  from s(1) 1 assms(3,4) have "FileWritten f (concat (map (\<lambda>l. lease_record l (stored_time (c_remaining (d_config st)) (g_now env) l))
        (filter (\<lambda>l. l_yiaddr l \<noteq> 0) (leases_of st)))) \<in> set (d_out st')"
    by (auto simp: write_leases_def lease_table_ok[OF assms(1)] bind_eq_Some_conv)
  with s show ?thesis
    unfolding keeps_leases_def stored_time_def lease_expired_def by blast
qed

theorem write_leases_content_witness:
  "\<exists>st' bs. write_leases sample_world sample_state = Some st' \<and> server_ok st' \<and> FileWritten ''/var/leases'' bs \<in> set (d_out st')"
  using write_leases_content[OF sample_state_ok, of "''/var/leases''" sample_world]
  by (auto simp: sample_state_def sample_config_def sample_world_def)

text \<open>The only handler that can fault is the one for the reserved addresses.\<close>

definition handler_total :: "handler \<Rightarrow> bool" where
  "handler_total h \<longleftrightarrow> (\<forall>line st. h line st \<noteq> None)"

lemma config_keywords_total:
  "list_all (\<lambda>(kw, h, def). handler_total h \<or> kw = ''ReservedIpstr'' \<and> def = []) (config_keywords buf0)"
  unfolding config_keywords_def list.pred_inject prod.case
  by (simp add: handler_total_def read_ip_def read_str_def read_u32_def read_yn_def read_opt_def)

lemma apply_defaults_total:
  "list_all (\<lambda>(kw, h, def). handler_total h \<or> kw = ''ReservedIpstr'' \<and> def = []) ks \<Longrightarrow>
   \<exists>st'. apply_defaults ks st = Some st'"
  by (induction ks st rule: apply_defaults.induct) (fastforce simp: handler_total_def)+

lemma apply_handlers_total:
  "list_all (\<lambda>(kw, h, def). handler_total h \<or> kw = ''ReservedIpstr'' \<and> def = []) ks \<Longrightarrow>
   \<not> strcaseeq token ''ReservedIpstr'' \<Longrightarrow> \<exists>st'. apply_handlers ks token line st = Some st'"
  by (induction ks token line st rule: apply_handlers.induct) (fastforce simp: handler_total_def)+

lemma fgets_short: "s \<noteq> [] \<Longrightarrow> length s < 299 \<Longrightarrow> CHR 0x0A \<notin> set s \<Longrightarrow> fgets_lines 300 s = [s]"
proof -
  assume a: "s \<noteq> []" "length s < 299" "CHR 0x0A \<notin> set s"
  have "strchr (CHR 0x0A) s = None" using a(3) by (induction s) auto
  then show ?thesis using a(1,2) by (subst fgets_lines.simps, subst fgets_lines.simps) simp
qed

lemma inet_ntoa_chars: "c \<in> set (inet_ntoa a) \<Longrightarrow> is_digit c \<or> c = CHR ''.''"
  using dec_digits by (auto simp: inet_ntoa_def list_all_iff)

lemma inet_ntoa_no [simp]:
  "CHR 0x0A \<notin> set (inet_ntoa a)" "CHR ''#'' \<notin> set (inet_ntoa a)" "CHR '' '' \<notin> set (inet_ntoa a)"
  "CHR 0x09 \<notin> set (inet_ntoa a)" "CHR ''='' \<notin> set (inet_ntoa a)" "inet_ntoa a \<noteq> []"
  using inet_ntoa_chars by (fastforce simp: is_digit_def)+ (simp add: inet_ntoa_def)

lemma takeWhile_absent: "c \<notin> set s \<Longrightarrow> takeWhile (\<lambda>x. x \<noteq> c) s = s"
  by (induction s) auto

lemma config_line_start: "config_line (''start '' @ inet_ntoa a) = Some (''start'', inet_ntoa a)"
proof -
  let ?n = "inet_ntoa a"
  have c: "cut_at (CHR ''#'') (cut_at (CHR 0x0A) (''start '' @ ?n)) = ''start '' @ ?n"
    by (simp add: cut_at_def takeWhile_absent)
  have "dropWhile (\<lambda>c. is_blank c \<or> c = CHR ''='') ?n = ?n"
    using hd_in_set[of ?n] inet_ntoa_chars[of "hd ?n" a]
    by (cases ?n) (auto simp: is_blank_def is_digit_def)
  moreover have "\<not> (\<forall>x \<in> set ?n. x = CHR '' '' \<or> x = CHR 0x09 \<or> x = CHR ''='')"
    using hd_in_set[of ?n] inet_ntoa_no[of a] by metis
  ultimately show ?thesis unfolding config_line_def c by (simp add: is_blank_def Let_def)
qed

lemma strcaseeq_start:
  "list_all (\<lambda>kw. strcaseeq ''start'' kw \<longleftrightarrow> kw = ''start'') (map fst (config_keywords buf0))"
  by (simp add: config_keywords_def strcaseeq_def to_lower_def)

lemma apply_handlers_none:
  assumes "list_all (\<lambda>kw. strcaseeq token kw \<longleftrightarrow> kw = token) (map fst ks)" "token \<notin> set (map fst ks)"
  shows "apply_handlers ks token line st = Some st"
  using assms by (induction ks arbitrary: st) auto

lemma apply_handlers_one:
  assumes "list_all (\<lambda>kw. strcaseeq token kw \<longleftrightarrow> kw = token) (map fst ks)" "distinct (map fst ks)" "(token, h, def) \<in> set ks"
  shows "apply_handlers ks token line st = h line st"
  using assms
proof (induction ks arbitrary: st)
  case (Cons k ks)
  obtain kw h' def' where k: "k = (kw, h', def')" by (cases k)
  show ?case
  proof (cases "kw = token")
    case True
    with Cons(3,4) k have h: "h' = h" "token \<notin> set (map fst ks)" by force+
    have "apply_handlers ks token line st' = Some st'" for st'
      using Cons(2) h(2) by (intro apply_handlers_none) simp_all
    with h(1) True k Cons(2) show ?thesis by (cases "h line st") simp_all
  next
    case False
    with Cons k show ?thesis by auto
  qed
qed simp

lemma config_keywords_distinct: "distinct (map fst (config_keywords buf0))"
  by (simp add: config_keywords_def)

text \<open>
  C23: for every address \<open>a\<close>, a configuration file with the single line \<^verbatim>\<open>start\<close> and the printed
  form of \<open>a\<close> gives exactly the defaults with the start of the pool set to \<open>a\<close>.
\<close>

theorem read_config_start:
  "\<exists>st1. read_config buf0 (Some []) st = Some (1, st1) \<and>
     read_config buf0 (Some (''start '' @ inet_ntoa a)) st =
       Some (1, st1\<lparr>d_config := (d_config st1)\<lparr>c_start := a\<rparr>\<rparr>)"
proof -
  obtain st1 where d: "apply_defaults (config_keywords buf0) st = Some st1"
    using apply_defaults_total[OF config_keywords_total] by blast
  have e: "fgets_lines 300 [] = []" by (simp add: fgets_lines.simps)
  have f: "fgets_lines 300 (''start '' @ inet_ntoa a) = [''start '' @ inet_ntoa a]"
    using length_inet_ntoa[of a] by (intro fgets_short) simp_all
  have "(''start'', read_ip (\<lambda>v. srv1 (\<lambda>c. c\<lparr>c_start := v\<rparr>)), ''192.168.0.20'') \<in> set (config_keywords buf0)"
    by (simp add: config_keywords_def)
  from apply_handlers_one[OF strcaseeq_start config_keywords_distinct this]
  have h: "apply_handlers (config_keywords buf0) ''start'' (inet_ntoa a) st1 =
      Some (st1\<lparr>d_config := (d_config st1)\<lparr>c_start := a\<rparr>\<rparr>)"
    by (simp add: read_ip_def srv1_def inet_aton_ntoa)
  show ?thesis
    unfolding read_config_def d bind.simps option.case e f config_lines.simps config_line_start prod.case h by simp
qed

text \<open>A file that configures a router and two name servers.\<close>

theorem read_config_option_lists_witness:
  "\<exists>r st'. read_config (replicate 255 0) (Some ''opt dns 10.0.0.1,10.0.0.2'') (sample_state) = Some (r, st') \<and>
     wf_optset (c_options (d_config st')) \<and> wf_optset (c_options (d_config2 st'))"
proof -
  let ?s = "''opt dns 10.0.0.1,10.0.0.2''"
  obtain st1 where d: "apply_defaults (config_keywords (replicate 255 0)) sample_state = Some st1"
    using apply_defaults_total[OF config_keywords_total] by blast
  have f: "fgets_lines 300 ?s = [?s]" by (rule fgets_short) simp_all
  have l: "config_line ?s = Some (''opt'', ''dns 10.0.0.1,10.0.0.2'')"
    by (simp add: config_line_def cut_at_def is_blank_def Let_def)
  have n: "\<not> strcaseeq ''opt'' ''ReservedIpstr''" by (simp add: strcaseeq_def)
  obtain st2 where h: "apply_handlers (config_keywords (replicate 255 0)) ''opt'' ''dns 10.0.0.1,10.0.0.2'' st1 = Some st2"
    using apply_handlers_total[OF config_keywords_total n] by blast
  have "read_config (replicate 255 0) (Some ?s) sample_state = Some (1, st2)"
    unfolding read_config_def d bind.simps option.case f config_lines.simps l prod.case h by simp
  moreover have "wf_optset (c_options (d_config sample_state))" "wf_optset (c_options (d_config2 sample_state))"
    by (simp_all add: sample_state_def sample_config_def zero_config_def wf_optset_def)
  ultimately show ?thesis using read_config_option_lists[of "replicate 255 0" "Some ?s" sample_state 1 st2] by blast
qed

end
