(* ===== verification/Dhcp_Script.thy ===== *)
theory Dhcp_Script
  imports Dhcp_ClientPacket Dhcp_Files
begin

text \<open>
  \<^verbatim>\<open>udhcp/script.c\<close>: what the client does with a lease.  \<^verbatim>\<open>run_script\<close> forks; the child turns
  the options of the ACK into environment strings (\<^verbatim>\<open>fill_options\<close>, \<^verbatim>\<open>fill_envp\<close>), stores the
  network configuration in files and in the temporary-value server (\<^verbatim>\<open>config_save\<close>,
  \<^verbatim>\<open>file_save_route\<close>) and executes the script.  \<^verbatim>\<open>run_staticRoute\<close> runs in the client itself
  and installs the routes of option 121.  Also here, from \<^verbatim>\<open>dhcpc.c\<close>, the protocol of the
  temporary-value server (\<^verbatim>\<open>tmpfile_writevalue\<close>, \<^verbatim>\<open>tmpfile_getvalue\<close>).
\<close>

section \<open>Environment\<close>

text \<open>
  Files that can be read and written, the environment of the process, whether the calls on
  the two message queues succeed, and the contents of the files read here.  \<open>s_hspa\<close> is the
  line buffer after reading \<^verbatim>\<open>/var/HspaDataStatus\<close>.
\<close>

record script_env =
  s_readable :: "string \<Rightarrow> bool"
  s_writable :: "string \<Rightarrow> bool"
  s_hspa :: "string option"
  s_cfmqueue :: bool
  s_tmpqueue :: bool
  s_tmpsend :: bool
  s_environ :: "string list"
  s_tr069 :: tr069_env

definition sprintf :: "nat \<Rightarrow> string \<Rightarrow> string option" where
  "sprintf n s = (if length s < n then Some s else None)"

definition dotted :: "u8 list \<Rightarrow> string" where
  "dotted b = dec (unat (b ! 0)) @ ''.'' @ dec (unat (b ! 1)) @ ''.'' @ dec (unat (b ! 2)) @ ''.'' @
     dec (unat (b ! 3))"

definition dec_signed :: "int \<Rightarrow> string" where
  "dec_signed n = (if n < 0 then ''-'' @ dec (nat (- n)) else dec (nat n))"

section \<open>The temporary-value server\<close>

text \<open>\<^verbatim>\<open>tmpfile_writevalue\<close>: the message sent, and the result.\<close>

definition tmpfile_writevalue :: "script_env \<Rightarrow> string \<Rightarrow> string \<Rightarrow> effect list \<times> int" where
  "tmpfile_writevalue e name val =
     (if 16 \<le> length name \<or> 512 \<le> length val then ([], - 1)
      else if \<not> s_tmpqueue e then ([], - 1)
      else if \<not> s_tmpsend e then ([], - 1)
      else ([Tmpfile name val], 0))"

record tmp_msg =
  t_serial :: int
  t_result :: int
  t_value :: string

text \<open>
  The wait for the answer: each element is the outcome of one \<^verbatim>\<open>msgrcv\<close> that does not block,
  \<open>None\<close> when the queue holds nothing for this process.  After the last one the queue stays
  empty, and ten empty looks end the wait.
\<close>

fun getvalue_loop :: "int \<Rightarrow> nat \<Rightarrow> tmp_msg option list \<Rightarrow> tmp_msg option" where
  "getvalue_loop serial retries [] = None"
| "getvalue_loop serial retries (None # es) =
     (if 10 \<le> retries + 1 then None else getvalue_loop serial (retries + 1) es)"
| "getvalue_loop serial retries (Some m # es) =
     (if t_serial m = serial then Some m else getvalue_loop serial retries es)"

text \<open>
  \<open>buf\<close> is the caller's buffer, \<open>len\<close> what \<^verbatim>\<open>*piLen\<close> says of it, \<open>serial\<close> the
  number of the request.  The value is compared with \<open>len\<close> without its terminating NUL.
  The result is the buffer, the return value and the number of the next request.
\<close>

definition tmpfile_getvalue ::
  "script_env \<Rightarrow> tmp_msg option list \<Rightarrow> int \<Rightarrow> string \<Rightarrow> u8 list \<Rightarrow> nat \<Rightarrow> (u8 list \<times> int \<times> int) option" where
  "tmpfile_getvalue e answers serial name buf len =
     (if 16 \<le> length name then Some (buf, - 1, serial)
      else if \<not> s_tmpqueue e then Some (buf, - 1, serial)
      else if \<not> s_tmpsend e then Some (buf, - 1, serial + 1)
      else case getvalue_loop serial 0 answers of
        None \<Rightarrow> Some (buf, - 1, serial + 1)
      | Some m \<Rightarrow>
          if t_result m \<noteq> 0 then Some (buf, - 1, serial + 1)
          else if len < length (t_value m) then Some (buf, - 1, serial + 1)
          else do {
            buf' \<leftarrow> memcpy buf 0 (bytes_of (t_value m) @ [0]);
            Some (buf', 0, serial + 1) })"

section \<open>The text of an option\<close>

definition option_is_ip :: "nat \<Rightarrow> bool" where
  "option_is_ip len \<longleftrightarrow> len = 4 \<or> len = 8"

definition max_option_length :: "nat \<Rightarrow> u8 \<Rightarrow> nat" where
  "max_option_length len flags = (let t = flags AND TYPE_MASK in
     if t = OPTION_IP \<or> t = OPTION_IP_PAIR then len div 4 * 17
     else if t = OPTION_STRING then len + 1
     else if t = OPTION_BOOLEAN then len * 5
     else if t = OPTION_U8 then len * 5
     else if t = OPTION_U16 then len div 2 * 7
     else if t = OPTION_S16 then len div 2 * 8
     else if t = OPTION_U32 then len div 4 * 12
     else if t = OPTION_S32 then len div 4 * 13
     else 0)"

text \<open>The static variables of \<^verbatim>\<open>script.c\<close>, as the C strings they hold.\<close>

record script_vars =
  p_local_ip :: string
  p_router_ip :: string
  p_dns_ip :: string
  p_subnet_ip :: string
  p_root_path :: string
  p_timezone :: string
  p_logsvr1 :: string
  p_logsvr2 :: string
  p_logsvr_string :: string
  p_hostname :: string
  p_domain :: string
  p_ntpsvr1 :: string
  p_ntpsvr2 :: string
  p_ntpsvr_string :: string
  p_tftpsvr1 :: string
  p_tftpsvr2 :: string
  p_tftp_string :: string
  p_bootfile :: string
  p_option_43 :: string
  p_option_121 :: "u8 list"
  p_opt_seqnum :: nat
  p_out :: "effect list"

definition zero_vars :: script_vars where
  "zero_vars = \<lparr>p_local_ip = [], p_router_ip = [], p_dns_ip = [], p_subnet_ip = [], p_root_path = [],
     p_timezone = [], p_logsvr1 = [], p_logsvr2 = [], p_logsvr_string = [], p_hostname = [], p_domain = [],
     p_ntpsvr1 = [], p_ntpsvr2 = [], p_ntpsvr_string = [], p_tftpsvr1 = [], p_tftpsvr2 = [],
     p_tftp_string = [], p_bootfile = [], p_option_43 = [], p_option_121 = [], p_opt_seqnum = 0, p_out = []\<rparr>"

text \<open>Printing at \<^verbatim>\<open>dest\<close>, with its NUL, and storing a single character there.\<close>

definition put :: "nat \<Rightarrow> string \<Rightarrow> string \<Rightarrow> string option" where
  "put cap dest s = (if length dest + length s + 1 \<le> cap then Some (dest @ s) else None)"

definition put_char :: "nat \<Rightarrow> string \<Rightarrow> char \<Rightarrow> string option" where
  "put_char cap dest c = (if length dest + 1 \<le> cap then Some (dest @ [c]) else None)"

text \<open>The option as a C string in a variable.\<close>

definition text_of :: "u8 list \<Rightarrow> string" where
  "text_of bs = str_of (cstr bs)"

definition note_server :: "string \<Rightarrow> string \<Rightarrow> script_vars \<Rightarrow> script_vars" where
  "note_server name ip v =
     (let first = (p_opt_seqnum v = 0);
          v' = v\<lparr>p_opt_seqnum := (if first then p_opt_seqnum v + 1 else 0)\<rparr> in
      if name = ''logsvr'' then (if first then v'\<lparr>p_logsvr1 := ip\<rparr> else v'\<lparr>p_logsvr2 := ip\<rparr>)
      else if name = ''tftp'' then (if first then v'\<lparr>p_tftpsvr1 := ip\<rparr> else v'\<lparr>p_tftpsvr2 := ip\<rparr>)
      else if name = ''ntpsvr'' then (if first then v'\<lparr>p_ntpsvr1 := ip\<rparr> else v'\<lparr>p_ntpsvr2 := ip\<rparr>)
      else v)"

definition note_server_string :: "string \<Rightarrow> u8 list \<Rightarrow> script_vars \<Rightarrow> script_vars" where
  "note_server_string name bs v =
     (if length bs \<ge> 128 then v
      else if name = ''logsvr'' then v\<lparr>p_logsvr_string := text_of bs\<rparr>
      else if name = ''ntpsvr'' then v\<lparr>p_ntpsvr_string := text_of bs\<rparr>
      else if name = ''tftp'' then v\<lparr>p_tftp_string := text_of bs\<rparr>
      else v)"

definition note_address :: "string \<Rightarrow> string \<Rightarrow> script_vars \<Rightarrow> script_vars option" where
  "note_address name ip v =
     (if name = ''dns'' then do {
        d \<leftarrow> sprintf 128 (p_dns_ip v @ ''nameserver '' @ ip @ [CHR 0x0A]);
        Some (v\<lparr>p_dns_ip := d\<rparr>) }
      else if name = ''router'' then Some (v\<lparr>p_router_ip := ip\<rparr>)
      else if name = ''subnet'' then Some (v\<lparr>p_subnet_ip := ip\<rparr>)
      else if name = ''ntpsvr'' then Some (note_server name ip v)
      else Some v)"

text \<open>
  One pass of the \<^verbatim>\<open>switch\<close> for a type other than \<^verbatim>\<open>OPTION_STRING\<close>: the new \<^verbatim>\<open>dest\<close>, the
  variables, and \<^verbatim>\<open>optlen\<close>.  \<^verbatim>\<open>OPTION_IP_STRING\<close> falls through into \<^verbatim>\<open>OPTION_IP\<close>.
\<close>

definition fill_value ::
  "nat \<Rightarrow> u8 list \<Rightarrow> string \<Rightarrow> u8 \<Rightarrow> nat \<Rightarrow> nat \<Rightarrow> string \<Rightarrow> script_vars \<Rightarrow> (string \<times> script_vars \<times> nat) option" where
  "fill_value cap img name t q len dest v =
     (if t = OPTION_IP_STRING \<or> t = OPTION_IP then do {
        b \<leftarrow> rdn img q 4;
        bs \<leftarrow> (if t = OPTION_IP_STRING then rdn img q len else Some []);
        let v1 = (if t = OPTION_IP_STRING
             then (if option_is_ip len then note_server name (dotted b) v else note_server_string name bs v)
             else v);
        let n = (if t = OPTION_IP_STRING \<and> \<not> option_is_ip len then 128 else 4);
        d \<leftarrow> put cap dest (dotted b);
        v2 \<leftarrow> note_address name (dotted b) v1;
        Some (d, v2, n) }
      else if t = OPTION_IP_PAIR then do {
        b \<leftarrow> rdn img q 8;
        d \<leftarrow> put cap dest (dotted b @ '', '' @ dotted (drop 4 b));
        Some (d, v, 8) }
      else if t = OPTION_BOOLEAN then do {
        b \<leftarrow> rd img q;
        d \<leftarrow> put cap dest (if b \<noteq> 0 then ''yes'' else ''no'');
        Some (d, v, 1) }
      else if t = OPTION_U8 then do {
        b \<leftarrow> rd img q;
        d \<leftarrow> put cap dest (dec (unat b));
        Some (d, v, 1) }
      else if t = OPTION_U16 \<or> t = OPTION_S16 then do {
        b \<leftarrow> rdn img q 2;
        d \<leftarrow> put cap dest (dec (unat (be16 (b ! 0) (b ! 1))));
        Some (d, v, 2) }
      else if t = OPTION_U32 then do {
        w \<leftarrow> rd32 img q;
        d \<leftarrow> put cap dest (dec (unat w));
        Some (d, v, 4) }
      else if t = OPTION_S32 then do {
        w \<leftarrow> rd32 img q;
        d \<leftarrow> put cap dest (dec_signed (sint w));
        tz \<leftarrow> (if name = ''timezone'' then sprintf 8 (dec_signed (sint w)) else Some (p_timezone v));
        Some (d, v\<lparr>p_timezone := tz\<rparr>, 4) }
      else Some (dest, v, 0))"

function fill_loop ::
  "nat \<Rightarrow> u8 list \<Rightarrow> string \<Rightarrow> u8 \<Rightarrow> nat \<Rightarrow> nat \<Rightarrow> string \<Rightarrow> script_vars \<Rightarrow> (string \<times> script_vars) option" where
  "fill_loop cap img name t q len dest v = do {
     (d, v', optlen) \<leftarrow> fill_value cap img name t q len dest v;
     if len \<le> optlen then Some (d, v')
     else if optlen = 0 then None
     else do {
       d' \<leftarrow> put_char cap d (CHR '' '');
       fill_loop cap img name t (q + optlen) (len - optlen) d' v' } }"
  by pat_completeness auto
termination
  by (relation "measure (\<lambda>(cap, img, name, t, q, len, dest, v). len)") auto

declare fill_loop.simps [simp del]

definition note_string :: "tr069_env \<Rightarrow> string \<Rightarrow> u8 list \<Rightarrow> script_vars \<Rightarrow> script_vars" where
  "note_string tr name bs v =
     (let short = length bs < 128 in
      if name = ''option121'' \<and> short then v\<lparr>p_option_121 := bs\<rparr>
      else if name = ''hostname'' \<and> short then v\<lparr>p_hostname := text_of bs\<rparr>
      else if name = ''domain'' \<and> short then v\<lparr>p_domain := text_of bs\<rparr>
      else if name = ''tftp'' \<and> short then v\<lparr>p_tftp_string := text_of bs\<rparr>
      else if name = ''bootfile'' \<and> short then v\<lparr>p_bootfile := text_of bs\<rparr>
      else if name = ''tr069acs'' \<and> length bs \<le> 256 then
        v\<lparr>p_option_43 := text_of bs,
          p_out := p_out v @ (case snd (TR069_SendMessage tr 5 bs (length bs)) of
             None \<Rightarrow> [] | Some (k, m) \<Rightarrow> [Tr069 k m])\<rparr>
      else if name = ''rootpath'' \<and> length bs < 256 then v\<lparr>p_root_path := text_of bs\<rparr>
      else v)"

text \<open>\<open>cap\<close> is the size of the block \<^verbatim>\<open>dest\<close> points to, \<open>q\<close> the offset of the value in the message.\<close>

definition fill_options ::
  "tr069_env \<Rightarrow> nat \<Rightarrow> u8 list \<Rightarrow> nat \<Rightarrow> dhcp_option \<Rightarrow> script_vars \<Rightarrow> (string \<times> script_vars) option" where
  "fill_options tr cap img q opt v = do {
     l \<leftarrow> rd img (q - 1);
     let len = unat l;
     dest \<leftarrow> put cap [] (o_name opt @ ''='');
     let t = o_flags opt AND TYPE_MASK;
     if t = OPTION_STRING then do {
       bs \<leftarrow> rdn img q len;
       d \<leftarrow> put cap dest (str_of bs);
       Some (d, note_string tr (o_name opt) bs v) }
     else fill_loop cap img (o_name opt) t q len dest v }"

section \<open>Classless static routes\<close>

text \<open>\<open>mask ! k\<close> has the \<open>k + 1\<close> most significant bits of a byte set.\<close>

definition mask_table :: "u8 list" where
  "mask_table = [128, 192, 224, 240, 248, 252, 254, 255]"

definition route_line :: "u8 list \<Rightarrow> u8 list \<Rightarrow> u8 list \<Rightarrow> string" where
  "route_line dest msk gw = dotted dest @ '' '' @ dotted msk @ '' '' @ dotted gw @ [CHR 0x0A]"

text \<open>
  The loop over option 121 at index \<open>i\<close>: the default gateway and the text of the route
  file so far.  A mask width above 32 or an entry that is cut off ends the loop.
\<close>

function route_loop :: "u8 list \<Rightarrow> nat \<Rightarrow> string \<times> string \<Rightarrow> string \<times> string" where
  "route_loop opt i (router, out) =
     (if i \<ge> length opt then (router, out)
      else let w = unat (opt ! i) in
        if w = 0 \<and> i + 4 < length opt then route_loop opt (i + 5) (dotted (slice opt (i + 1) 4), out)
        else if 1 \<le> w \<and> w \<le> 8 \<and> i + 5 < length opt then
          (let m = mask_table ! (w - 1) in
           route_loop opt (i + 6) (router, out @
             route_line [opt ! (i + 1) AND m, 0, 0, 0] [m, 0, 0, 0] (slice opt (i + 2) 4)))
        else if 9 \<le> w \<and> w \<le> 16 \<and> i + 6 < length opt then
          (let m = mask_table ! (w - 9) in
           route_loop opt (i + 7) (router, out @
             route_line [opt ! (i + 1), opt ! (i + 2) AND m, 0, 0] [255, m, 0, 0] (slice opt (i + 3) 4)))
        else if 17 \<le> w \<and> w \<le> 24 \<and> i + 7 < length opt then
          (let m = mask_table ! (w - 17) in
           route_loop opt (i + 8) (router, out @
             route_line [opt ! (i + 1), opt ! (i + 2), opt ! (i + 3) AND m, 0] [255, 255, m, 0]
               (slice opt (i + 4) 4)))
        else if 25 \<le> w \<and> w \<le> 32 \<and> i + 8 < length opt then
          (let m = mask_table ! (w - 25) in
           route_loop opt (i + 9) (router, out @
             route_line [opt ! (i + 1), opt ! (i + 2), opt ! (i + 3), opt ! (i + 4) AND m] [255, 255, 255, m]
               (slice opt (i + 5) 4)))
        else (router, out))"
  by pat_completeness auto
termination
  by (relation "measure (\<lambda>(opt, i, r). length opt - i)") auto

declare route_loop.simps [simp del]

definition WAN_ROOT :: string where "WAN_ROOT = ''/var/fyi/sys''"
definition WAN_DIR :: string where "WAN_DIR = ''/proc/var/fyi/wan''"

definition file_save_route :: "script_env \<Rightarrow> string \<Rightarrow> script_vars \<Rightarrow> script_vars option" where
  "file_save_route e session v =
     (if session = [] then Some v
      else do {
        stpath \<leftarrow> sprintf 128 (WAN_ROOT @ ''/'' @ session @ ''/staticroute'');
        dfpath \<leftarrow> sprintf 128 (WAN_ROOT @ ''/'' @ session @ ''/gateway'');
        if s_writable e stpath then
          (let (router, out) = route_loop (p_option_121 v) 0 (p_router_ip v, []) in
           Some (v\<lparr>p_router_ip := router, p_out := p_out v @ [FileWritten stpath (bytes_of out)]\<rparr>))
        else Some v })"

section \<open>Storing the configuration\<close>

definition say :: "script_vars \<Rightarrow> effect list \<Rightarrow> script_vars" where
  "say v es = v\<lparr>p_out := p_out v @ es\<rparr>"

definition file_save :: "script_env \<Rightarrow> string \<Rightarrow> string \<Rightarrow> bool \<Rightarrow> effect list" where
  "file_save e path content check =
     (if check \<and> s_readable e path then []
      else if s_writable e path then [FileWritten path (bytes_of content @ [10])] else [])"

text \<open>A command or a path printed into a buffer of 128 bytes.\<close>

definition save_at :: "script_env \<Rightarrow> string \<Rightarrow> string \<Rightarrow> bool \<Rightarrow> script_vars \<Rightarrow> script_vars option" where
  "save_at e path content check v = do {
     p \<leftarrow> sprintf 128 path;
     Some (say v (file_save e p content check)) }"

definition command :: "string \<Rightarrow> script_vars \<Rightarrow> script_vars option" where
  "command cmd v = do { c \<leftarrow> sprintf 128 cmd; Some (say v [SystemCmd c]) }"

definition tmp_value :: "script_env \<Rightarrow> string \<Rightarrow> string \<Rightarrow> effect list" where
  "tmp_value e name val = fst (tmpfile_writevalue e name val)"

definition hspa_data :: "script_env \<Rightarrow> bool" where
  "hspa_data e = (case s_hspa e of None \<Rightarrow> False | Some line \<Rightarrow> CHR ''1'' \<in> set line)"

text \<open>The address, the mask, the name servers and the gateway.\<close>

definition save_addresses :: "script_env \<Rightarrow> string \<Rightarrow> script_vars \<Rightarrow> script_vars option" where
  "save_addresses e session v = (let data = hspa_data e in do {
     v1 \<leftarrow> save_at e (if session \<noteq> [] then WAN_DIR @ ''/'' @ session @ ''/ipaddress'' else []) (p_local_ip v) False v;
     v2 \<leftarrow> (if p_subnet_ip v \<noteq> []
            then save_at e (if session \<noteq> [] then WAN_DIR @ ''/'' @ session @ ''/subnetmask'' else [])
                   (p_subnet_ip v) False v1
            else Some v1);
     v3 \<leftarrow> command (''mkdir -p '' @ WAN_ROOT) v2;
     v4 \<leftarrow> (if p_dns_ip v = [] then Some v3
            else if \<not> data then Some (say v3 (file_save e ''/var/fyi/sys/dynamicdns'' (p_dns_ip v) True))
            else command ''echo 0 >/var/HspaDataStatus''
              (say v3 (file_save e ''/var/fyi/sys/dynamicdns'' (p_dns_ip v) False)));
     Some (if p_router_ip v = [] then v4
           else say v4 (file_save e ''/var/fyi/sys/gateway'' (p_router_ip v)
                  (\<not> (p_dns_ip v \<noteq> [] \<and> data)))) })"

text \<open>What is stored for the interface of the session, the routes of option 121 included.\<close>

definition save_session :: "script_env \<Rightarrow> string \<Rightarrow> script_vars \<Rightarrow> script_vars option" where
  "save_session e session v =
     (if session = [] then Some v
      else do {
        let dir = WAN_ROOT @ ''/'' @ session;
        v1 \<leftarrow> (if p_dns_ip v = [] then Some v
               else do {
                 v' \<leftarrow> command (''mkdir -p '' @ dir) v;
                 save_at e (dir @ ''/dns'') (p_dns_ip v) False v' });
        let v2 = say v1 (if s_cfmqueue e then [QueueMsg 3 (take 127 session)] else []);
        v3 \<leftarrow> (if p_option_121 v2 \<noteq> [] \<and> p_option_121 v2 ! 0 \<noteq> 0 then file_save_route e session v2 else Some v2);
        (if p_router_ip v3 = [] then Some v3
         else do {
           v4 \<leftarrow> command (''mkdir -p '' @ dir) v3;
           save_at e (dir @ ''/gateway'') (p_router_ip v3) False v4 }) })"

definition tmp_unless_empty :: "script_env \<Rightarrow> string \<Rightarrow> string \<Rightarrow> effect list" where
  "tmp_unless_empty e name val = (if val = [] then [] else tmp_value e name val)"

definition save_values :: "script_env \<Rightarrow> script_vars \<Rightarrow> effect list" where
  "save_values e v =
     tmp_value e ''RootPath'' (p_root_path v) @
     tmp_unless_empty e ''timezone'' (p_timezone v) @
     (if p_logsvr1 v = [] then []
      else tmp_value e ''logsvr1'' (p_logsvr1 v) @ tmp_unless_empty e ''logsvr2'' (p_logsvr2 v)) @
     tmp_unless_empty e ''logsvr_string'' (p_logsvr_string v) @
     (if p_tftpsvr1 v = [] then []
      else tmp_value e ''tftpsvr1'' (p_tftpsvr1 v) @ tmp_unless_empty e ''tftpsvr2'' (p_tftpsvr2 v)) @
     tmp_unless_empty e ''tftp_string'' (p_tftp_string v) @
     tmp_unless_empty e ''hostname'' (p_hostname v) @
     tmp_unless_empty e ''domain'' (p_domain v) @
     (if p_ntpsvr1 v = [] then []
      else tmp_value e ''ntpsvr1'' (p_ntpsvr1 v) @ tmp_unless_empty e ''ntpsvr2'' (p_ntpsvr2 v)) @
     tmp_unless_empty e ''ntpsvr_string'' (p_ntpsvr_string v) @
     tmp_unless_empty e ''tftp_string'' (p_tftp_string v) @
     tmp_unless_empty e ''bootfile'' (p_bootfile v) @
     tmp_unless_empty e ''option_43'' (p_option_43 v)"

definition config_save :: "script_env \<Rightarrow> string \<Rightarrow> string \<Rightarrow> script_vars \<Rightarrow> script_vars option" where
  "config_save e session ifname v = do {
     v1 \<leftarrow> save_addresses e session v;
     v2 \<leftarrow> save_session e session v1;
     v3 \<leftarrow> (if p_dns_ip v2 = [] then Some v2
            else save_at e (WAN_DIR @ ''/'' @ session @ ''/dns'') (p_dns_ip v2) False v2);
     v4 \<leftarrow> (if p_router_ip v3 = [] then Some v3
            else do {
              f \<leftarrow> sprintf 128 (''gw_'' @ ifname);
              Some (say v3 (tmp_value e f (p_router_ip v3))) });
     Some (say v4 (save_values e v4)) }"

section \<open>The environment of the script\<close>

definition find_env :: "script_env \<Rightarrow> string \<Rightarrow> string \<Rightarrow> string" where
  "find_env e prefix defaultstr =
     (case find (is_prefix prefix) (s_environ e) of None \<Rightarrow> defaultstr | Some x \<Rightarrow> x)"

text \<open>The loop over the table of options; each option gets a block of its own size.\<close>

fun option_strings ::
  "tr069_env \<Rightarrow> dhcpMessage \<Rightarrow> dhcp_option list \<Rightarrow> script_vars \<Rightarrow> (string list \<times> script_vars) option" where
  "option_strings tr p [] v = Some ([], v)"
| "option_strings tr p (opt # opts) v = do {
     g \<leftarrow> get_option p (o_code opt);
     (case g of
        None \<Rightarrow> option_strings tr p opts v
      | Some q \<Rightarrow> do {
          l \<leftarrow> rd (message_image p) (q - 1);
          (s, v1) \<leftarrow> fill_options tr (max_option_length (unat l) (o_flags opt) + length (o_name opt) + 2)
                        (message_image p) q opt v;
          (ss, v2) \<leftarrow> option_strings tr p opts v1;
          Some (s # ss, v2) }) }"

fun count_options :: "dhcpMessage \<Rightarrow> dhcp_option list \<Rightarrow> nat option" where
  "count_options p [] = Some 0"
| "count_options p (opt # opts) = do {
     g \<leftarrow> get_option p (o_code opt);
     n \<leftarrow> count_options p opts;
     Some (if g = None then n else n + 1) }"

definition overload :: "dhcpMessage \<Rightarrow> u8 option" where
  "overload p = do {
     g \<leftarrow> get_option p DHCP_OPTION_OVER;
     (case g of None \<Rightarrow> Some 0 | Some q \<Rightarrow> rd (message_image p) q) }"

text \<open>
  The array of strings has \<^verbatim>\<open>num_options + 5\<close> slots, the last of them for the closing
  \<^verbatim>\<open>NULL\<close>.  \<^verbatim>\<open>siaddr\<close> is printed from \<^verbatim>\<open>yiaddr\<close>.
\<close>

definition fill_envp ::
  "script_env \<Rightarrow> string \<Rightarrow> string \<Rightarrow> dhcpMessage option \<Rightarrow> (string list \<times> script_vars) option" where
  "fill_envp e session ifname packet =
     (let head = (\<lambda>ip. [''interface='' @ ifname, ''ip='' @ ip,
            find_env e ''PATH'' ''PATH=/bin:/usr/bin:/sbin:/usr/sbin'', find_env e ''HOME'' ''HOME=/'']) in
      case packet of
        None \<Rightarrow> Some (head ''0.0.0.0'', zero_vars)
      | Some p \<Rightarrow> do {
          n \<leftarrow> count_options p options;
          over \<leftarrow> overload p;
          let yi = dotted (be32_bytes (m_yiaddr p));
          let with_si = (m_siaddr p \<noteq> 0);
          let with_file = (over AND 1 = 0 \<and> m_file p ! 0 \<noteq> 0);
          let with_sname = (over AND 2 = 0 \<and> m_sname p ! 0 \<noteq> 0);
          let num = n + (if with_si then 1 else 0) + (if with_file then 1 else 0) + (if with_sname then 1 else 0);
          (ss, v) \<leftarrow> option_strings (s_tr069 e) p options (zero_vars\<lparr>p_local_ip := yi\<rparr>);
          let envp = head yi @ ss @ (if with_si then [''siaddr='' @ yi] else []) @
             (if with_file then [''boot_file='' @ text_of ((m_file p)[127 := 0])] else []) @
             (if with_sname then [''sname='' @ text_of ((m_sname p)[63 := 0])] else []);
          if length envp + 1 \<le> num + 5 then do {
            v' \<leftarrow> config_save e session ifname v;
            Some (envp, v') }
          else None })"

text \<open>
  The child process inherits the variables as they are in the client, which never changes
  them, so they are zero.  What the child did before an access outside a buffer is left open.
\<close>

definition run_script ::
  "script_env \<Rightarrow> bool \<Rightarrow> client_config \<Rightarrow> string \<Rightarrow> dhcpMessage option \<Rightarrow> string \<Rightarrow> effect list" where
  "run_script e fork cfg session packet name =
     (case q_script cfg of None \<Rightarrow> []
      | Some script \<Rightarrow>
          if \<not> fork then []
          else case fill_envp e session (q_Interface cfg) packet of
            None \<Rightarrow> [ChildFault]
          | Some (envp, v) \<Rightarrow> p_out v @ [Exec script name envp])"

section \<open>Installing the static routes\<close>

text \<open>
  The three words of a line, each in an array of 16 bytes.  A line with fewer words leaves
  the rest as it was; \<open>None\<close> inside stands for an array nothing was stored in yet.
\<close>

type_synonym words3 = "string option \<times> string option \<times> string option"

fun split_space :: "string \<Rightarrow> string list" where
  "split_space [] = [[]]"
| "split_space (c # s) =
     (if is_space c then [] # split_space s
      else case split_space s of [] \<Rightarrow> [[c]] | w # ws \<Rightarrow> (c # w) # ws)"

definition words_of :: "string \<Rightarrow> string list" where
  "words_of line = filter (\<lambda>w. w \<noteq> []) (split_space line)"

definition scan3 :: "string \<Rightarrow> words3 \<Rightarrow> words3 option" where
  "scan3 line old =
     (let ws = words_of line; (a, m, g) = old in
      if \<exists>w \<in> set (take 3 ws). length w \<ge> 16 then None
      else Some (if length ws > 0 then Some (ws ! 0) else a,
                 if length ws > 1 then Some (ws ! 1) else m,
                 if length ws > 2 then Some (ws ! 2) else g))"

definition route_command :: "string \<Rightarrow> string \<Rightarrow> words3 \<Rightarrow> (string \<times> string) option" where
  "route_command op session w = (case w of
      (Some addr, Some msk, Some gtwy) \<Rightarrow> do {
        c \<leftarrow> sprintf 264 (''route '' @ op @ '' -net '' @ addr @ '' netmask '' @ msk @ '' metric 1'' @
              (if gtwy \<noteq> ''0.0.0.0'' then '' gw '' @ gtwy else []) @ '' dev '' @ session @ '' 2>/dev/null'');
        Some (c, gtwy) }
    | _ \<Rightarrow> None)"

fun delete_routes :: "string \<Rightarrow> words3 \<Rightarrow> string list \<Rightarrow> (effect list \<times> words3) option" where
  "delete_routes session w [] = Some ([], w)"
| "delete_routes session w (line # ls) = do {
     w' \<leftarrow> scan3 line w;
     (c, g) \<leftarrow> route_command ''del'' session w';
     (es, w2) \<leftarrow> delete_routes session w' ls;
     Some (SystemCmd c # es, w2) }"

text \<open>\<^verbatim>\<open>gGwIp\<close> collects up to 16 different gateways; \<open>k\<close> is \<^verbatim>\<open>entryIndex\<close>.\<close>

definition note_gateway :: "string \<Rightarrow> string list \<times> nat \<Rightarrow> string list \<times> nat" where
  "note_gateway gtwy r = (let (gws, k) = r in
     if gtwy = ''0.0.0.0'' \<or> gtwy \<in> set (take k gws) \<or> k \<ge> 16 then (gws, k)
     else (gws[k := gtwy], k + 1))"

fun add_routes ::
  "string \<Rightarrow> words3 \<Rightarrow> string list \<times> nat \<Rightarrow> string list \<Rightarrow> (effect list \<times> string list \<times> nat) option" where
  "add_routes session w r [] = Some ([], r)"
| "add_routes session w r (line # ls) = do {
     w' \<leftarrow> scan3 line w;
     (c, g) \<leftarrow> route_command ''add'' session w';
     (es, r') \<leftarrow> add_routes session w' (note_gateway g r) ls;
     Some (SystemCmd c # es, r') }"

text \<open>
  The files the routes are read from: what option 121 left there, and what was installed
  last time; and whether the second can be opened for writing.
\<close>

record route_files =
  h_new :: "string option"
  h_old :: "string option"
  h_old_writable :: bool

definition run_staticRoute ::
  "route_files \<Rightarrow> string \<Rightarrow> string list \<Rightarrow> (effect list \<times> string list) option" where
  "run_staticRoute h session gws = do {
     f \<leftarrow> sprintf 264 (''/var/fyi/sys/'' @ session @ ''/staticroute'');
     old \<leftarrow> sprintf 264 (''/var/fyi/sys/'' @ session @ ''/oldstaticroute'');
     (case h_new h of None \<Rightarrow> Some ([], gws)
      | Some new \<Rightarrow>
         (case h_old h of None \<Rightarrow> Some ([], gws)
          | Some o_ls \<Rightarrow> do {
              (es1, w) \<leftarrow> delete_routes session (None, None, None) (fgets_lines 264 o_ls);
              (es2, gws', k) \<leftarrow> add_routes session w (gws, 0) (fgets_lines 264 new);
              rm \<leftarrow> sprintf 264 (''rm -rf '' @ f);
              Some (es1 @ es2 @ (if h_old_writable h then [FileWritten old (bytes_of new)] else []) @
                    [SystemCmd rm], gws') })) }"

section \<open>Texts fit their blocks\<close>

lemma length_dotted: "length (dotted b) \<le> 15"
proof -
  have "length (dec (unat (x :: u8))) \<le> 3" for x using unat_u8[of x] by (intro length_dec_le3) simp
  from this[of "b ! 0"] this[of "b ! 1"] this[of "b ! 2"] this[of "b ! 3"] show ?thesis
    by (simp add: dotted_def)
qed

text \<open>Bytes per element of a list-valued option, and the longest text of an element.\<close>

definition element_size :: "u8 \<Rightarrow> nat" where
  "element_size t = nat (option_lengths t)"

definition element_text :: "u8 \<Rightarrow> nat" where
  "element_text t =
     (if t = OPTION_IP then 15 else if t = OPTION_IP_PAIR then 32 else if t = OPTION_BOOLEAN then 3
      else if t = OPTION_U8 then 3 else if t = OPTION_U16 \<or> t = OPTION_S16 then 5
      else if t = OPTION_U32 then 10 else 11)"

definition plain_type :: "u8 \<Rightarrow> bool" where
  "plain_type t \<longleftrightarrow> t \<in> {OPTION_IP, OPTION_IP_PAIR, OPTION_BOOLEAN, OPTION_U8, OPTION_U16, OPTION_S16,
     OPTION_U32, OPTION_S32}"

text \<open>
  What the two variables that are filled without a check need: room for a name server, and a
  time zone of at most seven characters.
\<close>

definition value_fits :: "u8 list \<Rightarrow> string \<Rightarrow> u8 \<Rightarrow> nat \<Rightarrow> script_vars \<Rightarrow> bool" where
  "value_fits img name t q v \<longleftrightarrow> (name = ''dns'' \<longrightarrow> length (p_dns_ip v) + 27 < 128) \<and>
     (name = ''timezone'' \<and> t = OPTION_S32 \<longrightarrow> length (dec_signed (sint (the (rd32 img q)))) < 8)"

lemma note_server_dns [simp]: "p_dns_ip (note_server name ip v) = p_dns_ip v"
  by (simp add: note_server_def Let_def)

lemma note_address_total:
  assumes "length ip \<le> 15" "name = ''dns'' \<longrightarrow> length (p_dns_ip v) + 27 < 128"
  shows "\<exists>v'. note_address name ip v = Some v' \<and> length (p_dns_ip v') \<le> length (p_dns_ip v) + 27"
proof (cases "name = ''dns''")
  case True
  with assms have "length (p_dns_ip v @ ''nameserver '' @ ip @ [CHR 0x0A]) < 128" by simp
  then show ?thesis using assms(1) unfolding note_address_def True by (simp add: sprintf_def)
next
  case False
  then show ?thesis unfolding note_address_def by (simp only: if_False if_split) simp
qed

lemma length_dec_word: "length (dec (unat (w :: u32))) \<le> 10" "length (dec_signed (sint (w :: u32))) \<le> 11"
proof -
  show "length (dec (unat w)) \<le> 10" using unat_u32[of w] by (intro length_dec) simp_all
  have b: "- 2147483648 \<le> sint w" "sint w < 2147483648"
    using sint_greater_eq[of w] sint_less[of w] by simp_all
  then have "length (dec (nat (sint w))) \<le> 10" "length (dec (nat (- sint w))) \<le> 10"
    by (auto intro!: length_dec simp: nat_less_iff)
  then show "length (dec_signed (sint w)) \<le> 11" by (simp add: dec_signed_def)
qed

lemma fill_value_fits:
  assumes "plain_type t" "q + element_size t \<le> length img" "length dest + element_text t + 1 \<le> cap"
    "value_fits img name t q v"
  shows "\<exists>d v'. fill_value cap img name t q len dest v = Some (dest @ d, v', element_size t) \<and>
    length d \<le> element_text t \<and> length (p_dns_ip v') \<le> length (p_dns_ip v) + 27"
proof -
  have dq: "length (dotted b) \<le> 15" for b by (rule length_dotted)
  have u8: "length (dec (unat (x :: u8))) \<le> 3" for x using unat_u8[of x] by (intro length_dec_le3) simp
  have u16: "length (dec (unat (x :: u16))) \<le> 5" for x using unat_u16[of x] by (intro length_dec) simp_all
  consider "t = OPTION_IP" | "t = OPTION_IP_PAIR" | "t = OPTION_BOOLEAN" | "t = OPTION_U8" | "t = OPTION_U16"
    | "t = OPTION_S16" | "t = OPTION_U32" | "t = OPTION_S32" using assms(1) by (auto simp: plain_type_def)
  then show ?thesis
  proof cases
    case 1
    let ?ip = "dotted (slice img q 4)"
    from note_address_total[OF dq, of name v] assms(4) obtain v' where
      v': "note_address name ?ip v = Some v'" "length (p_dns_ip v') \<le> length (p_dns_ip v) + 27"
      by (auto simp: value_fits_def)
    with assms(2,3) 1 dq[of "slice img q 4"] show ?thesis
      by (simp add: fill_value_def element_size_def element_text_def option_lengths_def rdn_def put_def Let_def)
  next
    case 2
    with assms(2,3) dq[of "slice img q 8"] dq[of "drop 4 (slice img q 8)"] show ?thesis
      by (simp add: fill_value_def element_size_def element_text_def option_lengths_def rdn_def put_def)
  next
    case 3
    with assms(2,3) show ?thesis
      by (simp add: fill_value_def element_size_def element_text_def option_lengths_def rd_def put_def)
  next
    case 4
    with assms(2,3) u8[of "img ! q"] show ?thesis
      by (simp add: fill_value_def element_size_def element_text_def option_lengths_def rd_def put_def)
  next
    case 5
    with assms(2,3) u16[of "be16 (slice img q 2 ! 0) (slice img q 2 ! 1)"] show ?thesis
      by (simp add: fill_value_def element_size_def element_text_def option_lengths_def rdn_def put_def)
  next
    case 6
    with assms(2,3) u16[of "be16 (slice img q 2 ! 0) (slice img q 2 ! 1)"] show ?thesis
      by (simp add: fill_value_def element_size_def element_text_def option_lengths_def rdn_def put_def)
  next
    case 7
    let ?w = "be32 (img ! q) (img ! (q + 1)) (img ! (q + 2)) (img ! (q + 3))"
    from 7 assms(2,3) length_dec_word(1)[of ?w] show ?thesis
      by (simp add: fill_value_def element_size_def element_text_def option_lengths_def rd32_def put_def)
  next
    case 8
    let ?w = "be32 (img ! q) (img ! (q + 1)) (img ! (q + 2)) (img ! (q + 3))"
    from 8 assms(2,3,4) length_dec_word(2)[of ?w] show ?thesis
      by (simp add: fill_value_def element_size_def element_text_def option_lengths_def rd32_def put_def sprintf_def
          value_fits_def)
  qed
qed

lemma element_size_pos: "plain_type t \<Longrightarrow> 0 < element_size t"
  by (auto simp: plain_type_def element_size_def option_lengths_def)

text \<open>Every element of a time zone option can be printed into the variable.\<close>

definition zones_fit :: "u8 list \<Rightarrow> string \<Rightarrow> u8 \<Rightarrow> nat \<Rightarrow> nat \<Rightarrow> bool" where
  "zones_fit img name t q len \<longleftrightarrow> (name = ''timezone'' \<and> t = OPTION_S32 \<longrightarrow>
     (\<forall>j. 4 * j < len \<longrightarrow> length (dec_signed (sint (the (rd32 img (q + 4 * j))))) < 8))"

lemma zones_fit_first: "zones_fit img name t q len \<Longrightarrow> 0 < len \<Longrightarrow>
    name = ''dns'' \<longrightarrow> length (p_dns_ip v) + 27 < 128 \<Longrightarrow> value_fits img name t q v"
  unfolding zones_fit_def value_fits_def by (auto dest: spec[of _ 0])

lemma zones_fit_next:
  assumes "zones_fit img name t q len" "4 < len" "t = OPTION_S32 \<longrightarrow> n = 4"
  shows "zones_fit img name t (q + n) (len - n)"
  unfolding zones_fit_def
proof (intro impI allI)
  fix j
  assume a: "name = ''timezone'' \<and> t = OPTION_S32" "4 * j < len - n"
  with assms show "length (dec_signed (sint (the (rd32 img (q + n + 4 * j))))) < 8"
    unfolding zones_fit_def by (auto dest!: spec[of _ "Suc j"] simp: add.assoc)
qed

lemma fill_loop_fits:
  assumes "plain_type t" "len = element_size t * Suc k" "q + len \<le> length img"
    "length dest + Suc k * (element_text t + 1) \<le> cap" "zones_fit img name t q len"
    "name = ''dns'' \<longrightarrow> length (p_dns_ip v) + 27 * Suc k < 128"
  shows "\<exists>d v'. fill_loop cap img name t q len dest v = Some (d, v')"
  using assms
proof (induction k arbitrary: q len dest v)
  case 0
  have "0 < len" using "0.prems"(2) element_size_pos[OF assms(1)] by simp
  from zones_fit_first[OF "0.prems"(5) this, of v] "0.prems"(6) have "value_fits img name t q v" by simp
  from fill_value_fits[OF assms(1) _ _ this, of dest cap len] "0.prems"(2-4) show ?case
    by (subst fill_loop.simps) auto
next
  case (Suc k)
  let ?n = "element_size t"
  have n: "0 < ?n" using assms(1) by (rule element_size_pos)
  have "0 < len" using Suc.prems(2) n by simp
  from zones_fit_first[OF Suc.prems(5) this, of v] Suc.prems(6) have "value_fits img name t q v" by auto
  from fill_value_fits[OF assms(1) _ _ this, of dest cap len] Suc.prems(2-4) obtain d v1 where
    1: "fill_value cap img name t q len dest v = Some (dest @ d, v1, ?n)" "length d \<le> element_text t"
    "length (p_dns_ip v1) \<le> length (p_dns_ip v) + 27" by auto
  have more: "\<not> len \<le> ?n" using Suc.prems(2) n by simp
  have "t = OPTION_S32 \<longrightarrow> ?n = 4" by (simp add: element_size_def option_lengths_def)
  then have z: "zones_fit img name t (q + ?n) (len - ?n)"
    using zones_fit_next[OF Suc.prems(5), of ?n] more by (cases "t = OPTION_S32") (auto simp: zones_fit_def)
  have "\<exists>d' v'. fill_loop cap img name t (q + ?n) (len - ?n) (dest @ d @ '' '') v1 = Some (d', v')"
    using Suc.prems(2-6) 1(2,3) n z by (intro Suc.IH[OF assms(1)]) auto
  moreover have "put_char cap (dest @ d) (CHR '' '') = Some (dest @ d @ '' '')"
    using Suc.prems(4) 1(2) by (simp add: put_char_def)
  ultimately show ?case using 1(1) more n by (subst fill_loop.simps) simp
qed

text \<open>
  The options a well-behaved server sends: whole elements, at least one, not of the mixed
  type \<^verbatim>\<open>OPTION_IP_STRING\<close>; at most four name servers; a time zone that can be printed.
\<close>

definition regular_option :: "u8 list \<Rightarrow> dhcp_option \<Rightarrow> nat \<Rightarrow> bool" where
  "regular_option img opt q \<longleftrightarrow> (let t = o_flags opt AND TYPE_MASK; len = unat (img ! (q - 1)) in
     t = OPTION_STRING \<or>
     (plain_type t \<and> 0 < len \<and> element_size t dvd len \<and> zones_fit img (o_name opt) t q len \<and>
      (o_name opt = ''dns'' \<longrightarrow> len \<le> 4 * element_size t)))"

lemma max_option_length_plain:
  assumes "plain_type (f AND TYPE_MASK)" "len = element_size (f AND TYPE_MASK) * k"
  shows "k * (element_text (f AND TYPE_MASK) + 1) \<le> max_option_length len f"
proof -
  have "\<exists>m. f AND TYPE_MASK = m" by simp
  then obtain m where m: "f AND TYPE_MASK = m" by blast
  show ?thesis
    using assms unfolding m max_option_length_def Let_def plain_type_def element_text_def element_size_def
      option_lengths_def by auto
qed

lemma fill_options_fits:
  assumes "regular_option img opt q" "1 \<le> q" "q + unat (img ! (q - 1)) \<le> length img"
    "o_name opt = ''dns'' \<longrightarrow> p_dns_ip v = []"
  shows "\<exists>s v'. fill_options tr (max_option_length (unat (img ! (q - 1))) (o_flags opt) + length (o_name opt) + 2)
    img q opt v = Some (s, v')"
proof -
  define len where "len = unat (img ! (q - 1))"
  define t where "t = o_flags opt AND TYPE_MASK"
  define cap where "cap = max_option_length len (o_flags opt) + length (o_name opt) + 2"
  have r: "rd img (q - 1) = Some (img ! (q - 1))" using assms(2,3) by (simp add: rd_def)
  have p: "put cap [] (o_name opt @ ''='') = Some (o_name opt @ ''='')" by (simp add: put_def cap_def)
  show ?thesis
  proof (cases "t = OPTION_STRING")
    case True
    have "max_option_length len (o_flags opt) = len + 1"
      using True by (simp add: max_option_length_def t_def Let_def)
    then have c: "cap = len + length (o_name opt) + 3" by (simp add: cap_def)
    have b: "rdn img q len = Some (slice img q len)" using assms(3) by (simp add: rdn_def len_def)
    have "length (str_of (slice img q len)) = len" using assms(3) by (simp add: str_of_def len_def)
    then have "put cap (o_name opt @ ''='') (str_of (slice img q len)) = Some ((o_name opt @ ''='') @ str_of (slice img q len))"
      by (simp add: put_def c)
    with r p b True show ?thesis
      unfolding fill_options_def len_def[symmetric] cap_def[symmetric] Let_def t_def[symmetric] by (simp add: len_def)
  next
    case False
    with assms(1) have reg: "plain_type t" "0 < len" "element_size t dvd len" "zones_fit img (o_name opt) t q len"
      "o_name opt = ''dns'' \<longrightarrow> len \<le> 4 * element_size t"
      by (auto simp: regular_option_def Let_def len_def t_def)
    then obtain k where k: "len = element_size t * Suc k" by (metis dvdE mult_0_right not0_implies_Suc less_numeral_extra(3))
    have "Suc k * (element_text t + 1) \<le> max_option_length len (o_flags opt)"
      using max_option_length_plain[of "o_flags opt" len "Suc k"] reg(1) k by (simp add: t_def)
    then have fit: "length (o_name opt @ ''='') + Suc k * (element_text t + 1) \<le> cap" by (simp add: cap_def)
    have dns: "o_name opt = ''dns'' \<longrightarrow> length (p_dns_ip v) + 27 * Suc k < 128"
      using assms(4) reg(5) k element_size_pos[OF reg(1)] by auto
    from fill_loop_fits[OF reg(1) k _ fit reg(4) dns] assms(3) obtain d v' where
      "fill_loop cap img (o_name opt) t q len (o_name opt @ ''='') v = Some (d, v')" by (auto simp: len_def)
    with r p False show ?thesis
      unfolding fill_options_def len_def[symmetric] cap_def[symmetric] Let_def t_def[symmetric] by (simp add: len_def)
  qed
qed

text \<open>Only the option named \<^verbatim>\<open>dns\<close> touches the list of name servers.\<close>

lemma note_server_string_dns [simp]: "p_dns_ip (note_server_string name bs v) = p_dns_ip v"
  by (simp add: note_server_string_def)

lemma note_address_dns: "note_address name ip v = Some v' \<Longrightarrow> name \<noteq> ''dns'' \<Longrightarrow> p_dns_ip v' = p_dns_ip v"
proof -
  assume a: "note_address name ip v = Some v'" and "name \<noteq> ''dns''"
  then have "note_address name ip v = Some (if name = ''router'' then v\<lparr>p_router_ip := ip\<rparr>
      else if name = ''subnet'' then v\<lparr>p_subnet_ip := ip\<rparr>
      else if name = ''ntpsvr'' then note_server name ip v else v)"
    unfolding note_address_def by (simp only: if_False if_distrib[of Some] simp_thms)
  with a have "v' = (if name = ''router'' then v\<lparr>p_router_ip := ip\<rparr>
      else if name = ''subnet'' then v\<lparr>p_subnet_ip := ip\<rparr>
      else if name = ''ntpsvr'' then note_server name ip v else v)" by simp
  then show ?thesis by (simp only: if_distrib[of p_dns_ip]) simp
qed

lemma fill_value_dns:
  "fill_value cap img name t q len dest v = Some (d, v', n) \<Longrightarrow> name \<noteq> ''dns'' \<Longrightarrow> p_dns_ip v' = p_dns_ip v"
  unfolding fill_value_def
  by (auto simp: bind_eq_Some_conv Let_def split: if_splits dest!: note_address_dns simp del: list.inject)

lemma fill_loop_dns:
  "fill_loop cap img name t q len dest v = Some (d, v') \<Longrightarrow> name \<noteq> ''dns'' \<Longrightarrow> p_dns_ip v' = p_dns_ip v"
proof (induction cap img name t q len dest v rule: fill_loop.induct)
  case (1 cap img name t q len dest v)
  from "1.prems"(1) obtain d1 v1 n where f: "fill_value cap img name t q len dest v = Some (d1, v1, n)"
    by (subst (asm) fill_loop.simps) (auto simp: bind_eq_Some_conv)
  note k = fill_value_dns[OF f "1.prems"(2)]
  show ?case
  proof (cases "len \<le> n")
    case True
    with "1.prems"(1) f k show ?thesis by (subst (asm) fill_loop.simps) simp
  next
    case False
    with "1.prems"(1) f obtain d2 where n: "n \<noteq> 0" "put_char cap d1 (CHR '' '') = Some d2"
      "fill_loop cap img name t (q + n) (len - n) d2 v1 = Some (d, v')"
      by (subst (asm) fill_loop.simps) (auto simp: bind_eq_Some_conv split: if_splits)
    from "1.IH"[OF f refl refl False n(1,2) n(3) "1.prems"(2)] k show ?thesis by simp
  qed
qed

lemma note_string_dns [simp]: "p_dns_ip (note_string tr name bs v) = p_dns_ip v"
  by (simp add: note_string_def Let_def)

lemma fill_options_dns:
  "fill_options tr cap img q opt v = Some (s, v') \<Longrightarrow> o_name opt \<noteq> ''dns'' \<Longrightarrow> p_dns_ip v' = p_dns_ip v"
  unfolding fill_options_def Let_def
  by (auto simp: bind_eq_Some_conv split: if_splits simp del: list.inject dest: fill_loop_dns)

section \<open>The environment of the script is complete\<close>

definition regular_message :: "dhcpMessage \<Rightarrow> bool" where
  "regular_message p \<longleftrightarrow> (\<forall>opt \<in> set options. \<forall>q. get_option p (o_code opt) = Some (Some q) \<longrightarrow>
     regular_option (message_image p) opt q)"

lemma option_names_distinct: "distinct (map o_name options)"
  by (simp add: options_def)

lemma option_strings_total:
  assumes "wf_message p" "distinct (map o_name opts)" "''dns'' \<in> set (map o_name opts) \<longrightarrow> p_dns_ip v = []"
    "\<forall>opt \<in> set opts. \<forall>q. get_option p (o_code opt) = Some (Some q) \<longrightarrow> regular_option (message_image p) opt q"
  shows "\<exists>ss v'. option_strings tr p opts v = Some (ss, v') \<and> count_options p opts = Some (length ss)"
  using assms(2-)
proof (induction opts arbitrary: v)
  case (Cons opt opts)
  obtain g where g: "get_option p (o_code opt) = Some g" using get_option_some[OF assms(1)] by blast
  show ?case
  proof (cases g)
    case None
    with Cons.IH[of v] Cons.prems g show ?thesis by auto
  next
    case (Some q)
    let ?m = "message_image p"
    have gs: "get_option p (o_code opt) = Some (Some q)" using g Some by simp
    note at = option_at_in[OF get_option_in[OF assms(1) gs]]
    have lm: "length ?m = 1264" using assms(1) by (rule length_message_image)
    have "q - 1 < 1264" using at by linarith
    then have r: "rd ?m (q - 1) = Some (?m ! (q - 1))" using lm by (simp add: rd_def)
    have reg: "regular_option ?m opt q" using Cons.prems(3) gs by simp
    from fill_options_fits[OF reg _ _, of v tr] at lm Cons.prems(2) obtain s v1 where
      f: "fill_options tr (max_option_length (unat (?m ! (q - 1))) (o_flags opt) + length (o_name opt) + 2) ?m q opt v = Some (s, v1)"
      by auto
    have "''dns'' \<in> set (map o_name opts) \<longrightarrow> p_dns_ip v1 = []"
      using fill_options_dns[OF f] Cons.prems(1,2) by (cases "o_name opt = ''dns''") auto
    with Cons.IH[of v1] Cons.prems obtain ss v2 where
      "option_strings tr p opts v1 = Some (ss, v2)" "count_options p opts = Some (length ss)" by auto
    then show ?thesis using gs r f by simp
  qed
qed simp

lemma overload_total: "wf_message p \<Longrightarrow> \<exists>o'. overload p = Some o'"
proof -
  assume w: "wf_message p"
  obtain g where g: "get_option p DHCP_OPTION_OVER = Some g" using get_option_some[OF w] by blast
  show ?thesis
  proof (cases g)
    case (Some q)
    with g have "option_at (message_image p) DHCP_OPTION_OVER q" using get_option_in[OF w] by simp
    then have "q < 1264" by (auto simp: option_at_def option_area_def)
    with g Some length_message_image[OF w] show ?thesis by (simp add: overload_def rd_def)
  qed (simp add: overload_def g)
qed

lemma sprintf_fits [simp]: "length s < n \<Longrightarrow> sprintf n s = Some s"
  by (simp add: sprintf_def)

lemma save_at_fits: "length path < 128 \<Longrightarrow> save_at e path content check v = Some (say v (file_save e path content check))"
  by (simp add: save_at_def)

lemma command_fits: "length cmd < 128 \<Longrightarrow> command cmd v = Some (say v [SystemCmd cmd])"
  by (simp add: command_def)

lemma paths_length [simp]: "length WAN_ROOT = 12" "length WAN_DIR = 17"
  by (simp_all add: WAN_ROOT_def WAN_DIR_def)

text \<open>A computation that ends from every state.\<close>

lemma bind_total: "\<exists>y. x = Some y \<Longrightarrow> (\<And>y. \<exists>z. f y = Some z) \<Longrightarrow> \<exists>z. x \<bind> f = Some z"
  by auto

lemma if_total: "(P \<Longrightarrow> \<exists>y. x = Some y) \<Longrightarrow> (\<not> P \<Longrightarrow> \<exists>y. z = Some y) \<Longrightarrow> \<exists>y. (if P then x else z) = Some y"
  by simp

lemma Some_total: "\<exists>y. Some x = Some y"
  by simp

lemma save_at_total: "length path < 128 \<Longrightarrow> \<exists>v'. save_at e path content check v = Some v'"
  by (simp add: save_at_fits)

lemma command_total: "length cmd < 128 \<Longrightarrow> \<exists>v'. command cmd v = Some v'"
  by (simp add: command_fits)

lemma file_save_route_total: "length session < 64 \<Longrightarrow> \<exists>v'. file_save_route e session v = Some v'"
  by (simp add: file_save_route_def split: prod.split)

lemmas ends = bind_total if_total Some_total save_at_total command_total file_save_route_total

lemma config_save_total:
  assumes "length session < 64" "length ifname < 64"
  shows "\<exists>v'. config_save e session ifname v = Some v'"
proof -
  have 1: "\<exists>v'. save_addresses e session v = Some v'" for v
    unfolding save_addresses_def Let_def by (intro ends) (use assms in simp_all)
  have 2: "\<exists>v'. save_session e session v = Some v'" for v
    unfolding save_session_def Let_def by (intro ends) (use assms in simp_all)
  show ?thesis
    unfolding config_save_def by (intro ends 1 2) (use assms in simp_all)
qed

lemma fill_envp_total:
  assumes "\<And>p. packet = Some p \<Longrightarrow> wf_message p \<and> regular_message p" "length session < 64" "length ifname < 64"
  shows "\<exists>envp v. fill_envp e session ifname packet = Some (envp, v)"
proof (cases packet)
  case (Some p)
  have w: "wf_message p" and reg: "regular_message p" using assms(1) Some by auto
  let ?v0 = "zero_vars\<lparr>p_local_ip := dotted (be32_bytes (m_yiaddr p))\<rparr>"
  have z: "p_dns_ip ?v0 = []" by (simp add: zero_vars_def)
  obtain ss v where ss: "option_strings (s_tr069 e) p options ?v0 = Some (ss, v)" "count_options p options = Some (length ss)"
    using option_strings_total[OF w option_names_distinct, of ?v0] z reg unfolding regular_message_def by blast
  obtain ov where ov: "overload p = Some ov" using overload_total[OF w] by blast
  obtain v' where v': "config_save e session ifname v = Some v'" using config_save_total[OF assms(2,3)] by blast
  show ?thesis unfolding fill_envp_def Some Let_def option.case ss bind.simps ov prod.case v' by simp
qed (simp add: fill_envp_def)

section \<open>Routes from option 121 to the kernel\<close>

text \<open>
  A route of RFC 3442: the width of the mask, the significant bytes of the destination and
  the gateway.
\<close>

type_synonym route = "nat \<times> u8 list \<times> u8 list"

definition wf_route :: "route \<Rightarrow> bool" where
  "wf_route r \<longleftrightarrow> (case r of (w, d, g) \<Rightarrow> w \<le> 32 \<and> length d = (w + 7) div 8 \<and> length g = 4)"

definition route_bytes :: "route \<Rightarrow> u8 list" where
  "route_bytes r = (case r of (w, d, g) \<Rightarrow> of_nat w # d @ g)"

definition netmask_byte :: "nat \<Rightarrow> u8" where
  "netmask_byte k = (if k = 0 then 0 else if 8 \<le> k then 255 else mask_table ! (k - 1))"

definition netmask :: "nat \<Rightarrow> u8 list" where
  "netmask w = [netmask_byte w, netmask_byte (w - 8), netmask_byte (w - 16), netmask_byte (w - 24)]"

definition net_dest :: "nat \<Rightarrow> u8 list \<Rightarrow> u8 list" where
  "net_dest w d = map2 (AND) (d @ replicate (4 - length d) 0) (netmask w)"

definition route_text :: "route \<Rightarrow> string" where
  "route_text r = (case r of (w, d, g) \<Rightarrow> if w = 0 then [] else route_line (net_dest w d) (netmask w) g)"

definition route_gateway :: "string \<Rightarrow> route \<Rightarrow> string" where
  "route_gateway router r = (case r of (w, d, g) \<Rightarrow> if w = 0 then dotted g else router)"

lemma and_255 [simp]: "(x :: u8) AND 255 = x"
proof -
  have "(255 :: u8) = - 1" by simp
  then show ?thesis by (metis and.right_neutral)
qed

lemma netmask_byte_table: "1 \<le> k \<Longrightarrow> k \<le> 8 \<Longrightarrow> mask_table ! (k - 1) = netmask_byte k"
  by (cases "k = 8") (simp_all add: netmask_byte_def mask_table_def)

lemma netmask_byte_ends: "netmask_byte 0 = 0" "8 \<le> k \<Longrightarrow> netmask_byte k = 255"
  by (simp_all add: netmask_byte_def)

lemma drop_nth: "drop i m = xs @ ys \<Longrightarrow> j < length xs \<Longrightarrow> m ! (i + j) = xs ! j"
proof -
  assume d: "drop i m = xs @ ys" and j: "j < length xs"
  then have "i \<le> length m" by (cases "i \<le> length m") auto
  then have "m ! (i + j) = drop i m ! j" by simp
  then show ?thesis using d j by (simp add: nth_append)
qed

lemma drop_slice: "drop i m = xs @ ys \<Longrightarrow> slice m (i + j) n = take n (drop j (xs @ ys))"
  by (metis add.commute drop_drop slice_def)

lemma drop_length: "drop i m = xs @ ys \<Longrightarrow> xs \<noteq> [] \<Longrightarrow> i + length xs \<le> length m"
proof -
  assume d: "drop i m = xs @ ys" and "xs \<noteq> []"
  then have "length m - i = length xs + length ys" by (metis length_append length_drop)
  with \<open>xs \<noteq> []\<close> show ?thesis by (cases xs) auto
qed

lemma route_loop_step:
  assumes "drop i opt = route_bytes r @ rest" "wf_route r"
  shows "route_loop opt i (router, out) =
    route_loop opt (i + length (route_bytes r)) (route_gateway router r, out @ route_text r)"
proof -
  obtain w d g where r: "r = (w, d, g)" by (cases r)
  have wf: "w \<le> 32" "length d = (w + 7) div 8" "length g = 4" using assms(2) by (simp_all add: wf_route_def r)
  have D: "drop i opt = (of_nat w # d @ g) @ rest" using assms(1) by (simp add: route_bytes_def r)
  have L: "i + (1 + length d + 4) \<le> length opt" using drop_length[OF D] wf(3) by simp
  have w0: "unat (opt ! i) = w"
    using drop_nth[OF D, of 0] wf(1) by (simp add: unat_of_nat_u8_small del: unat_of_nat)
  have n: "opt ! (i + Suc j) = d ! j" if "j < length d" for j
    using drop_nth[OF D, of "Suc j"] that by (simp add: nth_append)
  have g: "slice opt (i + (1 + length d)) 4 = g" using drop_slice[OF D, of "1 + length d" 4] wf(3) by simp
  note S = route_loop.simps[of opt i router out]
  consider "w = 0" | "1 \<le> w" "w \<le> 8" | "9 \<le> w" "w \<le> 16" | "17 \<le> w" "w \<le> 24" | "25 \<le> w" "w \<le> 32"
    using wf(1) by linarith
  then show ?thesis
  proof cases
    case 1
    then show ?thesis using L w0 g wf(2)
      by (subst S) (simp add: r route_bytes_def route_gateway_def route_text_def wf(3))
  next
    case 2
    then have ld: "length d = 1" using wf(2) by simp
    then obtain a where d: "d = [a]" by (cases d) auto
    have m: "netmask w = [mask_table ! (w - 1), 0, 0, 0]"
      using 2 netmask_byte_table[of w] by (simp add: netmask_def netmask_byte_ends)
    show ?thesis using 2 L w0 g n[of 0] wf(3) unfolding d
      by (subst S) (simp add: r d route_bytes_def route_gateway_def route_text_def net_dest_def m Let_def numeral_3_eq_3 numeral_2_eq_2)
  next
    case 3
    then have ld: "length d = 2" using wf(2) by simp
    then obtain a b where d: "d = [a, b]" by (cases d; cases "tl d") auto
    have m: "netmask w = [255, mask_table ! (w - 9), 0, 0]"
      using 3 netmask_byte_table[of "w - 8"] by (simp add: netmask_def netmask_byte_ends)
    show ?thesis using 3 L w0 g n[of 0] n[of 1] wf(3) unfolding d
      by (subst S) (simp add: r d route_bytes_def route_gateway_def route_text_def net_dest_def m Let_def numeral_3_eq_3 numeral_2_eq_2)
  next
    case 4
    then have ld: "length d = 3" using wf(2) by simp
    then obtain a b c where d: "d = [a, b, c]" by (cases d; cases "tl d"; cases "tl (tl d)") auto
    have m: "netmask w = [255, 255, mask_table ! (w - 17), 0]"
      using 4 netmask_byte_table[of "w - 16"] by (simp add: netmask_def netmask_byte_ends)
    have e: "opt ! (i + 1) = a" "opt ! (i + 2) = b" "opt ! (i + 3) = c" "slice opt (i + 4) 4 = g"
      using n[of 0] n[of 1] n[of 2] g by (simp_all add: d numeral_eq_Suc)
    show ?thesis using 4 L w0 e wf(3) unfolding d
      by (subst S) (simp add: r d route_bytes_def route_gateway_def route_text_def net_dest_def m Let_def)
  next
    case 5
    then have ld: "length d = 4" using wf(2) by simp
    then obtain a b c x where d: "d = [a, b, c, x]" by (cases d; cases "tl d"; cases "tl (tl d)"; cases "tl (tl (tl d))") auto
    have m: "netmask w = [255, 255, 255, mask_table ! (w - 25)]"
      using 5 netmask_byte_table[of "w - 24"] by (simp add: netmask_def netmask_byte_ends)
    have e: "opt ! (i + 1) = a" "opt ! (i + 2) = b" "opt ! (i + 3) = c" "opt ! (i + 4) = x" "slice opt (i + 5) 4 = g"
      using n[of 0] n[of 1] n[of 2] n[of 3] g by (simp_all add: d numeral_eq_Suc)
    show ?thesis using 5 L w0 e wf(3) unfolding d
      by (subst S) (simp add: r d route_bytes_def route_gateway_def route_text_def net_dest_def m Let_def)
  qed
qed

lemma route_loop_routes:
  assumes "drop i opt = concat (map route_bytes rs)" "list_all wf_route rs"
  shows "route_loop opt i (router, out) =
    (foldl route_gateway router rs, out @ concat (map route_text rs))"
  using assms
proof (induction rs arbitrary: i router out)
  case Nil
  then show ?case by (subst route_loop.simps) simp
next
  case (Cons r rs)
  from Cons.prems have d: "drop i opt = route_bytes r @ concat (map route_bytes rs)" and w: "wf_route r" by simp_all
  have "drop (i + length (route_bytes r)) opt = concat (map route_bytes rs)" using drop_step[OF d] .
  from Cons.IH[OF this] Cons.prems(2) route_loop_step[OF d w] show ?case by simp
qed

text \<open>Reading the file back: one line per route, three words per line.\<close>

lemma dotted_chars: "c \<in> set (dotted b) \<Longrightarrow> is_digit c \<or> c = CHR ''.''"
  using dec_digits by (auto simp: dotted_def list_all_iff)

lemma dotted_no_space: "c \<in> set (dotted b) \<Longrightarrow> \<not> is_space c"
  using dotted_chars[of c b] by (auto simp: is_digit_def is_space_def)

lemma dotted_nonempty [simp]: "dotted b \<noteq> []"
  by (simp add: dotted_def)

lemma split_space_word:
  "\<forall>c \<in> set w. \<not> is_space c \<Longrightarrow> is_space x \<Longrightarrow> split_space (w @ x # s) = w # split_space s"
  by (induction w) auto

lemma words_of_word:
  "\<forall>c \<in> set w. \<not> is_space c \<Longrightarrow> w \<noteq> [] \<Longrightarrow> is_space x \<Longrightarrow> words_of (w @ x # s) = w # words_of s"
  by (simp add: words_of_def split_space_word)

lemma words_of_route_line: "words_of (route_line a b c) = [dotted a, dotted b, dotted c]"
proof -
  have sp: "is_space (CHR '' '')" "is_space (CHR 0x0A)" by (simp_all add: is_space_def)
  have "route_line a b c = dotted a @ CHR '' '' # (dotted b @ CHR '' '' # (dotted c @ CHR 0x0A # []))"
    by (simp add: route_line_def)
  moreover have "words_of (dotted x @ CHR '' '' # s) = dotted x # words_of s"
    "words_of (dotted x @ CHR 0x0A # s) = dotted x # words_of s" for x s
    using dotted_no_space sp by (auto intro!: words_of_word)
  moreover have "words_of [] = []" by (simp add: words_of_def)
  ultimately show ?thesis by simp
qed

lemma strchr_append: "c \<notin> set l \<Longrightarrow> strchr c (l @ c # s) = Some (length l)"
  by (induction l) auto

lemma fgets_line:
  assumes "CHR 0x0A \<notin> set l" "length l < 263"
  shows "fgets_lines 264 ((l @ [CHR 0x0A]) @ s) = (l @ [CHR 0x0A]) # fgets_lines 264 s"
proof -
  have "min (264 - 1) (length l + 1) = Suc (length l)" using assms(2) by simp
  then show ?thesis
    using strchr_append[OF assms(1), of s] by (subst fgets_lines.simps) (simp add: Let_def)
qed

lemma route_line_newline:
  "\<exists>l. route_line a b c = l @ [CHR 0x0A] \<and> CHR 0x0A \<notin> set l \<and> length l < 263"
proof -
  have "CHR 0x0A \<notin> set (dotted x)" for x using dotted_no_space[of "CHR 0x0A" x] by (auto simp: is_space_def)
  then show ?thesis
    using length_dotted[of a] length_dotted[of b] length_dotted[of c]
    by (intro exI[of _ "dotted a @ '' '' @ dotted b @ '' '' @ dotted c"]) (simp add: route_line_def)
qed

lemma fgets_route: "fgets_lines 264 (route_line a b c @ s) = route_line a b c # fgets_lines 264 s"
  using route_line_newline[of a b c] fgets_line by metis

text \<open>The routes other than the default route.\<close>

definition proper :: "route list \<Rightarrow> route list" where
  "proper rs = filter (\<lambda>r. fst r \<noteq> 0) rs"

lemma fgets_routes:
  "fgets_lines 264 (concat (map route_text rs)) = map route_text (proper rs)"
proof (induction rs)
  case Nil
  show ?case by (subst fgets_lines.simps) (simp add: proper_def)
next
  case (Cons r rs)
  then show ?case by (cases r) (auto simp: route_text_def fgets_route proper_def)
qed

text \<open>The command that installs or removes a route.\<close>

definition route_cmd :: "string \<Rightarrow> string \<Rightarrow> route \<Rightarrow> effect" where
  "route_cmd op session r = (case r of (w, d, g) \<Rightarrow>
     SystemCmd (''route '' @ op @ '' -net '' @ dotted (net_dest w d) @ '' netmask '' @ dotted (netmask w) @ '' metric 1'' @
       (if dotted g \<noteq> ''0.0.0.0'' then '' gw '' @ dotted g else []) @ '' dev '' @ session @ '' 2>/dev/null''))"

lemma scan3_route:
  "scan3 (route_line a b c) old = Some (Some (dotted a), Some (dotted b), Some (dotted c))"
proof -
  have "\<not> 16 \<le> length (dotted x)" for x using length_dotted[of x] by simp
  then show ?thesis
    unfolding scan3_def words_of_route_line Let_def by (simp split: prod.split)
qed

lemma route_step:
  assumes "length session < 64" "length op = 3" "fst r \<noteq> 0"
  shows "\<exists>w' c g. scan3 (route_text r) w = Some w' \<and> route_command op session w' = Some (c, g) \<and>
    SystemCmd c = route_cmd op session r"
proof -
  obtain n d g where r: "r = (n, d, g)" by (cases r)
  have t: "route_text r = route_line (net_dest n d) (netmask n) g" using assms(3) by (simp add: route_text_def r)
  have "length (dotted x) \<le> 15" for x by (rule length_dotted)
  from this[of "net_dest n d"] this[of "netmask n"] this[of g]
  show ?thesis unfolding t scan3_route using assms(1,2) by (simp add: route_command_def route_cmd_def r)
qed

lemma delete_routes_routes:
  assumes "length session < 64"
  shows "\<exists>w'. delete_routes session w (map route_text (proper rs)) =
    Some (map (route_cmd ''del'' session) (proper rs), w')"
proof (induction rs arbitrary: w)
  case (Cons x rs)
  show ?case
  proof (cases "fst x = 0")
    case False
    from route_step[OF assms _ False, of "''del''" w] obtain w' c g where
      "scan3 (route_text x) w = Some w'" "route_command ''del'' session w' = Some (c, g)"
      "SystemCmd c = route_cmd ''del'' session x" by auto
    moreover from Cons.IH[of w'] obtain w2 where
      "delete_routes session w' (map route_text (proper rs)) = Some (map (route_cmd ''del'' session) (proper rs), w2)" by blast
    ultimately show ?thesis using False by (cases w2) (simp add: proper_def)
  qed (use Cons.IH in \<open>simp add: proper_def\<close>)
qed (auto simp: proper_def)

lemma note_gateway_length [simp]: "length (fst (note_gateway g r)) = length (fst r)"
  by (simp add: note_gateway_def split: prod.split)

lemma add_routes_routes:
  assumes "length session < 64"
  shows "\<exists>r'. add_routes session w r (map route_text (proper rs)) =
    Some (map (route_cmd ''add'' session) (proper rs), r') \<and> length (fst r') = length (fst r)"
proof (induction rs arbitrary: w r)
  case (Cons x rs)
  show ?case
  proof (cases "fst x = 0")
    case False
    from route_step[OF assms _ False, of "''add''" w] obtain w' c g where
      "scan3 (route_text x) w = Some w'" "route_command ''add'' session w' = Some (c, g)"
      "SystemCmd c = route_cmd ''add'' session x" by auto
    moreover from Cons.IH[of w' "note_gateway g r"] obtain r' where
      "add_routes session w' (note_gateway g r) (map route_text (proper rs)) =
         Some (map (route_cmd ''add'' session) (proper rs), r')" "length (fst r') = length (fst r)" by auto
    ultimately show ?thesis using False by (simp add: proper_def)
  qed (use Cons.IH in \<open>simp add: proper_def\<close>)
qed (simp add: proper_def)

lemma run_staticRoute_routes:
  assumes "length session < 64"
  shows "\<exists>gws'. run_staticRoute \<lparr>h_new = Some (concat (map route_text rs)),
      h_old = Some (concat (map route_text old)), h_old_writable = True\<rparr> session gws =
    Some (map (route_cmd ''del'' session) (proper old) @ map (route_cmd ''add'' session) (proper rs) @
      [FileWritten (''/var/fyi/sys/'' @ session @ ''/oldstaticroute'') (bytes_of (concat (map route_text rs))),
       SystemCmd (''rm -rf /var/fyi/sys/'' @ session @ ''/staticroute'')], gws') \<and> length gws' = length gws"
proof -
  obtain w where d: "delete_routes session (None, None, None) (map route_text (proper old)) =
      Some (map (route_cmd ''del'' session) (proper old), w)" using delete_routes_routes[OF assms] by blast
  obtain gws' k where a: "add_routes session w (gws, 0) (map route_text (proper rs)) =
      Some (map (route_cmd ''add'' session) (proper rs), gws', k)" "length gws' = length gws"
    using add_routes_routes[OF assms, of w "(gws, 0)" rs] by auto
  show ?thesis
    using d a assms by (simp add: run_staticRoute_def fgets_routes)
qed

lemma save_at_router [simp]: "save_at e path c k v = Some v' \<Longrightarrow> p_router_ip v' = p_router_ip v"
  by (auto simp: save_at_def say_def bind_eq_Some_conv)

lemma command_router [simp]: "command c v = Some v' \<Longrightarrow> p_router_ip v' = p_router_ip v"
  by (auto simp: command_def say_def bind_eq_Some_conv)

text \<open>The session part of \<^verbatim>\<open>config_save\<close>, with all paths short enough.\<close>

lemma save_session_eq:
  assumes "session \<noteq> []" "length session < 64"
  shows "save_session e session v = (let dir = WAN_ROOT @ ''/'' @ session;
      v2 = say v ((if p_dns_ip v = [] then []
             else SystemCmd (''mkdir -p '' @ dir) # file_save e (dir @ ''/dns'') (p_dns_ip v) False) @
           (if s_cfmqueue e then [QueueMsg 3 (take 127 session)] else [])) in do {
      v3 \<leftarrow> (if p_option_121 v \<noteq> [] \<and> p_option_121 v ! 0 \<noteq> 0 then file_save_route e session v2 else Some v2);
      Some (say v3 (if p_router_ip v3 = [] then []
        else SystemCmd (''mkdir -p '' @ dir) # file_save e (dir @ ''/gateway'') (p_router_ip v3) False)) })"
proof -
  have l: "length (''mkdir -p '' @ WAN_ROOT @ ''/'' @ session) < 128" "length (WAN_ROOT @ ''/'' @ session @ ''/dns'') < 128"
    "length (WAN_ROOT @ ''/'' @ session @ ''/gateway'') < 128" using assms(2) by simp_all
  have s0: "say v3 [] = v3" "say (say v3 xs) ys = say v3 (xs @ ys)" "p_option_121 (say v3 xs) = p_option_121 v3" for v3 xs ys
    by (simp_all add: say_def)
  have c: "command (''mkdir -p '' @ WAN_ROOT @ ''/'' @ session) v3 = Some (say v3 [SystemCmd (''mkdir -p '' @ WAN_ROOT @ ''/'' @ session)])"
    "save_at e (WAN_ROOT @ ''/'' @ session @ ''/dns'') x False v3 = Some (say v3 (file_save e (WAN_ROOT @ ''/'' @ session @ ''/dns'') x False))"
    "save_at e (WAN_ROOT @ ''/'' @ session @ ''/gateway'') x False v3 = Some (say v3 (file_save e (WAN_ROOT @ ''/'' @ session @ ''/gateway'') x False))"
    for v3 x using l by (simp_all only: command_fits save_at_fits)
  have g: "(if P then Some v3 else Some (say v3 xs)) = Some (say v3 (if P then [] else xs))" for P v3 xs
    by (simp add: s0)
  show ?thesis
    unfolding save_session_def Let_def
    by (simp only: assms if_False append_assoc c bind.simps(2) s0(2)) (simp only: append_Cons append_Nil g s0 bind.simps(2))
qed

text \<open>An option whose text can never be built ends the whole environment.\<close>

lemma option_strings_stuck:
  assumes "opt \<in> set opts" "get_option p (o_code opt) = Some (Some q)"
    "\<And>v. fill_options tr (max_option_length (unat (message_image p ! (q - 1))) (o_flags opt) + length (o_name opt) + 2)
       (message_image p) q opt v = None"
  shows "option_strings tr p opts v = None"
  using assms(1)
proof (induction opts arbitrary: v)
  case (Cons o' opts)
  show ?case
  proof (cases "o' = opt")
    case True
    then show ?thesis using assms(2,3) by (auto simp: rd_def bind_eq_None_conv split: if_splits)
  next
    case False
    then have "option_strings tr p opts v = None" for v using Cons by auto
    then show ?thesis by (auto split: option.splits simp: bind_eq_None_conv)
  qed
qed simp

lemma fill_options_ip_string:
  assumes "o_flags opt AND TYPE_MASK = OPTION_IP_STRING"
  shows "fill_options tr (max_option_length n (o_flags opt) + length (o_name opt) + 2) img q opt v = None"
proof -
  have c: "max_option_length n (o_flags opt) = 0" using assms by (simp add: max_option_length_def)
  have "put (length (o_name opt) + 2) (o_name opt @ ''='') (dotted b) = None" for b
    using dotted_nonempty[of b] by (cases "dotted b") (simp_all add: put_def)
  then have "fill_value (length (o_name opt) + 2) img name OPTION_IP_STRING q len (o_name opt @ ''='') v = None" for name len
    by (auto simp: fill_value_def Let_def bind_eq_None_conv)
  then have "fill_loop (length (o_name opt) + 2) img name OPTION_IP_STRING q len (o_name opt @ ''='') v = None" for name len
    by (subst fill_loop.simps) simp
  then show ?thesis unfolding fill_options_def c assms Let_def
    by (auto simp: put_def bind_eq_None_conv)
qed

section \<open>Properties\<close>


definition sample_script_env :: script_env where
  "sample_script_env = \<lparr>s_readable = (\<lambda>f. False), s_writable = (\<lambda>f. True), s_hspa = None, s_cfmqueue = True,
     s_tmpqueue = True, s_tmpsend = True, s_environ = [],
     s_tr069 = \<lparr>t_pidfile = True, t_pid = True, t_msgget = True, t_msgsnd = True\<rparr>\<rparr>"

definition sample_client_config :: client_config where
  "sample_client_config = \<lparr>q_foreground = False, q_quit_after_lease = False, q_abort_if_no_lease = False,
     q_interface = ''nas_0'', q_Interface = ''nas_0'', q_pidfile = None, q_script = Some ''/bin/dhcp.script'',
     q_clientid = None, q_hostname = None, q_ifindex = 4, q_arp = [2, 16, 24, 0, 0, 1]\<rparr>"

lemma sample_regular: "regular_message sample_message"
proof -
  note g = get_option_repr[OF wf_sample_message repr_sample]
  have z: "message_image sample_message ! 241 = 1" "message_image sample_message ! 244 = 4"
    using lookup_pos_data[OF wf_sample_message repr_sample, of 53 0 "[1]"]
      lookup_pos_data[OF wf_sample_message repr_sample, of 50 3 "[192, 168, 1, 7]"] by simp_all
  have r: "regular_option (message_image sample_message) (dopt ''requestip'' OPTION_IP 0x32) 245"
    "regular_option (message_image sample_message) (dopt ''dhcptype'' OPTION_U8 0x35) 242"
    by (simp_all add: regular_option_def Let_def TYPE_MASK_def plain_type_def element_size_def option_lengths_def z zones_fit_def
        value_fits_def)
  have c: "\<forall>opt \<in> set options. o_code opt \<notin> {DHCP_PADDING, DHCP_END} \<and> (o_code opt = 53 \<longrightarrow> opt = dopt ''dhcptype'' OPTION_U8 0x35) \<and>
      (o_code opt = 50 \<longrightarrow> opt = dopt ''requestip'' OPTION_IP 0x32)"
    by (simp add: options_def)
  have "regular_option (message_image sample_message) opt q"
    if "opt \<in> set options" "get_option sample_message (o_code opt) = Some (Some q)" for opt q
  proof (cases "o_code opt \<in> {53, 50}")
    case True
    with c that r g[of 53] g[of 50] show ?thesis by (auto simp: fits_def)
  next
    case False
    with c that sample_no_option[of "o_code opt"] show ?thesis by auto
  qed
  then show ?thesis by (simp add: regular_message_def)
qed




text \<open>
  Option 121 is ignored when its first route is the default route: the code tests with
  \<^verbatim>\<open>strlen\<close> whether the option is there, and the width of the default route is the byte 0.
  Neither the gateway nor the other routes are taken over.
\<close>

theorem default_route_first_ignored:
  assumes "p_option_121 v = concat (map route_bytes ((0, [], g) # rs))" "session \<noteq> []" "length session < 64"
  shows "\<exists>v'. save_session e session v = Some v' \<and> p_router_ip v' = p_router_ip v \<and>
    (\<forall>bs. FileWritten (WAN_ROOT @ ''/'' @ session @ ''/staticroute'') bs \<in> set (p_out v') \<longrightarrow>
       FileWritten (WAN_ROOT @ ''/'' @ session @ ''/staticroute'') bs \<in> set (p_out v))"
proof -
  have "p_option_121 v ! 0 = 0" using assms(1) by (simp add: route_bytes_def)
  then show ?thesis
    using save_session_eq[OF assms(2,3), of e v] by (auto simp: say_def Let_def file_save_def)
qed

theorem default_route_first_ignored_witness:
  "\<exists>v'. save_session sample_script_env ''nas_0''
      (zero_vars\<lparr>p_option_121 := [0, 192, 168, 1, 1, 24, 10, 1, 2, 10, 0, 0, 1]\<rparr>) = Some v' \<and> p_router_ip v' = []"
  using default_route_first_ignored[of "zero_vars\<lparr>p_option_121 := [0, 192, 168, 1, 1, 24, 10, 1, 2, 10, 0, 0, 1]\<rparr>"
      "[192, 168, 1, 1]" "[(24, [10, 1, 2], [10, 0, 0, 1])]" "''nas_0''" sample_script_env]
  by (auto simp: route_bytes_def zero_vars_def)

text \<open>
  C39: an ACK that carries a log server (option 7) or a TFTP server name (option 66), both of
  which the client asks for, makes the child process write behind its heap block: the size
  of the block is computed without a case for the type \<^verbatim>\<open>OPTION_IP_STRING\<close>.  The script is not
  executed and the lease is not configured.
\<close>

theorem ip_string_option_faults:
  assumes "c \<in> {DHCP_LOG_SERVER, DHCP_TFTP_SERVER_NAME}" "get_option p c = Some (Some q)" "q_script cfg = Some script"
  shows "c \<in> set request_list \<and> run_script e True cfg session (Some p) name = [ChildFault]"
proof -
  have "dopt ''logsvr'' OPTION_IP_STRING 0x07 \<in> set options" "dopt ''tftp'' OPTION_IP_STRING 0x42 \<in> set options"
    "OPTION_IP_STRING AND TYPE_MASK = OPTION_IP_STRING" by (simp_all add: options_def TYPE_MASK_def)
  then obtain opt where o: "opt \<in> set options" "o_code opt = c" "o_flags opt AND TYPE_MASK = OPTION_IP_STRING"
    using assms(1) that by (metis dhcp_option.select_convs insertE singletonD)
  then have "option_strings (s_tr069 e) p options v = None" for v
    using assms(2) by (intro option_strings_stuck[of opt _ _ q] fill_options_ip_string) simp_all
  then have "fill_envp e session (q_Interface cfg) (Some p) = None"
    by (auto simp: fill_envp_def Let_def bind_eq_None_conv)
  with assms(1,3) show ?thesis by (auto simp: run_script_def request_list_def)
qed

theorem ip_string_option_faults_witness:
  "run_script sample_script_env True sample_client_config ''nas_0''
     (Some (sample_message\<lparr>m_options := [7, 4, 10, 0, 0, 9, 255] @ replicate 1017 0\<rparr>)) ''bound'' = [ChildFault]"
proof -
  let ?p = "sample_message\<lparr>m_options := [7, 4, 10, 0, 0, 9, 255] @ replicate 1017 0\<rparr>"
  have w: "wf_message ?p" using wf_sample_message by (simp add: wf_message_def)
  have r: "repr (m_options ?p) [Opt 7 [10, 0, 0, 9]]" by (simp add: repr_def)
  have "get_option ?p DHCP_LOG_SERVER = Some (Some 242)"
    using get_option_repr[OF w r, of 7] by (simp add: fits_def)
  then show ?thesis
    using ip_string_option_faults[of DHCP_LOG_SERVER ?p 242 sample_client_config "''/bin/dhcp.script''"]
    by (simp add: sample_client_config_def)
qed

end
