(* ===== verification/Dhcp_Daemon.thy ===== *)
theory Dhcp_Daemon
  imports Dhcp_Files
begin

text \<open>
  \<^verbatim>\<open>udhcp/dhcpd.c\<close> and \<^verbatim>\<open>udhcp/pidfile.c\<close>: start-up, the main loop and the signal handlers of
  the server.  A signal is handled between two iterations of the loop, where the process
  spends its time waiting in \<^verbatim>\<open>select\<close>.
\<close>

section \<open>Process identity file\<close>

definition pidfile_acquire :: "(string \<Rightarrow> int) \<Rightarrow> string option \<Rightarrow> int" where
  "pidfile_acquire open pidfile = (case pidfile of None \<Rightarrow> - 1 | Some f \<Rightarrow> open f)"

definition pidfile_write_release :: "bool \<Rightarrow> nat \<Rightarrow> string option \<Rightarrow> int \<Rightarrow> effect list" where
  "pidfile_write_release fdopen pid pidfile pid_fd =
     (case pidfile of None \<Rightarrow> []
      | Some f \<Rightarrow> if 0 \<le> pid_fd \<and> fdopen then [FileWritten f (bytes_of (dec pid) @ [10])] else [])"

definition pidfile_delete :: "string option \<Rightarrow> effect list" where
  "pidfile_delete pidfile = (case pidfile of None \<Rightarrow> [] | Some f \<Rightarrow> [Unlinked f])"

section \<open>What the client tells about itself\<close>

definition bcmMacNumToStr :: "u8 list \<Rightarrow> string option" where
  "bcmMacNumToStr macAddr = do {
     bs \<leftarrow> rdn macAddr 0 6;
     Some (hex2 (bs ! 0) @ '':'' @ hex2 (bs ! 1) @ '':'' @ hex2 (bs ! 2) @ '':'' @
           hex2 (bs ! 3) @ '':'' @ hex2 (bs ! 4) @ '':'' @ hex2 (bs ! 5)) }"

definition bcmOption61EthToStr :: "u8 list \<Rightarrow> string option" where
  "bcmOption61EthToStr macAddr = do {
     bs \<leftarrow> rdn macAddr 1 6;
     Some (''Hardware type:Ethernet  Client MAC address: '' @
           hex2 (bs ! 0) @ '':'' @ hex2 (bs ! 1) @ '':'' @ hex2 (bs ! 2) @ '':'' @
           hex2 (bs ! 3) @ '':'' @ hex2 (bs ! 4) @ '':'' @ hex2 (bs ! 5)) }"

text \<open>\<^verbatim>\<open>szUserMacAddr\<close>: 18 bytes, cleared first.\<close>

definition client_mac :: "dhcpMessage \<Rightarrow> string option" where
  "client_mac p =
     (if m_htype p = 1 then bcmMacNumToStr (m_chaddr p)
      else do { b \<leftarrow> memcpy (replicate 18 0) 0 (m_chaddr p); Some (str_of (cstr b)) })"

text \<open>
  The bytes of an option the log looks at.  The length byte is read through a \<^verbatim>\<open>char *\<close>, so
  an option longer than 127 bytes has a negative length and is skipped.
\<close>

definition logged_option :: "dhcpMessage \<Rightarrow> u8 \<Rightarrow> u8 list option option" where
  "logged_option p code = do {
     r \<leftarrow> get_option p code;
     (case r of None \<Rightarrow> Some None
      | Some q \<Rightarrow> do {
          n \<leftarrow> rd (message_image p) (q - 1);
          let iLen = sint n;
          if 0 < iLen \<and> iLen < 128 then do { bs \<leftarrow> rdn (message_image p) q (nat iLen); Some (Some bs) }
          else Some None }) }"

definition log_line :: "string \<Rightarrow> string \<Rightarrow> string \<Rightarrow> string \<Rightarrow> effect" where
  "log_line t mac name val = Syslog (t @ '',Mac: '' @ mac @ '', option'' @ name @ '' '' @ val)"

text \<open>Options 12, 15 and 77; \<^verbatim>\<open>szUserClassInfo\<close> has 128 bytes.\<close>

definition log_text :: "string \<Rightarrow> string \<Rightarrow> dhcpMessage \<Rightarrow> u8 \<Rightarrow> string \<Rightarrow> dhcpd \<Rightarrow> dhcpd option" where
  "log_text t mac p code name st = do {
     r \<leftarrow> logged_option p code;
     (case r of None \<Rightarrow> Some st
      | Some bs \<Rightarrow> do {
          b \<leftarrow> memcpy (replicate 128 0) 0 bs;
          Some (emit st [log_line t mac name (str_of (cstr b) @ [CHR 0x0A])]) }) }"

text \<open>Option 50 goes into a variable of four bytes, whatever its length.\<close>

definition log_requested :: "string \<Rightarrow> string \<Rightarrow> dhcpMessage \<Rightarrow> dhcpd \<Rightarrow> dhcpd option" where
  "log_requested t mac p st = do {
     r \<leftarrow> logged_option p DHCP_REQUESTED_IP;
     (case r of None \<Rightarrow> Some st
      | Some bs \<Rightarrow> do {
          b \<leftarrow> memcpy (replicate 4 0) 0 bs;
          Some (emit st [log_line t mac ''50'' (inet_ntoa (at32 b 0))]) }) }"

text \<open>
  Whether the entry of a list separated by \<^verbatim>\<open>%\<close> that \<^verbatim>\<open>strstr\<close> finds at \<open>i\<close> is delimited on
  both sides.
\<close>

definition delimited :: "string \<Rightarrow> nat \<Rightarrow> nat \<Rightarrow> bool" where
  "delimited l i n \<longleftrightarrow>
     (i + n = length l \<or> l ! (i + n) = CHR ''%'') \<and> (i > 0 \<longrightarrow> l ! (i - 1) = CHR ''%'')"

text \<open>The vendor class of an IP phone: the values of \<^verbatim>\<open>UseIpPhoneVlan\<close> and \<^verbatim>\<open>bIpphone\<close>.\<close>

definition phone_class :: "string option \<Rightarrow> u8 list \<Rightarrow> bool \<times> bool" where
  "phone_class pDhcpOpt60 bs =
     (case pDhcpOpt60 of None \<Rightarrow> (False, False)
      | Some l \<Rightarrow>
          (let s = str_of (cstr bs) in
           case strstr l s of
             Some i \<Rightarrow> (delimited l i (length s), delimited l i (length s))
           | None \<Rightarrow> (False, \<forall>b \<in> set bs. b = 0xFF)))"

definition log_vendor :: "string \<Rightarrow> string \<Rightarrow> dhcpMessage \<Rightarrow> dhcpd \<Rightarrow> dhcpd option" where
  "log_vendor t mac p st = do {
     r \<leftarrow> logged_option p DHCP_VENDOR;
     (case r of None \<Rightarrow> Some st
      | Some bs \<Rightarrow> do {
          b \<leftarrow> memcpy (replicate 128 0) 0 bs;
          let (vlan, phone) = phone_class (c_pDhcpOpt60 (d_config st)) bs;
          Some (emit (st\<lparr>d_bIpphone := d_bIpphone st \<or> phone, d_UseIpPhoneVlan := d_UseIpPhoneVlan st \<or> vlan\<rparr>)
            [log_line t mac ''60'' (str_of (cstr b) @ [CHR 0x0A])]) }) }"

definition log_client_id :: "string \<Rightarrow> string \<Rightarrow> dhcpMessage \<Rightarrow> dhcpd \<Rightarrow> dhcpd option" where
  "log_client_id t mac p st = do {
     r \<leftarrow> logged_option p DHCP_CLIENT_ID;
     (case r of None \<Rightarrow> Some st
      | Some bs \<Rightarrow> do {
          s \<leftarrow> (if length bs = 7 \<and> bs ! 0 = 1 then bcmOption61EthToStr bs
               else do { b \<leftarrow> memcpy (replicate 128 0) 0 bs; Some (str_of (cstr b)) });
          Some (emit st [log_line t mac ''61'' s]) }) }"

definition log_client :: "string \<Rightarrow> dhcpMessage \<Rightarrow> dhcpd \<Rightarrow> dhcpd option" where
  "log_client t p st = do {
     let st0 = st\<lparr>d_bIpphone := False, d_UseIpPhoneVlan := False\<rparr>;
     mac \<leftarrow> client_mac p;
     st1 \<leftarrow> log_text t mac p DHCP_HOST_NAME ''12'' st0;
     st2 \<leftarrow> log_text t mac p DHCP_DOMAIN_NAME ''15'' st1;
     st3 \<leftarrow> log_requested t mac p st2;
     st4 \<leftarrow> log_vendor t mac p st3;
     st5 \<leftarrow> log_client_id t mac p st4;
     log_text t mac p DHCP_USER_CLASS ''77'' st5 }"

section \<open>The second pool\<close>

definition isOption60Correct :: "string \<Rightarrow> u8 list \<Rightarrow> nat \<Rightarrow> int \<Rightarrow> bool option" where
  "isOption60Correct server_config_ipt60 img pUserVenderID opt60_len =
     (if 0 < opt60_len \<and> opt60_len < 128 then do {
        bs \<leftarrow> rdn img pUserVenderID (nat opt60_len);
        szVendID \<leftarrow> memcpy (replicate 128 0) 0 bs;
        let s = str_of (cstr szVendID);
        Some (case strstr server_config_ipt60 s of None \<Rightarrow> False
              | Some i \<Rightarrow> delimited server_config_ipt60 i (length s)) }
      else Some False)"

definition uses_pool2 :: "dhcpMessage \<Rightarrow> dhcpd \<Rightarrow> bool option" where
  "uses_pool2 p st = do {
     vendorid \<leftarrow> get_option p DHCP_VENDOR;
     (case (c_vendorid (d_config2 st), vendorid) of
        (Some v, Some q) \<Rightarrow>
          if d_enblSrv2 st \<noteq> 0 then do {
            n \<leftarrow> rd (message_image p) (q - 1);
            isOption60Correct v (message_image p) q (sint n) }
          else Some False
      | _ \<Rightarrow> Some False) }"

text \<open>
  The three tables have \<^verbatim>\<open>max_lease_in_both\<close> entries, so copying that many entries copies the
  whole table.
\<close>

definition enter_pool2 :: "dhcpd \<Rightarrow> dhcpd" where
  "enter_pool2 st =
     st\<lparr>d_tmpSrvCfg := d_config st,
        d_config := (d_config st)
          \<lparr>c_interface := c_interface (d_config2 st), c_ifindex := c_ifindex (d_config2 st),
            c_server := c_server (d_config2 st), c_start := c_start (d_config2 st), c_end := c_end (d_config2 st),
            c_vendorid := c_vendorid (d_config2 st), c_options := c_options (d_config2 st)\<rparr>,
        d_tmpls := d_leases st, d_leases := d_leases2 st\<rparr>"

definition leave_pool2 :: "dhcpd \<Rightarrow> dhcpd" where
  "leave_pool2 st =
     st\<lparr>d_config2 := d_config st, d_config := d_tmpSrvCfg st, d_leases2 := d_leases st, d_leases := d_tmpls st\<rparr>"

section \<open>One message\<close>

text \<open>A pointer into one of the two lease tables.\<close>

datatype lease_ref = In1 nat | In2 nat

definition find_lease :: "dhcpd \<Rightarrow> u8 list \<Rightarrow> lease_ref option option" where
  "find_lease st chaddr = do {
     tbl \<leftarrow> lease_table st;
     (case find_lease_by_chaddr tbl chaddr of
        Some i \<Rightarrow> Some (Some (In1 i))
      | None \<Rightarrow> do {
          tbl2 \<leftarrow> rdn (d_leases2 st) 0 (unat (c_max_leases (d_config2 st)));
          Some (map_option In2 (find_lease_two_by_chaddr tbl2 chaddr)) }) }"

fun deref :: "dhcpd \<Rightarrow> lease_ref \<Rightarrow> dhcpOfferedAddr option" where
  "deref st (In1 i) = rd (d_leases st) i"
| "deref st (In2 i) = rd (d_leases2 st) i"

fun assign :: "dhcpd \<Rightarrow> lease_ref \<Rightarrow> dhcpOfferedAddr \<Rightarrow> dhcpd option" where
  "assign st (In1 i) l = do { ls \<leftarrow> wr (d_leases st) i l; Some (st\<lparr>d_leases := ls\<rparr>) }"
| "assign st (In2 i) l = do { ls \<leftarrow> wr (d_leases2 st) i l; Some (st\<lparr>d_leases2 := ls\<rparr>) }"

definition update_lease :: "lease_ref \<Rightarrow> (dhcpOfferedAddr \<Rightarrow> dhcpOfferedAddr) \<Rightarrow> dhcpd \<Rightarrow> dhcpd option" where
  "update_lease ref f st = do { l \<leftarrow> deref st ref; assign st ref (f l) }"

text \<open>
  The host name kept with a lease.  Its length is a signed byte: when it is negative,
  \<^verbatim>\<open>strncpy\<close> takes it for almost 4 GB.
\<close>

definition client_hostname :: "dhcpMessage \<Rightarrow> nat option \<Rightarrow> (u8 list \<Rightarrow> u8 list) option" where
  "client_hostname p hostname =
     (case hostname of None \<Rightarrow> Some (\<lambda>h. h[0 := 0])
      | Some q \<Rightarrow> do {
          n \<leftarrow> rd (message_image p) (q - 1);
          let bytes = (if sint n \<ge> 64 then 63 else sint n);
          if bytes < 0 then None
          else do {
            bs \<leftarrow> rdn (message_image p) q (nat bytes);
            Some (\<lambda>h. (strncpy_field h (str_of (cstr bs)) (nat bytes))[nat bytes := 0]) } })"

datatype verdict = SendACK | SendNAK | Silent

definition request_verdict :: "u32 \<Rightarrow> u32 option \<Rightarrow> u32 option \<Rightarrow> u32 \<Rightarrow> u32 \<Rightarrow> verdict" where
  "request_verdict server server_id requested ciaddr yiaddr =
     (case server_id of
        Some sid \<Rightarrow> if sid = server \<and> requested = Some yiaddr then SendACK else Silent
      | None \<Rightarrow>
          (case requested of
             Some a \<Rightarrow> if yiaddr = a then SendACK else SendNAK
           | None \<Rightarrow> if yiaddr = ciaddr then SendACK else SendNAK))"

definition respond :: "env \<Rightarrow> dhcpMessage \<Rightarrow> verdict \<Rightarrow> u32 \<Rightarrow> dhcpd \<Rightarrow> dhcpd option" where
  "respond env p v yiaddr st =
     (case v of
        SendACK \<Rightarrow> do { (r, st1) \<leftarrow> sendACK env p yiaddr st; Some st1 }
      | SendNAK \<Rightarrow> do { (r, st1) \<leftarrow> sendNAK env p st; Some st1 }
      | Silent \<Rightarrow> Some st)"

definition handle_request :: "env \<Rightarrow> dhcpMessage \<Rightarrow> lease_ref option \<Rightarrow> dhcpd \<Rightarrow> dhcpd option" where
  "handle_request env p lease st = do {
     requested \<leftarrow> option_u32 p DHCP_REQUESTED_IP;
     server_id \<leftarrow> option_u32 p DHCP_SERVER_ID;
     hostname \<leftarrow> get_option p DHCP_HOST_NAME;
     st1 \<leftarrow> log_client ''R'' p st;
     (case lease of
        None \<Rightarrow> respond env p SendNAK 0 st1
      | Some ref \<Rightarrow> do {
          l \<leftarrow> deref st1 ref;
          st2 \<leftarrow> respond env p
            (request_verdict (c_server (d_config st1)) server_id requested (m_ciaddr p) (l_yiaddr l)) (l_yiaddr l) st1;
          name \<leftarrow> client_hostname p hostname;
          update_lease ref (\<lambda>l. l\<lparr>l_hostname := name (l_hostname l)\<rparr>) st2 }) }"

definition handle_discover :: "env \<Rightarrow> dhcpMessage \<Rightarrow> dhcpd \<Rightarrow> dhcpd option" where
  "handle_discover env p st = do {
     st1 \<leftarrow> log_client ''D'' p st;
     (r, st2) \<leftarrow> sendOffer env p st1;
     Some st2 }"

definition handle_message :: "env \<Rightarrow> dhcpMessage \<Rightarrow> u8 \<Rightarrow> lease_ref option \<Rightarrow> dhcpd \<Rightarrow> dhcpd option" where
  "handle_message env p state lease st =
     (if state = DHCPDISCOVER then handle_discover env p st
      else if state = DHCPREQUEST then handle_request env p lease st
      else if state = DHCPDECLINE then
        (case lease of None \<Rightarrow> Some st
         | Some ref \<Rightarrow> update_lease ref
             (\<lambda>l. l\<lparr>l_chaddr := replicate 16 0, l_expires := g_now env + c_decline_time (d_config st)\<rparr>) st)
      else if state = DHCPRELEASE then
        (case lease of None \<Rightarrow> Some st
         | Some ref \<Rightarrow> update_lease ref (\<lambda>l. l\<lparr>l_expires := g_now env\<rparr>) st)
      else if state = DHCPINFORM then do { (r, st1) \<leftarrow> send_inform env p st; Some st1 }
      else Some st)"

definition handle_packet :: "env \<Rightarrow> dhcpMessage \<Rightarrow> dhcpd \<Rightarrow> dhcpd option" where
  "handle_packet env p st = do {
     state \<leftarrow> get_option p DHCP_MESSAGE_TYPE;
     (case state of None \<Rightarrow> Some st
      | Some q \<Rightarrow> do {
          pool2 \<leftarrow> uses_pool2 p st;
          if \<not> pool2 \<and> d_enblSrv1 st = 0 then Some st
          else do {
            let st1 = (if pool2 then enter_pool2 st else st);
            lease \<leftarrow> find_lease st1 (m_chaddr p);
            s \<leftarrow> rd (message_image p) q;
            st2 \<leftarrow> handle_message env p s lease (st1\<lparr>d_flag_option121 := False\<rparr>);
            let st3 = st2\<lparr>d_flag_option121 := False\<rparr>;
            restore \<leftarrow> uses_pool2 p st3;
            Some (if restore then leave_pool2 st3 else st3) } }) }"

section \<open>Declined vendors\<close>

text \<open>
  The vendor identifiers the server must not serve; the loop stops at the first that
  matches.  \<^verbatim>\<open>opt_vend\<close> has 64 bytes and \<^verbatim>\<open>strlen\<close> needs a zero among them.
\<close>

fun test_vendorid ::
  "env \<Rightarrow> dhcpMessage \<Rightarrow> nat option \<Rightarrow> string list \<Rightarrow> dhcpd \<Rightarrow> (bool \<times> dhcpd) option" where
  "test_vendorid env p vendorid [] st = Some (False, st)"
| "test_vendorid env p vendorid (v # vs) st =
     (if v = [] then test_vendorid env p vendorid vs st
      else do {
        q \<leftarrow> vendorid;
        n \<leftarrow> rd (message_image p) (q - 1);
        bs \<leftarrow> (if sint n < 0 then None else rdn (message_image p) q (nat (sint n)));
        opt_vend \<leftarrow> memcpy (replicate 64 0) 0 bs;
        if 0 \<notin> set opt_vend then None
        else if str_of (cstr opt_vend) = v then do {
          st1 \<leftarrow> write_decline env (zero_lease\<lparr>l_chaddr := m_chaddr p, l_vendorid := opt_vend\<rparr>) st;
          (r, st2) \<leftarrow> sendNAK env p st1;
          Some (True, st2) }
        else test_vendorid env p vendorid vs st })"

section \<open>Start-up\<close>

record daemon =
  z_srv :: dhcpd
  z_timeout_end :: u32
  z_socket :: int

datatype outcome = Running daemon | Exited int dhcpd

definition exit_server :: "int \<Rightarrow> dhcpd \<Rightarrow> outcome" where
  "exit_server retval st = Exited retval (emit st (pidfile_delete (c_pidfile (d_config st))))"

text \<open>Traffic to the name servers of the IP phones keeps clear of the DNS proxy.\<close>

definition MarkIPphoneDNSRequestRule :: "string \<Rightarrow> effect list option" where
  "MarkIPphoneDNSRequestRule destDns = do {
     ts \<leftarrow> option_tokens destDns;
     cs \<leftarrow> those (map (\<lambda>t. sprintf_cmd (''iptables -t mangle -A PREROUTING -d '' @ t @
              ''  -j MARK --set-mark '' @ dec 0x11000013 @ ''/0xff0000ff'')) ts);
     Some (map SystemCmd cs) }"

definition init_lease_time :: "server_config \<Rightarrow> server_config option" where
  "init_lease_time cfg =
     (case find_option (c_options cfg) DHCP_LEASE_TIME of
        None \<Rightarrow> Some (cfg\<lparr>c_lease := 864000\<rparr>)
      | Some d \<Rightarrow> do { t \<leftarrow> rd32 d 2; Some (cfg\<lparr>c_lease := t\<rparr>) })"

text \<open>\<^verbatim>\<open>malloc(sizeof(struct dhcpOfferedAddr) * n)\<close>, the product of 32 bits, cleared.\<close>

definition alloc_leases :: "u32 \<Rightarrow> dhcpOfferedAddr list" where
  "alloc_leases n = replicate (unat (152 * n) div 152) zero_lease"

text \<open>Address, index and hardware address of an interface, or nothing when a query fails.\<close>

definition init_interface :: "if_answer \<Rightarrow> server_config \<Rightarrow> server_config option" where
  "init_interface a cfg = do {
     ad \<leftarrow> i_addr a;
     idx \<leftarrow> i_index a;
     hw \<leftarrow> i_hwaddr a;
     Some (cfg\<lparr>c_server := ad, c_ifindex := idx, c_arp := take 6 hw\<rparr>) }"

record boot_env =
  b_now :: u32
  b_buf0 :: "u8 list"
  b_config :: "string option"
  b_file :: "string \<Rightarrow> u8 list option"
  b_if1 :: if_answer
  b_if2 :: if_answer
  b_open :: "string \<Rightarrow> int"
  b_fdopen :: bool
  b_fork :: bool
  b_pid :: nat

definition boot_state :: dhcpd where
  "boot_state = \<lparr>d_config = zero_config, d_config2 = zero_config, d_tmpSrvCfg = zero_config,
     d_leases = [], d_leases2 = [], d_tmpls = [], d_enblSrv1 = 0, d_enblSrv2 = 0, d_viList = empty_vi_list,
     d_flag_option121 = False, d_bIpphone = False, d_UseIpPhoneVlan = False,
     d_ipPhoneipaddr = replicate 255 0, d_EnableQosVlan = False, d_out = []\<rparr>"

text \<open>Configuration, lease tables and lease files.\<close>

definition init_tables :: "boot_env \<Rightarrow> dhcpd option" where
  "init_tables b = do {
     (r, st1) \<leftarrow> read_config (b_buf0 b) (b_config b) boot_state;
     es \<leftarrow> (case c_pIPPhoneDNSServers (d_config st1) of None \<Rightarrow> Some []
           | Some s \<Rightarrow> MarkIPphoneDNSRequestRule s);
     cfg1 \<leftarrow> init_lease_time (d_config st1);
     let n = (if c_max_leases cfg1 > c_max_leases (d_config2 st1) then c_max_leases cfg1
              else c_max_leases (d_config2 st1));
     f1 \<leftarrow> c_lease_file cfg1;
     st2 \<leftarrow> read_leases (b_now b) (b_file b f1)
       ((emit st1 es)\<lparr>d_config := cfg1, d_tmpls := alloc_leases n, d_leases := alloc_leases n\<rparr>);
     cfg2 \<leftarrow> init_lease_time (d_config2 st2);
     f2 \<leftarrow> c_lease_file cfg2;
     read_leases2 (b_now b) (b_file b f2) (st2\<lparr>d_config2 := cfg2, d_leases2 := alloc_leases n\<rparr>) }"

text \<open>
  The interfaces, the process identity file and the child process; \<^verbatim>\<open>ifr_name\<close> has 16
  bytes.  The parent exits after a successful \<^verbatim>\<open>fork\<close>: the model follows the child.
\<close>

definition init_interfaces :: "boot_env \<Rightarrow> dhcpd \<Rightarrow> outcome option" where
  "init_interfaces b st =
     (if \<not> i_socket (b_if1 b) then Some (exit_server 1 st)
      else if length (c_interface (d_config st)) \<ge> 16 then None
      else case init_interface (b_if1 b) (d_config st) of None \<Rightarrow> Some (exit_server 1 st)
      | Some cfg1 \<Rightarrow>
         (let st1 = st\<lparr>d_config := cfg1\<rparr>;
              second = (d_enblSrv2 st \<noteq> 0 \<and> i_socket (b_if2 b)) in
          if second \<and> length (c_interface (d_config2 st)) \<ge> 16 then None
          else case (if second then init_interface (b_if2 b) (d_config2 st) else Some (d_config2 st)) of
            None \<Rightarrow> Some (exit_server 1 st1)
          | Some cfg2 \<Rightarrow>
             (let st2 = st1\<lparr>d_config2 := cfg2\<rparr>;
                  pid_fd = pidfile_acquire (b_open b) (c_pidfile cfg1) in
              if \<not> b_fork b then Some (exit_server 1 st2)
              else Some (Running \<lparr>
                z_srv = emit st2 (pidfile_write_release (b_fdopen b) (b_pid b) (c_pidfile cfg1) pid_fd),
                z_timeout_end = b_now b + c_auto_time cfg1, z_socket = - 1\<rparr>))))"

definition udhcpd_init :: "boot_env \<Rightarrow> outcome option" where
  "udhcpd_init b = do { st \<leftarrow> init_tables b; init_interfaces b st }"

section \<open>The main loop\<close>

text \<open>What one iteration sees: the world before and after \<^verbatim>\<open>select\<close>, and its result.\<close>

datatype selected = Timeout | SelectError | Readable "u8 list option"

record turn =
  x_before :: env
  x_after :: env
  x_listen :: sock_answer
  x_select :: selected

definition write_both :: "env \<Rightarrow> dhcpd \<Rightarrow> dhcpd option" where
  "write_both env st = do { st1 \<leftarrow> write_leases env st; write_leases2 env st1 }"

text \<open>The difference is stored in a signed \<^verbatim>\<open>long\<close> before it is compared.\<close>

definition timer_check :: "env \<Rightarrow> daemon \<Rightarrow> daemon option" where
  "timer_check env d =
     (if c_auto_time (d_config (z_srv d)) \<noteq> 0 \<and> sint (z_timeout_end d - g_now env) \<le> 0 then do {
        st \<leftarrow> write_both env (z_srv d);
        Some (d\<lparr>z_srv := st, z_timeout_end := g_now env + c_auto_time (d_config (z_srv d))\<rparr>) }
      else Some d)"

definition udhcpd_turn :: "turn \<Rightarrow> daemon \<Rightarrow> outcome option" where
  "udhcpd_turn x d =
     (let fd = (if z_socket d < 0 then fst (dhcpd_listen_socket (x_listen x)) else z_socket d) in
      if fd < 0 then Some (exit_server 0 (z_srv d))
      else do {
        d1 \<leftarrow> timer_check (x_before x) (d\<lparr>z_socket := fd\<rparr>);
        (case x_select x of
           Timeout \<Rightarrow> do {
             st \<leftarrow> write_both (x_after x) (z_srv d1);
             Some (Running (d1\<lparr>z_srv := st, z_socket := - 1,
               z_timeout_end := g_now (x_after x) + c_auto_time (d_config st)\<rparr>)) }
         | SelectError \<Rightarrow> Some (Running (d1\<lparr>z_socket := - 1\<rparr>))
         | Readable rr \<Rightarrow> do {
             (p, bytes) \<leftarrow> get_packet rr;
             if bytes < 0 then Some (Running d1)
             else do {
               st \<leftarrow> handle_packet (x_after x) p (z_srv d1);
               Some (Running (d1\<lparr>z_srv := st\<rparr>)) } }) })"

section \<open>Signals\<close>

text \<open>The loop looks at an entry before it compares the index with 255.\<close>

fun mark_loop :: "bool \<Rightarrow> u32 list \<Rightarrow> effect list option" where
  "mark_loop flag [] = None"
| "mark_loop flag (a # as) =
     (if a = 0 then Some []
      else do {
        let cmd = (\<lambda>op port. ''iptables -t mangle '' @ op @ '' PREROUTING -s '' @ inet_ntoa a @
              '' -p udp --dport  '' @ port @ '' -j MARK --set-mark 0x0/0xff0000ff'');
        d1 \<leftarrow> sprintf_cmd (cmd ''-D'' ''123'' @ '' 2>/dev/null'');
        d2 \<leftarrow> sprintf_cmd (cmd ''-D'' ''69'' @ '' 2>/dev/null'');
        adds \<leftarrow> (if flag then do {
            a1 \<leftarrow> sprintf_cmd (cmd ''-A'' ''123'');
            a2 \<leftarrow> sprintf_cmd (cmd ''-A'' ''69'');
            Some [a1, a2] }
          else Some []);
        rest \<leftarrow> mark_loop flag as;
        Some (map SystemCmd ([d1, d2] @ adds) @ rest) })"

definition setMarkForSipAddr :: "bool \<Rightarrow> dhcpd \<Rightarrow> dhcpd option" where
  "setMarkForSipAddr flag st = do {
     es \<leftarrow> mark_loop flag (d_ipPhoneipaddr st);
     Some (emit st (es @ [SystemCmd ''echo 9 > /proc/sys/net/ipv4/netfilter/ip_conntrack_dns''])) }"

datatype signal = SIGUSR1 | SIGUSR2 | SIGTERM | SIGHUP | SIGILL

definition udhcpd_signal :: "env \<Rightarrow> u8 list option \<Rightarrow> signal \<Rightarrow> daemon \<Rightarrow> outcome option" where
  "udhcpd_signal env ntp_file s d =
     (case s of
        SIGTERM \<Rightarrow> Some (exit_server 0 (z_srv d))
      | _ \<Rightarrow> do {
          st \<leftarrow> (case s of
             SIGUSR1 \<Rightarrow> write_leases env (z_srv d)
           | SIGUSR2 \<Rightarrow> setIPPhoneNtpCfg ntp_file (z_srv d)
           | SIGHUP \<Rightarrow> setMarkForSipAddr True (z_srv d)
           | _ \<Rightarrow> setMarkForSipAddr False (z_srv d));
          Some (Running (d\<lparr>z_srv := st\<rparr>)) })"

section \<open>Logging is harmless\<close>

text \<open>The length byte of an option.\<close>

definition option_length :: "dhcpMessage \<Rightarrow> nat \<Rightarrow> nat" where
  "option_length p q = unat (message_image p ! (q - 1))"

lemma option_length_sint:
  "sint (message_image p ! (q - 1)) =
    (if option_length p q < 128 then int (option_length p q) else int (option_length p q) - 256)"
  "option_length p q < 256"
  unfolding option_length_def by (rule sint_u8, rule unat_u8)

lemma logged_option_value:
  assumes "wf_message p" "get_option p c = Some (Some q)"
  shows "logged_option p c =
    (if 0 < option_length p q \<and> option_length p q < 128
     then Some (Some (slice (message_image p) q (option_length p q))) else Some None)"
proof -
  let ?n = "message_image p ! (q - 1)"
  note b = get_option_length_byte[OF assms]
  have "0 < sint ?n \<and> sint ?n < 128 \<longleftrightarrow> 0 < option_length p q \<and> option_length p q < 128"
    and "0 < sint ?n \<Longrightarrow> nat (sint ?n) = option_length p q"
    using option_length_sint(2)[of p q] unfolding option_length_sint(1) by (auto split: if_splits)
  then show ?thesis
    unfolding logged_option_def assms(2) bind.simps option.case b(1) Let_def
    using b(2,3) by (auto simp: rdn_def option_length_def)
qed

lemma logged_option_total:
  assumes "wf_message p"
  shows "\<exists>r. logged_option p c = Some r \<and> (\<forall>bs. r = Some bs \<longrightarrow> length bs < 128 \<and>
    (\<exists>q. get_option p c = Some (Some q) \<and> length bs = option_length p q))"
proof -
  obtain r where r: "get_option p c = Some r" using get_option_some[OF assms] by blast
  show ?thesis
  proof (cases r)
    case (Some q)
    with r have "get_option p c = Some (Some q)" by simp
    from logged_option_value[OF assms this] get_option_length_byte[OF assms this] this show ?thesis
      by (auto simp: option_length_def)
  qed (simp add: logged_option_def r)
qed

text \<open>Changes that only concern the log and the two flags for IP phones.\<close>

definition only_logs :: "dhcpd \<Rightarrow> dhcpd \<Rightarrow> bool" where
  "only_logs st st' \<longleftrightarrow> (\<exists>ss ph vl. st' = emit (st\<lparr>d_bIpphone := ph, d_UseIpPhoneVlan := vl\<rparr>) (map Syslog ss))"

lemma only_logs_trans: "only_logs a b \<Longrightarrow> only_logs b c \<Longrightarrow> only_logs a c"
proof -
  assume "only_logs a b" "only_logs b c"
  then obtain ss ph vl ss' ph' vl' where
    "b = emit (a\<lparr>d_bIpphone := ph, d_UseIpPhoneVlan := vl\<rparr>) (map Syslog ss)"
    "c = emit (b\<lparr>d_bIpphone := ph', d_UseIpPhoneVlan := vl'\<rparr>) (map Syslog ss')" by (auto simp: only_logs_def)
  then have "c = emit (a\<lparr>d_bIpphone := ph', d_UseIpPhoneVlan := vl'\<rparr>) (map Syslog (ss @ ss'))"
    by (simp add: emit_def)
  then show ?thesis unfolding only_logs_def by blast
qed

lemma only_logs_refl [simp]: "only_logs st st"
  unfolding only_logs_def
  by (rule exI[of _ "[]"], rule exI[of _ "d_bIpphone st"], rule exI[of _ "d_UseIpPhoneVlan st"]) (simp add: emit_def)

lemma only_logs_emit [simp]: "only_logs st (emit st [log_line t mac name v])"
  unfolding only_logs_def log_line_def
  by (rule exI[of _ "[_]"], rule exI[of _ "d_bIpphone st"], rule exI[of _ "d_UseIpPhoneVlan st"]) (simp add: emit_def)

text \<open>Option 50 fits the variable the log copies it to, or is skipped.\<close>

definition requested_ok :: "dhcpMessage \<Rightarrow> bool" where
  "requested_ok p \<longleftrightarrow>
     (\<forall>q. get_option p DHCP_REQUESTED_IP = Some (Some q) \<longrightarrow> option_length p q \<le> 4 \<or> 128 \<le> option_length p q)"

lemma log_text_total: "wf_message p \<Longrightarrow> \<exists>st'. log_text t mac p c name st = Some st' \<and> only_logs st st'"
  using logged_option_total[of p c] by (auto simp: log_text_def memcpy_def split: option.splits)

lemma log_requested_total:
  assumes "wf_message p" "requested_ok p"
  shows "\<exists>st'. log_requested t mac p st = Some st' \<and> only_logs st st'"
proof -
  from logged_option_total[OF assms(1), of DHCP_REQUESTED_IP] obtain r where
    r: "logged_option p DHCP_REQUESTED_IP = Some r" "\<forall>bs. r = Some bs \<longrightarrow> length bs < 128 \<and>
      (\<exists>q. get_option p DHCP_REQUESTED_IP = Some (Some q) \<and> length bs = option_length p q)" by blast
  then have "length bs \<le> 4" if "r = Some bs" for bs using assms(2) that by (force simp: requested_ok_def)
  with r(1) show ?thesis by (auto simp: log_requested_def memcpy_def split: option.splits)
qed

lemma log_vendor_total: "wf_message p \<Longrightarrow> \<exists>st'. log_vendor t mac p st = Some st' \<and> only_logs st st'"
proof -
  assume w: "wf_message p"
  from logged_option_total[OF w, of DHCP_VENDOR] obtain r where
    r: "logged_option p DHCP_VENDOR = Some r" "\<forall>bs. r = Some bs \<longrightarrow> length bs < 128" by blast
  have "only_logs st (emit (st\<lparr>d_bIpphone := b, d_UseIpPhoneVlan := a\<rparr>) [log_line t mac n v])" for a b n v
    unfolding only_logs_def log_line_def
    by (rule exI[of _ "[_]"], rule exI[of _ b], rule exI[of _ a]) (simp add: emit_def)
  with r show ?thesis
    by (cases r) (auto simp: log_vendor_def memcpy_def split_def Let_def)
qed

lemma log_client_id_total: "wf_message p \<Longrightarrow> \<exists>st'. log_client_id t mac p st = Some st' \<and> only_logs st st'"
  using logged_option_total[of p DHCP_CLIENT_ID]
  by (auto simp: log_client_id_def memcpy_def bcmOption61EthToStr_def rdn_def split: option.splits)

lemma client_mac_total: "wf_message p \<Longrightarrow> \<exists>mac. client_mac p = Some mac"
  by (simp add: client_mac_def bcmMacNumToStr_def rdn_def memcpy_def wf_message_def)

lemma log_client_total:
  assumes w: "wf_message p" and "requested_ok p"
  shows "\<exists>st'. log_client t p st = Some st' \<and> only_logs st st'"
proof -
  let ?st0 = "st\<lparr>d_bIpphone := False, d_UseIpPhoneVlan := False\<rparr>"
  obtain mac where m: "client_mac p = Some mac" using client_mac_total[OF w] by blast
  have 0: "only_logs st ?st0"
    unfolding only_logs_def
    by (rule exI[of _ "[]"], rule exI[of _ False], rule exI[of _ False]) (simp add: emit_def)
  obtain st1 where 1: "log_text t mac p DHCP_HOST_NAME ''12'' ?st0 = Some st1" "only_logs ?st0 st1"
    using log_text_total[OF w] by blast
  obtain st2 where 2: "log_text t mac p DHCP_DOMAIN_NAME ''15'' st1 = Some st2" "only_logs st1 st2"
    using log_text_total[OF w] by blast
  obtain st3 where 3: "log_requested t mac p st2 = Some st3" "only_logs st2 st3"
    using log_requested_total[OF assms] by blast
  obtain st4 where 4: "log_vendor t mac p st3 = Some st4" "only_logs st3 st4" using log_vendor_total[OF w] by blast
  obtain st5 where 5: "log_client_id t mac p st4 = Some st5" "only_logs st4 st5" using log_client_id_total[OF w] by blast
  obtain st6 where 6: "log_text t mac p DHCP_USER_CLASS ''77'' st5 = Some st6" "only_logs st5 st6"
    using log_text_total[OF w] by blast
  have "only_logs st st6"
    using 0 1(2) 2(2) 3(2) 4(2) 5(2) 6(2) only_logs_trans by meson
  then show ?thesis unfolding log_client_def Let_def m bind.simps 1(1) 2(1) 3(1) 4(1) 5(1) 6(1) by blast
qed

lemma only_logs_keeps:
  assumes "only_logs st st'" "server_ok st"
  shows "server_ok st'" "leases_of st' = leases_of st" "quiet st st'" "d_config st' = d_config st"
    "d_leases st' = d_leases st" "d_leases2 st' = d_leases2 st" "d_config2 st' = d_config2 st"
    "d_tmpSrvCfg st' = d_tmpSrvCfg st" "d_tmpls st' = d_tmpls st" "d_enblSrv1 st' = d_enblSrv1 st"
    "d_enblSrv2 st' = d_enblSrv2 st" "d_ipPhoneipaddr st' = d_ipPhoneipaddr st"
proof -
  from assms(1) obtain ss ph vl where
    e: "st' = emit (st\<lparr>d_bIpphone := ph, d_UseIpPhoneVlan := vl\<rparr>) (map Syslog ss)" by (auto simp: only_logs_def)
  have "quiet st st'" by (rule quietI[of _ _ "map Syslog ss"]) (auto simp: e)
  with assms(2) show "server_ok st'" "leases_of st' = leases_of st" "quiet st st'" "d_config st' = d_config st"
    "d_leases st' = d_leases st" "d_leases2 st' = d_leases2 st" "d_config2 st' = d_config2 st"
    "d_tmpSrvCfg st' = d_tmpSrvCfg st" "d_tmpls st' = d_tmpls st" "d_enblSrv1 st' = d_enblSrv1 st"
    "d_enblSrv2 st' = d_enblSrv2 st" "d_ipPhoneipaddr st' = d_ipPhoneipaddr st"
    by (simp_all add: e server_ok_def leases_of_def)
qed

section \<open>Both pools\<close>

text \<open>
  The invariant of the daemon: the active pool is well formed, and so is what the server
  switches to when a client of the second pool shows up.
\<close>

definition pools_ok :: "dhcpd \<Rightarrow> bool" where
  "pools_ok st \<longleftrightarrow> server_ok st \<and> wf_config (d_config2 st) \<and>
     unat (c_max_leases (d_config2 st)) \<le> length (d_leases2 st) \<and> length (d_leases2 st) = length (d_leases st) \<and>
     lease_inv (take (unat (c_max_leases (d_config st))) (d_leases2 st))"

text \<open>What handling a message leaves alone.\<close>

definition message_frame :: "dhcpd \<Rightarrow> dhcpd \<Rightarrow> bool" where
  "message_frame st st' \<longleftrightarrow> refreshed (d_config st) (d_config st') \<and> d_config2 st' = d_config2 st \<and>
     d_tmpSrvCfg st' = d_tmpSrvCfg st \<and> d_tmpls st' = d_tmpls st \<and> d_enblSrv1 st' = d_enblSrv1 st \<and>
     d_enblSrv2 st' = d_enblSrv2 st \<and> length (d_leases st') = length (d_leases st) \<and>
     length (d_leases2 st') = length (d_leases2 st)"

lemma handler_message_frame: "handler_frame st st' \<Longrightarrow> message_frame st st'"
  by (simp add: handler_frame_def message_frame_def)

lemma message_frame_trans: "message_frame a b \<Longrightarrow> message_frame b c \<Longrightarrow> message_frame a c"
  by (auto simp: message_frame_def intro: refreshed_trans)

lemma message_frame_refl [simp]: "message_frame st st"
  by (simp add: message_frame_def)

lemma handler_pools_ok:
  assumes "pools_ok st" "handler_frame st st'" "server_ok st'"
  shows "pools_ok st'"
  using assms refreshed_fields(2)[of "d_config st" "d_config st'"] by (auto simp: pools_ok_def handler_frame_def)

lemma only_logs_pools:
  assumes "only_logs st st'" "pools_ok st"
  shows "pools_ok st'" "message_frame st st'"
proof -
  have s: "server_ok st" using assms(2) by (simp add: pools_ok_def)
  note k = only_logs_keeps[OF assms(1) s]
  show "pools_ok st'" using assms(2) k by (simp add: pools_ok_def)
  show "message_frame st st'" using k by (simp add: message_frame_def)
qed

lemma lease_inv_touch:
  assumes "lease_inv ls" "i < length ls \<Longrightarrow> l_yiaddr l = l_yiaddr (ls ! i)"
    "i < length ls \<Longrightarrow> l_chaddr l = l_chaddr (ls ! i) \<or> l_chaddr l = replicate 16 0"
  shows "lease_inv (ls[i := l])"
proof (cases "i < length ls")
  case True
  have b: "blank_chaddr (replicate 16 0)" by (simp add: blank_chaddr_def)
  have "\<forall>x \<in> set (ls[i := l]). length (l_chaddr x) = 16"
    using assms(1,3) True set_update_subset_insert[of ls i l] by (fastforce simp: lease_inv_def)
  moreover have "(\<not> blank_chaddr (l_chaddr (ls[i := l] ! a)) \<longrightarrow> l_chaddr (ls[i := l] ! a) \<noteq> l_chaddr (ls[i := l] ! c)) \<and>
      (l_yiaddr (ls[i := l] ! a) \<noteq> 0 \<longrightarrow> l_yiaddr (ls[i := l] ! a) \<noteq> l_yiaddr (ls[i := l] ! c))"
    if "a < length ls" "c < length ls" "a \<noteq> c" for a c
  proof -
    have "(\<not> blank_chaddr (l_chaddr (ls ! a)) \<longrightarrow> l_chaddr (ls ! a) \<noteq> l_chaddr (ls ! c)) \<and>
      (l_yiaddr (ls ! a) \<noteq> 0 \<longrightarrow> l_yiaddr (ls ! a) \<noteq> l_yiaddr (ls ! c))"
      using assms(1) that by (simp add: lease_inv_def)
    then show ?thesis using assms(2)[OF True] assms(3)[OF True] b that True
      by (auto simp: nth_list_update)
  qed
  ultimately show ?thesis unfolding lease_inv_def length_list_update by blast
qed (simp add: assms(1) list_update_beyond)

fun ref_ok :: "dhcpd \<Rightarrow> lease_ref \<Rightarrow> bool" where
  "ref_ok st (In1 i) \<longleftrightarrow> i < length (d_leases st)"
| "ref_ok st (In2 i) \<longleftrightarrow> i < length (d_leases2 st)"

lemma ref_ok_frame: "message_frame st st' \<Longrightarrow> ref_ok st' ref = ref_ok st ref"
  by (cases ref) (simp_all add: message_frame_def)

lemma deref_total: "ref_ok st ref \<Longrightarrow> \<exists>l. deref st ref = Some l"
  by (cases ref) (simp_all add: rd_def)

text \<open>Writing through a lease pointer without giving the entry to someone else.\<close>

lemma update_lease_pools:
  assumes "pools_ok st" "ref_ok st ref"
    "\<And>l. l_yiaddr (f l) = l_yiaddr l" "\<And>l. l_chaddr (f l) = l_chaddr l \<or> l_chaddr (f l) = replicate 16 0"
  shows "\<exists>st'. update_lease ref f st = Some st' \<and> pools_ok st' \<and> message_frame st st' \<and> d_out st' = d_out st \<and>
    d_config st' = d_config st \<and> d_ipPhoneipaddr st' = d_ipPhoneipaddr st \<and>
    (leases_of st' = leases_of st \<or> (\<exists>i. leases_of st' = (leases_of st)[i := f (leases_of st ! i)]))"
proof -
  let ?n = "unat (c_max_leases (d_config st))"
  have inv: "lease_inv (take ?n (ls[i := f (ls ! i)]))" if "lease_inv (take ?n ls)" "i < length ls" for ls i
    unfolding take_update_swap using that assms(3,4) by (intro lease_inv_touch) auto
  have nth: "(take ?n ls)[i := f (ls ! i)] = (take ?n ls)[i := f (take ?n ls ! i)]" for ls and i :: nat
    by (cases "i < ?n") (simp_all add: list_update_beyond)
  have "\<exists>st'. update_lease ref f st = Some st' \<and> pools_ok st' \<and> message_frame st st' \<and> d_out st' = d_out st \<and>
    d_config st' = d_config st \<and> d_ipPhoneipaddr st' = d_ipPhoneipaddr st \<and>
    (leases_of st' = leases_of st \<or> (\<exists>i. leases_of st' = (leases_of st)[i := f (leases_of st ! i)]))"
  proof (cases ref)
    case (In1 i)
    have "(take ?n (d_leases st))[i := f (d_leases st ! i)] = (take ?n (d_leases st))[i := f (take ?n (d_leases st) ! i)]"
      by (rule nth)
    with In1 show ?thesis using assms(1,2) inv[of "d_leases st" i]
      by (auto simp: update_lease_def rd_def wr_def pools_ok_def server_ok_def leases_of_def message_frame_def take_update_swap)
  next
    case (In2 i)
    then show ?thesis using assms(1,2) inv[of "d_leases2 st" i]
      by (simp add: update_lease_def rd_def wr_def pools_ok_def server_ok_def leases_of_def message_frame_def)
  qed
  then show ?thesis .
qed

lemma find_lease_total:
  assumes "pools_ok st"
  shows "\<exists>r. find_lease st ch = Some r \<and> (\<forall>ref. r = Some ref \<longrightarrow> ref_ok st ref)"
proof -
  have s: "server_ok st" using assms by (simp add: pools_ok_def)
  have t2: "rdn (d_leases2 st) 0 (unat (c_max_leases (d_config2 st))) =
      Some (take (unat (c_max_leases (d_config2 st))) (d_leases2 st))"
    using assms by (simp add: pools_ok_def rdn_def slice_def)
  have l: "length (leases_of st) \<le> length (d_leases st)" by (simp add: leases_of_def)
  show ?thesis
    unfolding find_lease_def lease_table_ok[OF s] bind.simps t2
      find_lease_by_chaddr_def find_lease_two_by_chaddr_def
    using l by (auto split: option.split dest!: find_index_le)
qed

section \<open>Handling a message\<close>

text \<open>
  What the server needs of a message and of the world to handle it: an option 50 that fits,
  a host name below 128 bytes, a vendor identity that parses, a serial number of at most 110
  characters, and room for another IP phone.
\<close>

definition hostname_ok :: "dhcpMessage \<Rightarrow> bool" where
  "hostname_ok p \<longleftrightarrow> (\<forall>q. get_option p DHCP_HOST_NAME = Some (Some q) \<longrightarrow> option_length p q < 128)"

definition benign :: "env \<Rightarrow> dhcpMessage \<Rightarrow> bool" where
  "benign env p \<longleftrightarrow> requested_ok p \<and> hostname_ok p \<and> identity_ok env p \<and> length (g_serial env) \<le> 110"

definition phone_room :: "dhcpd \<Rightarrow> bool" where
  "phone_room st \<longleftrightarrow> 0 \<in> set (d_ipPhoneipaddr st)"

lemma client_hostname_total:
  assumes "wf_message p" "hostname_ok p" "get_option p DHCP_HOST_NAME = Some h"
  shows "\<exists>f. client_hostname p h = Some f"
proof (cases h)
  case (Some q)
  with assms have g: "get_option p DHCP_HOST_NAME = Some (Some q)" and l: "option_length p q < 128"
    by (simp_all add: hostname_ok_def)
  note b = get_option_length_byte[OF assms(1) g]
  have "sint (message_image p ! (q - 1)) = int (option_length p q)" using option_length_sint[of p q] l by simp
  then show ?thesis
    unfolding client_hostname_def Some option.case b(1) bind.simps Let_def
    using b(2,3) by (auto simp: rdn_def option_length_def)
qed (simp add: client_hostname_def)

lemma handle_discover_total:
  assumes "pools_ok st" "wf_message p" "benign env p"
  shows "\<exists>st'. handle_discover env p st = Some st' \<and> pools_ok st' \<and> message_frame st st'"
proof -
  obtain st1 where 1: "log_client ''D'' p st = Some st1" "only_logs st st1"
    using log_client_total[OF assms(2)] assms(3) by (auto simp: benign_def)
  note k = only_logs_pools[OF 1(2) assms(1)]
  have s: "server_ok st1" using k(1) by (simp add: pools_ok_def)
  obtain r st2 where 2: "sendOffer env p st1 = Some (r, st2)" "server_ok st2" "handler_frame st1 st2"
    using sendOffer_spec[OF s assms(2), of env] assms(3) by (auto simp: benign_def)
  have "pools_ok st2" by (rule handler_pools_ok[OF k(1) 2(3,2)])
  moreover have "message_frame st st2" using k(2) handler_message_frame[OF 2(3)] by (rule message_frame_trans)
  ultimately show ?thesis unfolding handle_discover_def 1(1) 2(1) bind.simps prod.case by blast
qed

lemma emit_pools: "pools_ok (emit st es) = pools_ok st" "message_frame s (emit st es) = message_frame s st"
  by (simp_all add: pools_ok_def message_frame_def)

lemma sendNAK_pools:
  assumes "pools_ok st" "wf_message p"
  shows "\<exists>r st'. sendNAK env p st = Some (r, st') \<and> pools_ok st' \<and> message_frame st st'"
  using sendNAK_spec[OF assms(2), of env st] assms(1) by (auto simp: emit_pools)

lemma sendACK_pools:
  assumes "pools_ok st" "wf_message p" "benign env p" "phone_room st"
  shows "\<exists>r st'. sendACK env p yi st = Some (r, st') \<and> pools_ok st' \<and> message_frame st st'"
proof -
  have s: "server_ok st" and ph: "phones_ok st" using assms(1,4) by (simp_all add: pools_ok_def phones_ok_def phone_room_def)
  obtain r st2 where 2: "sendACK env p yi st = Some (r, st2)" "server_ok st2" "handler_frame st st2"
    using sendACK_spec[OF s assms(2) _ _ ph, of env yi] assms(3) by (auto simp: benign_def)
  have "pools_ok st2" by (rule handler_pools_ok[OF assms(1) 2(3,2)])
  with 2(1) handler_message_frame[OF 2(3)] show ?thesis by blast
qed

lemma respond_pools:
  assumes "pools_ok st" "wf_message p" "benign env p" "phone_room st"
  shows "\<exists>st'. respond env p v yi st = Some st' \<and> pools_ok st' \<and> message_frame st st'"
  using sendNAK_pools[OF assms(1,2), of env] sendACK_pools[OF assms, of yi] assms(1)
  by (cases v) (auto simp: respond_def)

text \<open>A REQUEST of a client with a lease: the log, the answer, the host name.\<close>

definition same_binding :: "dhcpOfferedAddr list \<Rightarrow> dhcpOfferedAddr list \<Rightarrow> bool" where
  "same_binding ls ls' \<longleftrightarrow> map l_chaddr ls' = map l_chaddr ls \<and> map l_yiaddr ls' = map l_yiaddr ls \<and>
     map l_expires ls' = map l_expires ls"

lemma same_binding_update:
  "l_chaddr l = l_chaddr (ls ! i) \<Longrightarrow> l_yiaddr l = l_yiaddr (ls ! i) \<Longrightarrow> l_expires l = l_expires (ls ! i) \<Longrightarrow>
   same_binding ls (ls[i := l])"
  by (cases "i < length ls") (simp_all add: same_binding_def map_update list_update_same_conv list_update_beyond)

lemma handle_request_lease:
  assumes "pools_ok st" "wf_message p" "benign env p" "phone_room st" "ref_ok st ref" "deref st ref = Some l"
    "option_u32 p DHCP_SERVER_ID = Some sid" "option_u32 p DHCP_REQUESTED_IP = Some ro"
  shows "\<exists>st1 st2 st'. only_logs st st1 \<and> respond env p
      (request_verdict (c_server (d_config st)) sid ro (m_ciaddr p) (l_yiaddr l)) (l_yiaddr l) st1 = Some st2 \<and>
    handle_request env p (Some ref) st = Some st' \<and> pools_ok st' \<and> message_frame st st' \<and>
    d_out st' = d_out st2 \<and> same_binding (leases_of st2) (leases_of st')"
proof -
  obtain h where h: "get_option p DHCP_HOST_NAME = Some h" using get_option_some[OF assms(2)] by blast
  obtain name where name: "client_hostname p h = Some name"
    using client_hostname_total[OF assms(2) _ h] assms(3) by (auto simp: benign_def)
  obtain st1 where 1: "log_client ''R'' p st = Some st1" "only_logs st st1"
    using log_client_total[OF assms(2)] assms(3) by (auto simp: benign_def)
  note k = only_logs_pools[OF 1(2) assms(1)]
  have "server_ok st" using assms(1) by (simp add: pools_ok_def)
  note kk = only_logs_keeps[OF 1(2) this]
  have pr: "phone_room st1" using kk(12) assms(4) by (simp add: phone_room_def)
  have l: "deref st1 ref = Some l" using assms(6) kk(5,6) by (cases ref) simp_all
  let ?v = "request_verdict (c_server (d_config st)) sid ro (m_ciaddr p) (l_yiaddr l)"
  obtain st2 where 2: "respond env p ?v (l_yiaddr l) st1 = Some st2" "pools_ok st2" "message_frame st1 st2"
    using respond_pools[OF k(1) assms(2,3) pr] by blast
  have "ref_ok st2 ref" using assms(5) ref_ok_frame[OF k(2)] ref_ok_frame[OF 2(3)] by simp
  from update_lease_pools[OF 2(2) this, of "\<lambda>l. l\<lparr>l_hostname := name (l_hostname l)\<rparr>"]
  obtain st3 where 3: "update_lease ref (\<lambda>l. l\<lparr>l_hostname := name (l_hostname l)\<rparr>) st2 = Some st3"
    "pools_ok st3" "message_frame st2 st3" "d_out st3 = d_out st2"
    "leases_of st3 = leases_of st2 \<or> (\<exists>i. leases_of st3 =
       (leases_of st2)[i := (leases_of st2 ! i)\<lparr>l_hostname := name (l_hostname (leases_of st2 ! i))\<rparr>])" by auto
  have b: "same_binding (leases_of st2) (leases_of st3)"
    using 3(5) by (auto intro!: same_binding_update) (simp add: same_binding_def)
  have "handle_request env p (Some ref) st = Some st3"
    unfolding handle_request_def assms(7,8) h 1(1) bind.simps option.case l kk(4) 2(1) name 3(1) ..
  with 1(2) 2(1) 3(2,4) b message_frame_trans[OF k(2) message_frame_trans[OF 2(3) 3(3)]] show ?thesis by blast
qed

lemma handle_request_total:
  assumes "pools_ok st" "wf_message p" "benign env p" "phone_room st" "\<And>ref. lease = Some ref \<Longrightarrow> ref_ok st ref"
  shows "\<exists>st'. handle_request env p lease st = Some st' \<and> pools_ok st' \<and> message_frame st st'"
proof -
  obtain ro where ro: "option_u32 p DHCP_REQUESTED_IP = Some ro" using option_u32_total[OF assms(2)] by blast
  obtain sid where sid: "option_u32 p DHCP_SERVER_ID = Some sid" using option_u32_total[OF assms(2)] by blast
  show ?thesis
  proof (cases lease)
    case None
    obtain h where h: "get_option p DHCP_HOST_NAME = Some h" using get_option_some[OF assms(2)] by blast
    obtain st1 where 1: "log_client ''R'' p st = Some st1" "only_logs st st1"
      using log_client_total[OF assms(2)] assms(3) by (auto simp: benign_def)
    note k = only_logs_pools[OF 1(2) assms(1)]
    have "server_ok st" using assms(1) by (simp add: pools_ok_def)
    then have pr: "phone_room st1" using only_logs_keeps(12)[OF 1(2)] assms(4) by (simp add: phone_room_def)
    from respond_pools[OF k(1) assms(2,3) pr, of SendNAK 0] message_frame_trans[OF k(2)] show ?thesis
      unfolding handle_request_def ro sid h 1(1) bind.simps None option.case by blast
  next
    case (Some ref)
    then obtain l where "deref st ref = Some l" using deref_total assms(5) by blast
    from handle_request_lease[OF assms(1-4) assms(5)[OF Some] this sid ro] Some show ?thesis by blast
  qed
qed

lemma handle_message_total:
  assumes "pools_ok st" "wf_message p" "benign env p" "phone_room st" "\<And>ref. lease = Some ref \<Longrightarrow> ref_ok st ref"
  shows "\<exists>st'. handle_message env p s lease st = Some st' \<and> pools_ok st' \<and> message_frame st st'"
proof -
  have so: "server_ok st" using assms(1) by (simp add: pools_ok_def)
  have u: "\<exists>st'. (case lease of None \<Rightarrow> Some st | Some ref \<Rightarrow> update_lease ref f st) = Some st' \<and> pools_ok st' \<and> message_frame st st'"
    if "\<And>l. l_yiaddr (f l) = l_yiaddr l" "\<And>l. l_chaddr (f l) = l_chaddr l \<or> l_chaddr (f l) = replicate 16 0" for f
    using update_lease_pools[OF assms(1) assms(5) that] assms(1) by (cases lease) fastforce+
  have i: "\<exists>st'. (do { (r, st1) \<leftarrow> send_inform env p st; Some st1 }) = Some st' \<and> pools_ok st' \<and> message_frame st st'"
    using send_inform_spec[OF so assms(2), of env] assms(1) by (auto simp: emit_pools)
  show ?thesis
    using handle_discover_total[OF assms(1-3)] handle_request_total[OF assms] u i assms(1)
    unfolding handle_message_def by (simp split: if_splits)
qed

lemma uses_pool2_total: "wf_message p \<Longrightarrow> \<exists>b. uses_pool2 p st = Some b"
proof -
  assume w: "wf_message p"
  obtain r where r: "get_option p DHCP_VENDOR = Some r" using get_option_some[OF w] by blast
  have "\<exists>b. isOption60Correct v (message_image p) q (sint (message_image p ! (q - 1))) = Some b"
    if "get_option p DHCP_VENDOR = Some (Some q)" for q v
    using get_option_length_byte(2,3)[OF w that] option_length_sint[of p q]
    unfolding isOption60Correct_def by (auto simp: rdn_def memcpy_def option_length_def Let_def)
  with r get_option_length_byte(1)[OF w, of DHCP_VENDOR] show ?thesis
    by (auto simp: uses_pool2_def split: option.splits)
qed

lemma uses_pool2_cong:
  assumes "d_config2 st' = d_config2 st" "d_enblSrv2 st' = d_enblSrv2 st"
  shows "uses_pool2 p st' = uses_pool2 p st"
  unfolding uses_pool2_def assms ..

lemma uses_pool2_frame: "message_frame st st' \<Longrightarrow> uses_pool2 p st' = uses_pool2 p st"
  by (rule uses_pool2_cong) (simp_all add: message_frame_def)

lemma uses_pool2_flag [simp]: "uses_pool2 p (st\<lparr>d_flag_option121 := b\<rparr>) = uses_pool2 p st"
  "uses_pool2 p (enter_pool2 st) = uses_pool2 p st"
  by (rule uses_pool2_cong; simp add: enter_pool2_def)+

lemma pools_ok_flag [simp]:
  "pools_ok (st\<lparr>d_flag_option121 := b\<rparr>) = pools_ok st" "message_frame s (st\<lparr>d_flag_option121 := b\<rparr>) = message_frame s st"
  "message_frame (st\<lparr>d_flag_option121 := b\<rparr>) s = message_frame st s" "ref_ok (st\<lparr>d_flag_option121 := b\<rparr>) ref = ref_ok st ref"
  "phone_room (st\<lparr>d_flag_option121 := b\<rparr>) = phone_room st" "phone_room (enter_pool2 st) = phone_room st"
  by (simp_all add: pools_ok_def server_ok_def leases_of_def message_frame_def phone_room_def enter_pool2_def)
    (cases ref; simp)

lemma find_lease_flag [simp]: "find_lease (st\<lparr>d_flag_option121 := b\<rparr>) ch = find_lease st ch"
  by (simp add: find_lease_def lease_table_def cong: option.case_cong)

lemma enter_pool2_ok: "pools_ok st \<Longrightarrow> pools_ok (enter_pool2 st)"
  by (simp add: pools_ok_def server_ok_def leases_of_def enter_pool2_def wf_config_def cong: option.case_cong)

lemma leave_pool2_ok:
  assumes "pools_ok st" "pools_ok st'" "message_frame (enter_pool2 st) st'"
  shows "pools_ok (leave_pool2 st')"
proof -
  have "c_max_leases (d_config st') = c_max_leases (d_config st)"
    using refreshed_fields(2)[of "d_config (enter_pool2 st)" "d_config st'"] assms(3)
    by (simp add: message_frame_def enter_pool2_def)
  with assms show ?thesis
    by (simp add: pools_ok_def server_ok_def leases_of_def leave_pool2_def message_frame_def enter_pool2_def)
qed

text \<open>Handling a packet: the branch it takes and the state the handler leaves.\<close>

lemma handle_packet_run:
  assumes "pools_ok st" "wf_message p" "benign env p" "phone_room st" "get_option p DHCP_MESSAGE_TYPE = Some (Some q)"
    "uses_pool2 p st = Some pool2" "pool2 \<or> d_enblSrv1 st \<noteq> 0"
  defines "st1 \<equiv> (if pool2 then enter_pool2 st else st)\<lparr>d_flag_option121 := False\<rparr>"
  shows "\<exists>lease st2. find_lease st1 (m_chaddr p) = Some lease \<and>
    handle_message env p (message_image p ! q) lease st1 = Some st2 \<and> pools_ok st2 \<and> message_frame st1 st2 \<and>
    handle_packet env p st =
      Some (if pool2 then leave_pool2 (st2\<lparr>d_flag_option121 := False\<rparr>) else st2\<lparr>d_flag_option121 := False\<rparr>)"
proof -
  have ok: "pools_ok st1" using assms(1) enter_pool2_ok by (simp add: st1_def)
  have pr: "phone_room st1" using assms(4) by (simp add: st1_def)
  obtain lease where l: "find_lease st1 (m_chaddr p) = Some lease" "\<And>ref. lease = Some ref \<Longrightarrow> ref_ok st1 ref"
    using find_lease_total[OF ok] by blast
  then have l': "find_lease (if pool2 then enter_pool2 st else st) (m_chaddr p) = Some lease"
    by (simp add: st1_def)
  obtain st2 where 2: "handle_message env p (message_image p ! q) lease st1 = Some st2" "pools_ok st2" "message_frame st1 st2"
    using handle_message_total[OF ok assms(2,3) pr l(2)] by blast
  have r: "rd (message_image p) q = Some (message_image p ! q)"
    using get_option_length_byte(2,3)[OF assms(2,5)] by (simp add: rd_def)
  have u: "uses_pool2 p (st2\<lparr>d_flag_option121 := False\<rparr>) = Some pool2"
    using uses_pool2_frame[OF 2(3)] assms(6) by (simp add: st1_def)
  have "handle_packet env p st =
      Some (if pool2 then leave_pool2 (st2\<lparr>d_flag_option121 := False\<rparr>) else st2\<lparr>d_flag_option121 := False\<rparr>)"
    unfolding handle_packet_def assms(5) bind.simps option.case assms(6) Let_def l' r 2(1)[unfolded st1_def] u
    using assms(7) by auto
  with l(1) 2 show ?thesis by blast
qed

lemma handle_packet_total:
  assumes "pools_ok st" "wf_message p" "benign env p" "phone_room st"
  shows "\<exists>st'. handle_packet env p st = Some st' \<and> pools_ok st'"
proof -
  obtain r where r: "get_option p DHCP_MESSAGE_TYPE = Some r" using get_option_some[OF assms(2)] by blast
  obtain pool2 where u: "uses_pool2 p st = Some pool2" using uses_pool2_total[OF assms(2)] by blast
  show ?thesis
  proof (cases "r = None \<or> \<not> (pool2 \<or> d_enblSrv1 st \<noteq> 0)")
    case True
    then show ?thesis using assms(1) r u by (auto simp: handle_packet_def split: option.split)
  next
    case False
    then obtain q where q: "r = Some q" and e: "pool2 \<or> d_enblSrv1 st \<noteq> 0" by auto
    let ?st1 = "(if pool2 then enter_pool2 st else st)\<lparr>d_flag_option121 := False\<rparr>"
    from handle_packet_run[OF assms r[unfolded q] u e] obtain st2 where
      2: "pools_ok st2" "message_frame ?st1 st2"
      "handle_packet env p st = Some (if pool2 then leave_pool2 (st2\<lparr>d_flag_option121 := False\<rparr>)
         else st2\<lparr>d_flag_option121 := False\<rparr>)" by blast
    have "pools_ok (leave_pool2 (st2\<lparr>d_flag_option121 := False\<rparr>))" if pool2
      using leave_pool2_ok[OF assms(1), of "st2\<lparr>d_flag_option121 := False\<rparr>"] 2(1,2) that by simp
    with 2 show ?thesis by (cases pool2) simp_all
  qed
qed

section \<open>The loop keeps the invariant\<close>

lemma write_both_total:
  assumes "pools_ok st" "phone_room st"
  shows "\<exists>st'. write_both env st = Some st' \<and> pools_ok st' \<and> phone_room st'"
proof -
  have s: "server_ok st" "0 \<in> set (d_ipPhoneipaddr st)" using assms by (simp_all add: pools_ok_def phone_room_def)
  obtain st1 where 1: "write_leases env st = Some st1" "keeps_leases st st1" "0 \<in> set (d_ipPhoneipaddr st1)"
    using write_leases_spec[OF s] by blast
  have k: "pools_ok st1" using 1(2) handler_pools_ok[OF assms(1)] by (simp add: keeps_leases_def)
  then obtain es where 2: "write_leases2 env st1 = Some (emit st1 es)"
    using write_leases2_spec[of st1] by (auto simp: pools_ok_def)
  show ?thesis
    unfolding write_both_def 1(1) 2 bind.simps using k 1(3) by (auto simp: emit_pools phone_room_def)
qed

lemma timer_check_total:
  assumes "pools_ok (z_srv d)" "phone_room (z_srv d)"
  shows "\<exists>d'. timer_check env d = Some d' \<and> pools_ok (z_srv d') \<and> phone_room (z_srv d')"
  using write_both_total[OF assms, of env] assms by (auto simp: timer_check_def)

lemma get_packet_wf: "\<exists>p n. get_packet rr = Some (p, n) \<and> wf_message p"
proof (cases rr)
  case (Some dgram)
  have "wf_message (image_message (received dgram)\<lparr>m_flags := f\<rparr>)" for f
    using wf_image_message[OF length_received, of dgram] by (simp add: wf_message_def)
  with wf_image_message[OF length_received, of dgram] show ?thesis unfolding Some get_packet_cases by auto
qed (simp add: get_packet_def)

definition turn_ok :: "turn \<Rightarrow> daemon \<Rightarrow> bool" where
  "turn_ok x d \<longleftrightarrow> phone_room (z_srv d) \<and>
     (\<forall>rr p n. x_select x = Readable rr \<longrightarrow> get_packet rr = Some (p, n) \<longrightarrow> 0 \<le> n \<longrightarrow> benign (x_after x) p)"

lemma udhcpd_turn_total:
  assumes "pools_ok (z_srv d)" "turn_ok x d"
  shows "\<exists>oc. udhcpd_turn x d = Some oc \<and> (\<forall>d'. oc = Running d' \<longrightarrow> pools_ok (z_srv d'))"
proof -
  define fd where "fd = (if z_socket d < 0 then fst (dhcpd_listen_socket (x_listen x)) else z_socket d)"
  have "pools_ok (z_srv (d\<lparr>z_socket := fd\<rparr>))" "phone_room (z_srv (d\<lparr>z_socket := fd\<rparr>))"
    using assms by (simp_all add: turn_ok_def)
  then obtain d1 where 1: "timer_check (x_before x) (d\<lparr>z_socket := fd\<rparr>) = Some d1" "pools_ok (z_srv d1)" "phone_room (z_srv d1)"
    using timer_check_total by blast
  note red = udhcpd_turn_def fd_def[symmetric] Let_def 1(1) bind.simps
  show ?thesis
  proof (cases "fd < 0")
    case True
    then show ?thesis unfolding red by (simp add: exit_server_def)
  next
    case False
    show ?thesis
    proof (cases "x_select x")
      case Timeout
      with False write_both_total[OF 1(2,3), of "x_after x"] show ?thesis unfolding red by auto
    next
      case SelectError
      with False 1(2) show ?thesis unfolding red by simp
    next
      case (Readable rr)
      obtain p n where g: "get_packet rr = Some (p, n)" "wf_message p" using get_packet_wf by blast
      have "benign (x_after x) p" if "0 \<le> n" using assms(2) Readable g(1) that by (auto simp: turn_ok_def)
      with False Readable g 1(2) handle_packet_total[OF 1(2) g(2) _ 1(3), of "x_after x"] show ?thesis
        unfolding red by auto
    qed
  qed
qed

lemma ntp_file_loop_total: "p + 2 * n \<le> 256 \<Longrightarrow> length buf = 256 \<Longrightarrow> \<exists>r. ntp_file_loop n p buf ips = Some r"
proof (induction n arbitrary: p buf ips)
  case 0
  then show ?case by (cases ips) simp
next
  case (Suc n)
  obtain ip1 ip2 where i: "ips = (ip1, ip2)" by (cases ips)
  show ?case
  proof (cases "buf ! p = 10")
    case True
    have "\<exists>r. ntp_file_loop n (p + 2) (buf[p := 0]) (a, b) = Some r" for a b
      using Suc.IH[of "p + 2" "buf[p := 0]" "(a, b)"] Suc.prems by simp
    with True Suc.prems show ?thesis unfolding i by (auto simp: rd_def wr_def rdn_def)
  next
    case False
    with Suc show ?thesis unfolding i by (auto simp: rd_def)
  qed
qed

lemma mark_loop_total: "0 \<in> set as \<Longrightarrow> \<exists>es. mark_loop flag as = Some es"
proof (induction as)
  case (Cons a as)
  have "length (inet_ntoa a) \<le> 15" by (rule length_inet_ntoa)
  with Cons show ?case by (auto simp: sprintf_cmd_def)
qed simp

text \<open>A file of at most 128 bytes keeps \<^verbatim>\<open>setIPPhoneNtpCfg\<close> inside its buffer.\<close>

definition signal_ok :: "u8 list option \<Rightarrow> daemon \<Rightarrow> bool" where
  "signal_ok ntp_file d \<longleftrightarrow> phone_room (z_srv d) \<and> (\<forall>bs. ntp_file = Some bs \<longrightarrow> length bs \<le> 128)"

lemma setIPPhoneNtpCfg_pools:
  assumes "pools_ok st" "\<And>bs. f = Some bs \<Longrightarrow> length bs \<le> 128"
  shows "\<exists>st'. setIPPhoneNtpCfg f st = Some st' \<and> pools_ok st'"
proof (cases f)
  case (Some bs)
  then have l: "length bs \<le> 128" using assms(2) by simp
  then obtain a b where "ntp_file_loop (length (take 256 bs)) 0 (blit (replicate 256 0) 0 (take 256 bs)) ([], []) = Some (a, b)"
    using ntp_file_loop_total[of 0 "length (take 256 bs)" "blit (replicate 256 0) 0 (take 256 bs)" "([], [])"] by force
  with Some assms(1) show ?thesis
    by (simp add: setIPPhoneNtpCfg_def pools_ok_def server_ok_def leases_of_def wf_config_def cong: option.case_cong)
qed (simp add: setIPPhoneNtpCfg_def assms(1))

lemma udhcpd_signal_total:
  assumes "pools_ok (z_srv d)" "signal_ok f d"
  shows "\<exists>oc. udhcpd_signal env f s d = Some oc \<and> (\<forall>d'. oc = Running d' \<longrightarrow> pools_ok (z_srv d'))"
proof -
  have r: "server_ok (z_srv d)" "0 \<in> set (d_ipPhoneipaddr (z_srv d))"
    using assms by (simp_all add: pools_ok_def signal_ok_def phone_room_def)
  have 1: "\<exists>st. write_leases env (z_srv d) = Some st \<and> pools_ok st"
    using write_leases_spec[OF r, of env] handler_pools_ok[OF assms(1)] by (auto simp: keeps_leases_def)
  have 2: "\<exists>st. setIPPhoneNtpCfg f (z_srv d) = Some st \<and> pools_ok st"
    using setIPPhoneNtpCfg_pools[OF assms(1)] assms(2) by (simp add: signal_ok_def)
  have 3: "\<exists>st. setMarkForSipAddr b (z_srv d) = Some st \<and> pools_ok st" for b
    using mark_loop_total[OF r(2), of b] assms(1) by (auto simp: setMarkForSipAddr_def emit_pools)
  show ?thesis
    using 1 2 3[of True] 3[of False] by (cases s) (auto simp: udhcpd_signal_def exit_server_def)
qed

section \<open>Runs of the daemon\<close>

inductive steps :: "daemon \<Rightarrow> daemon \<Rightarrow> bool" for d0 where
  start: "steps d0 d0"
| turn: "steps d0 d \<Longrightarrow> turn_ok x d \<Longrightarrow> udhcpd_turn x d = Some (Running d') \<Longrightarrow> steps d0 d'"
| signal: "steps d0 d \<Longrightarrow> signal_ok f d \<Longrightarrow> udhcpd_signal env f s d = Some (Running d') \<Longrightarrow> steps d0 d'"

lemma steps_pools_ok: "steps d0 d \<Longrightarrow> pools_ok (z_srv d0) \<Longrightarrow> pools_ok (z_srv d)"
proof (induction rule: steps.induct)
  case (turn d x d')
  then show ?case using udhcpd_turn_total[of d x] by auto
next
  case (signal d f env s d')
  then show ?case using udhcpd_signal_total[of d f env s] by auto
qed

section \<open>Start-up with the built-in defaults\<close>

lemma default_values:
  "inet_aton ''192.168.0.20'' = Some 0xC0A80014" "inet_aton ''192.168.0.254'' = Some 0xC0A800FE"
  "inet_aton ''0.0.0.0'' = Some 0"
  "strtoul ''254'' = 254" "strtoul ''7200'' = 7200" "strtoul ''3600'' = 3600" "strtoul ''60'' = 60" "strtoul ''0'' = 0"
  "yes_no ''yes'' = Some True"
  by (simp_all add: inet_aton_def aton_parts_4 is_digit_def num_of_def digit_val_def strtoul_def digit_in_def
      is_space_def yes_no_def strcaseeq_def Let_def)

definition default_config :: server_config where
  "default_config = zero_config\<lparr>c_start := 0xC0A80014, c_end := 0xC0A800FE, c_interface := ''eth0'',
     c_max_leases := 254, c_remaining := True, c_auto_time := 7200, c_decline_time := 3600,
     c_conflict_time := 3600, c_offer_time := 60, c_min_lease := 60,
     c_lease_file := Some ''/etc/udhcpd.leases'', c_pidfile := Some ''/var/run/udhcpd.pid''\<rparr>"

definition default_config2 :: server_config where
  "default_config2 = zero_config\<lparr>c_interface := ''eth0'', c_max_leases := 254, c_offer_time := 60, c_min_lease := 60,
     c_remaining := True, c_auto_time := 7200, c_decline_time := 3600, c_conflict_time := 3600,
     c_lease_file := Some ''/etc/udhcpd2.leases''\<rparr>"

lemma read_config_defaults:
  "read_config buf0 None boot_state = Some (0, boot_state\<lparr>d_config := default_config, d_config2 := default_config2\<rparr>)"
  by (simp add: read_config_def config_keywords_def read_ip_def read_str_def read_u32_def read_yn_def
      srv1_def srv2_def default_values boot_state_def default_config_def default_config2_def zero_config_def)

section \<open>The frames a handler sends\<close>

fun is_frame :: "effect \<Rightarrow> bool" where
  "is_frame (Sent f) = True"
| "is_frame _ = False"

definition sends :: "dhcpd \<Rightarrow> dhcpd \<Rightarrow> effect list \<Rightarrow> bool" where
  "sends st st' fs \<longleftrightarrow> (\<exists>es. d_out st' = d_out st @ es \<and> filter is_frame es = fs)"

lemma sends_trans: "sends a b fs \<Longrightarrow> sends b c gs \<Longrightarrow> sends a c (fs @ gs)"
  by (auto simp: sends_def)

lemma quiet_sends: "quiet a b \<Longrightarrow> sends a b []"
proof -
  assume "quiet a b"
  then obtain es where es: "d_out b = d_out a @ es" "\<forall>e \<in> set es. \<forall>f. e \<noteq> Sent f" by (auto simp: quiet_def)
  have "\<not> is_frame e" if "e \<in> set es" for e using es(2) that by (cases e) auto
  with es(1) show ?thesis by (auto simp: sends_def)
qed

lemma sends_one: "d_out b = d_out a @ [e] \<Longrightarrow> is_frame e \<Longrightarrow> sends a b [e]"
  by (simp add: sends_def)

lemma sends_same: "d_out b = d_out a \<Longrightarrow> sends a b []"
  by (simp add: sends_def)

lemma sent_reply_frame: "sent_reply cfg p type yi os e \<Longrightarrow> is_frame e"
  by (auto simp: sent_reply_def)

text \<open>A reply of the given type for the given address, as the client decodes it.\<close>

definition replies :: "server_config \<Rightarrow> dhcpMessage \<Rightarrow> u8 \<Rightarrow> u32 \<Rightarrow> opt list \<Rightarrow> effect \<Rightarrow> bool" where
  "replies cfg p type yi os e \<longleftrightarrow> sent_reply cfg p type yi os e \<and>
     (\<exists>q rest. delivers e q \<and> is_reply p q \<and> m_yiaddr q = yi \<and>
        repr (m_options q) (reply_head cfg type @ os @ rest))"

lemma respond_ack:
  assumes "server_ok st" "wf_message p" "benign env p" "phone_room st" "option_u32 p DHCP_LEASE_TIME = Some req"
    "respond env p SendACK yi st = Some st'"
  defines "t \<equiv> ack_lease_time (d_config st) req"
  shows "sends st st' [] \<and> \<not> sock_works (g_sock env) \<or>
    (\<exists>e. sends st st' [e] \<and> replies (d_config st) p DHCPACK yi (lease_opts t) e \<and>
       (0 \<le> e_result (g_sock env) \<longrightarrow> leases_of st' = fst (add_lease (leases_of st) (g_now env) (m_chaddr p) yi t)))"
proof -
  have b: "length (g_serial env) \<le> 110" "identity_ok env p" "phones_ok st"
    using assms(3,4) by (simp_all add: benign_def phone_room_def phones_ok_def)
  from sendACK_spec[OF assms(1,2) b, of yi] assms(5,6) obtain st2 where
    s: "quiet st st2"
    "d_out st' = d_out st2 \<and> \<not> sock_works (g_sock env) \<or>
     (\<exists>e. d_out st' = d_out st2 @ [e] \<and> sent_reply (d_config st) p DHCPACK yi (lease_opts t) e \<and>
        leases_of st' = (if e_result (g_sock env) < 0 then leases_of st
          else fst (add_lease (leases_of st) (g_now env) (m_chaddr p) yi t)))"
    unfolding t_def respond_def by auto
  from s(2) show ?thesis
  proof (elim disjE exE conjE)
    assume "d_out st' = d_out st2" "\<not> sock_works (g_sock env)"
    then show ?thesis using sends_trans[OF quiet_sends[OF s(1)] sends_same, of st'] by simp
  next
    fix e assume e: "d_out st' = d_out st2 @ [e]" "sent_reply (d_config st) p DHCPACK yi (lease_opts t) e"
      "leases_of st' = (if e_result (g_sock env) < 0 then leases_of st
          else fst (add_lease (leases_of st) (g_now env) (m_chaddr p) yi t))"
    have "sends st st' [e]"
      using sends_trans[OF quiet_sends[OF s(1)] sends_one[OF e(1) sent_reply_frame[OF e(2)]]] by simp
    with e(2,3) sent_reply_delivers[OF e(2)] show ?thesis by (auto simp: replies_def)
  qed
qed

lemma respond_nak:
  assumes "wf_message p" "respond env p SendNAK yi st = Some st'"
  shows "leases_of st' = leases_of st \<and> (sends st st' [] \<and> \<not> sock_works (g_sock env) \<or>
    (\<exists>e. sends st st' [e] \<and> replies (d_config st) p DHCPNAK 0 [] e))"
proof -
  from sendNAK_spec[OF assms(1), of env st] assms(2) obtain out where
    s: "st' = emit st out" "out = [] \<and> \<not> sock_works (g_sock env) \<or>
      (\<exists>e. out = [e] \<and> sent_reply (d_config st) p DHCPNAK 0 [] e)" by (auto simp: respond_def)
  from s(2) show ?thesis
  proof (elim disjE exE conjE)
    fix e assume e: "out = [e]" "sent_reply (d_config st) p DHCPNAK 0 [] e"
    then have "sends st st' [e]" using s(1) by (intro sends_one) (simp_all add: sent_reply_frame)
    with e(2) sent_reply_delivers[OF e(2)] s(1) show ?thesis by (auto simp: replies_def)
  qed (use s(1) sends_same[of st' st] in simp)
qed

lemma request_verdict_rule:
  "request_verdict server sid ro ciaddr yi =
    (if sid \<noteq> None \<and> (sid \<noteq> Some server \<or> ro \<noteq> Some yi) then Silent
     else if (case ro of None \<Rightarrow> ciaddr | Some a \<Rightarrow> a) = yi then SendACK else SendNAK)"
  by (cases sid; cases ro) (auto simp: request_verdict_def)

section \<open>The two rounds of an allocation\<close>

lemma sends_unique: "sends a b fs \<Longrightarrow> sends a b gs \<Longrightarrow> fs = gs"
  by (auto simp: sends_def)

lemma delivers_unique: "delivers e q \<Longrightarrow> delivers e q' \<Longrightarrow> q = q'"
  by (auto simp: delivers_def)

lemma bound_find:
  assumes "lease_inv tbl" "bound tbl ch a ex" "\<not> blank_chaddr ch"
  shows "\<exists>i < length tbl. find_lease_by_chaddr tbl ch = Some i \<and> l_yiaddr (tbl ! i) = a"
proof -
  from assms(2) obtain i where i: "i < length tbl" "l_chaddr (tbl ! i) = ch" "l_yiaddr (tbl ! i) = a"
    by (auto simp: bound_def)
  have "l_chaddr (tbl ! k) \<noteq> ch" if "k < length tbl" "k \<noteq> i" for k
    using assms(1,3) i that unfolding lease_inv_def by metis
  then have "find_index (\<lambda>l. l_chaddr l = ch) 0 tbl = Some i" using i by (intro find_index_unique) auto
  with i show ?thesis by (auto simp: find_lease_by_chaddr_def)
qed

lemma add_lease_renew:
  assumes "bound tbl ch a ex" "\<not> blank_chaddr ch" "0 < now"
  shows "bound (fst (add_lease tbl now ch a t)) ch a (now + t)"
proof -
  from assms(1) obtain i where i: "i < length tbl" "l_chaddr (tbl ! i) = ch" by (auto simp: bound_def)
  obtain tbl' r where ad: "add_lease tbl now ch a t = (tbl', r)" by fastforce
  from add_lease_known[OF ad i assms(2,3)] ad add_lease_bound[of tbl now ch a t tbl'] show ?thesis by auto
qed

lemma same_binding_bound: "same_binding ls ls' \<Longrightarrow> bound ls ch a ex \<Longrightarrow> bound ls' ch a ex"
proof -
  assume s: "same_binding ls ls'" and "bound ls ch a ex"
  then obtain i where i: "i < length ls" "l_chaddr (ls ! i) = ch" "l_yiaddr (ls ! i) = a" "l_expires (ls ! i) = ex"
    by (auto simp: bound_def)
  have l: "length ls' = length ls" using s by (metis length_map same_binding_def)
  have "l_chaddr (ls' ! i) = ch" "l_yiaddr (ls' ! i) = a" "l_expires (ls' ! i) = ex"
    using s i l unfolding same_binding_def by (metis nth_map)+
  with i(1) l show ?thesis by (auto simp: bound_def)
qed

lemma leases_of_flag [simp]: "leases_of (st\<lparr>d_flag_option121 := b\<rparr>) = leases_of st"
  "sends (st\<lparr>d_flag_option121 := b\<rparr>) st' fs = sends st st' fs" "sends st (st'\<lparr>d_flag_option121 := b\<rparr>) fs = sends st st' fs"
  by (simp_all add: leases_of_def sends_def)

lemma offer_step:
  assumes "pools_ok st" "wf_message p" "benign env p" "phone_room st"
    "get_option p DHCP_MESSAGE_TYPE = Some (Some q)" "uses_pool2 p st = Some False" "d_enblSrv1 st \<noteq> 0"
    "message_image p ! q = DHCPDISCOVER" "handle_packet env p st = Some st'"
  shows "pools_ok st' \<and> message_frame st st' \<and> d_ipPhoneipaddr st' = d_ipPhoneipaddr st \<and>
    (servable env st (m_chaddr p) \<longrightarrow> d_config st' = d_config st) \<and>
    (sends st st' [] \<and> \<not> servable env st (m_chaddr p) \<or> (\<exists>e a t ex. sends st st' [e] \<and>
    replies (d_config st) p DHCPOFFER a (lease_opts t) e \<and> bound (leases_of st') (m_chaddr p) a ex))"
proof -
  let ?st1 = "st\<lparr>d_flag_option121 := False\<rparr>"
  from handle_packet_run[OF assms(1-6)] assms(7,8,9) obtain st3 where
    3: "handle_discover env p ?st1 = Some st3" "pools_ok st3" "message_frame st st3"
    "st' = st3\<lparr>d_flag_option121 := False\<rparr>" by (auto simp: handle_message_def)
  then obtain st2 r where 2: "log_client ''D'' p ?st1 = Some st2" "sendOffer env p st2 = Some (r, st3)"
    by (auto simp: handle_discover_def bind_eq_Some_conv)
  have lg: "only_logs ?st1 st2" using log_client_total[OF assms(2), of "''D''" ?st1] assms(3) 2(1) by (auto simp: benign_def)
  have so: "server_ok ?st1" using assms(1) by (simp add: pools_ok_def server_ok_def leases_of_def)
  note k = only_logs_keeps[OF lg so]
  from sendOffer_spec[OF k(1) assms(2), of env] 2(2) assms(3)
  have ph: "d_ipPhoneipaddr st3 = d_ipPhoneipaddr st2" and
    cf: "servable env st2 (m_chaddr p) \<Longrightarrow> d_config st3 = d_config st2" and
    "d_out st3 = d_out st2 \<and> \<not> servable env st2 (m_chaddr p) \<or>
    (\<exists>e a t ex. d_out st3 = d_out st2 @ [e] \<and>
     sent_reply (d_config st2) p DHCPOFFER a (lease_opts t) e \<and> bound (leases_of st3) (m_chaddr p) a ex)"
    by (auto simp: benign_def)
  then have "sends st2 st3 [] \<and> \<not> servable env st2 (m_chaddr p) \<or>
    (\<exists>e a t ex. sends st2 st3 [e] \<and>
    replies (d_config st2) p DHCPOFFER a (lease_opts t) e \<and> bound (leases_of st3) (m_chaddr p) a ex)"
    using sends_same sends_one sent_reply_frame sent_reply_delivers unfolding replies_def by metis
  moreover have "sends st st3 fs" if "sends st2 st3 fs" for fs
    using sends_trans[OF quiet_sends[OF k(3)] that] by simp
  moreover have "servable env st2 (m_chaddr p) = servable env st (m_chaddr p)" unfolding servable_def k(2,4) by (simp split: option.split)
  ultimately show ?thesis using 3 k(4,12) ph cf by auto
qed

lemma request_step:
  assumes "pools_ok st" "wf_message p" "benign env p" "phone_room st"
    "get_option p DHCP_MESSAGE_TYPE = Some (Some q)" "uses_pool2 p st = Some False" "d_enblSrv1 st \<noteq> 0"
    "message_image p ! q = DHCPREQUEST" "bound (leases_of st) (m_chaddr p) a ex" "\<not> blank_chaddr (m_chaddr p)"
    "option_u32 p DHCP_SERVER_ID = Some (Some (c_server (d_config st)))" "option_u32 p DHCP_REQUESTED_IP = Some (Some a)"
    "option_u32 p DHCP_LEASE_TIME = Some req" "sock_works (g_sock env)" "0 \<le> e_result (g_sock env)" "0 < g_now env"
  defines "t \<equiv> ack_lease_time (d_config st) req"
  shows "\<exists>st' e. handle_packet env p st = Some st' \<and> pools_ok st' \<and> sends st st' [e] \<and>
    replies (d_config st) p DHCPACK a (lease_opts t) e \<and> bound (leases_of st') (m_chaddr p) a (g_now env + t)"
proof -
  let ?s = "st\<lparr>d_flag_option121 := False\<rparr>"
  have so: "server_ok st" "lease_inv (leases_of st)" using assms(1) by (simp_all add: pools_ok_def server_ok_def)
  obtain i where i: "i < length (leases_of st)" "find_lease_by_chaddr (leases_of st) (m_chaddr p) = Some i"
    "l_yiaddr (leases_of st ! i) = a" using bound_find[OF so(2) assms(9,10)] by blast
  have fl: "find_lease st (m_chaddr p) = Some (Some (In1 i))"
    by (simp add: find_lease_def lease_table_ok[OF so(1)] i(2))
  from handle_packet_run[OF assms(1-6)] assms(7,8) obtain st3 where
    3: "handle_request env p (Some (In1 i)) ?s = Some st3" "pools_ok st3"
    "handle_packet env p st = Some (st3\<lparr>d_flag_option121 := False\<rparr>)" by (auto simp: handle_message_def fl)
  have d: "ref_ok ?s (In1 i)" "deref ?s (In1 i) = Some (leases_of st ! i)"
    using i(1) by (auto simp: leases_of_def rd_def)
  have okf: "pools_ok ?s" "phone_room ?s" "server_ok ?s" using assms(1,4) so(1) by (simp_all add: pools_ok_def server_ok_def leases_of_def)
  from handle_request_lease[OF okf(1) assms(2,3) okf(2) d assms(11,12)] 3(1) obtain st1 st2 where
    r: "only_logs ?s st1" "respond env p (request_verdict (c_server (d_config ?s)) (Some (c_server (d_config st))) (Some a)
      (m_ciaddr p) (l_yiaddr (leases_of st ! i))) (l_yiaddr (leases_of st ! i)) st1 = Some st2"
    "d_out st3 = d_out st2" "same_binding (leases_of st2) (leases_of st3)" by auto
  note k = only_logs_keeps[OF r(1) okf(3)]
  have "respond env p SendACK a st1 = Some st2" using r(2) i(3) by (simp add: request_verdict_def)
  moreover have "phone_room st1" using assms(4) k(12) by (simp add: phone_room_def)
  ultimately obtain e where e: "sends st1 st2 [e]" "replies (d_config st) p DHCPACK a (lease_opts t) e"
    "leases_of st2 = fst (add_lease (leases_of st) (g_now env) (m_chaddr p) a t)"
    using respond_ack[OF k(1) assms(2,3) _ assms(13)] assms(14,15) k(2,4) by (auto simp: t_def)
  have "bound (leases_of st3) (m_chaddr p) a (g_now env + t)"
    using add_lease_renew[OF assms(9,10,16), of t] e(3) by (intro same_binding_bound[OF r(4)]) simp
  moreover have "sends st st3 [e]" using sends_trans[OF quiet_sends[OF k(3)] e(1)] r(3) by (simp add: sends_def)
  ultimately show ?thesis using 3(2,3) e(2) by auto
qed

section \<open>Messages of a client\<close>

definition client_message :: "u8 list \<Rightarrow> opt list \<Rightarrow> dhcpMessage" where
  "client_message ch os = zero_message\<lparr>m_op := BOOTREQUEST, m_cookie := DHCP_MAGIC, m_chaddr := ch,
     m_options := enc os @ DHCP_END # replicate (1023 - length (enc os)) 0\<rparr>"

definition client_options :: "opt list \<Rightarrow> bool" where
  "client_options os \<longleftrightarrow> list_all wf_opt os \<and> length (enc os) < 300 \<and> (\<forall>d. Opt DHCP_OPTION_OVER d \<notin> set os)"

lemma client_message_ok:
  assumes "client_options os" "length ch = 16"
  shows "wf_message (client_message ch os)" "repr (m_options (client_message ch os)) os"
    "m_chaddr (client_message ch os) = ch"
  using assms by (auto simp: client_message_def client_options_def wf_message_def zero_message_def repr_def)

lemma client_get_option:
  assumes "client_options os" "length ch = 16" "c \<notin> {DHCP_PADDING, DHCP_END}"
  shows "get_option (client_message ch os) c =
    Some (map_option (\<lambda>(k, d). OPTIONS_OFFSET + k + 2) (lookup_pos c 0 os))"
proof -
  note m = client_message_ok[OF assms(1,2)]
  have o: "\<forall>d. Opt DHCP_OPTION_OVER d \<notin> set os" using assms(1) by (simp add: client_options_def)
  have "k + 1 + length d < 308" if "lookup_pos c 0 os = Some (k, d)" for k d
    using lookup_pos_slice[OF that] assms(1) by (auto simp: client_options_def)
  with get_option_repr[OF m(1,2) o assms(3)] show ?thesis by (auto simp: fits_def split: option.split)
qed

lemma lookup_pos_len: "lookup_pos c k os = Some (j, d) \<Longrightarrow> list_all wf_opt os \<Longrightarrow> length d \<le> 255"
  by (induction c k os rule: lookup_pos.induct) (auto split: if_splits)

lemma client_option_data:
  assumes "client_options os" "length ch = 16" "lookup_pos c 0 os = Some (k, d)"
  shows "option_length (client_message ch os) (OPTIONS_OFFSET + k + 2) = length d"
    "i < length d \<Longrightarrow> message_image (client_message ch os) ! (OPTIONS_OFFSET + k + 2 + i) = d ! i"
proof -
  let ?p = "client_message ch os"
  note m = client_message_ok[OF assms(1,2)]
  note l = lookup_pos_data[OF m(1,2) assms(3)]
  from lookup_pos_slice[OF assms(3)] obtain pre post where
    e: "enc os = pre @ c # of_nat (length d) # d @ post" "length pre = k" by auto
  have n: "length d + k < 300" using e assms(1) by (auto simp: client_options_def)
  have "length d \<le> 255"
    using lookup_pos_len[OF assms(3)] assms(1) by (simp add: client_options_def)
  then show "option_length ?p (OPTIONS_OFFSET + k + 2) = length d"
    using l(2) by (simp add: option_length_def unat_opt_len)
  show "message_image ?p ! (OPTIONS_OFFSET + k + 2 + i) = d ! i" if "i < length d"
    using arg_cong[OF l(1), of "\<lambda>x. x ! i"] nth_slice[of "OPTIONS_OFFSET + k + 2" "length d" "message_image ?p" i]
      length_message_image[OF m(1)] n that by simp
qed

lemma client_option_u32:
  assumes "client_options os" "length ch = 16" "c \<notin> {DHCP_PADDING, DHCP_END}" "lookup_pos c 0 os = Some (k, [w, x, y, z])"
  shows "option_u32 (client_message ch os) c = Some (Some (be32 w x y z))"
proof -
  let ?p = "client_message ch os"
  have g: "get_option ?p c = Some (Some (OPTIONS_OFFSET + k + 2))"
    using client_get_option[OF assms(1-3)] assms(4) by simp
  note b = get_option_length_byte[OF client_message_ok(1)[OF assms(1,2)] g]
  note d = client_option_data(2)[OF assms(1,2,4)]
  have r: "rd32 (message_image ?p) (OPTIONS_OFFSET + k + 2) = Some (be32 w x y z)"
    using b(2,3) d[of 0] d[of 1] d[of 2] d[of 3] by (simp add: rd32_def numeral_3_eq_3 numeral_2_eq_2 add.commute)
  show ?thesis unfolding option_u32_def g bind.simps option.case r ..
qed

lemma client_option_none:
  assumes "client_options os" "length ch = 16" "c \<notin> {DHCP_PADDING, DHCP_END}" "lookup_pos c 0 os = None"
  shows "option_u32 (client_message ch os) c = Some None"
  using client_get_option[OF assms(1-3)] assms(4) by (simp add: option_u32_def)

text \<open>Messages without options 12 and 125 and with an address in option 50 are harmless.\<close>

lemma client_benign:
  assumes "client_options os" "length ch = 16" "lookup_pos DHCP_HOST_NAME 0 os = None"
    "lookup_pos DHCP_VENDOR_IDENTIFYING 0 os = None" "length (g_serial env) \<le> 110"
    "\<And>k d. lookup_pos DHCP_REQUESTED_IP 0 os = Some (k, d) \<Longrightarrow> length d = 4"
  shows "benign env (client_message ch os)"
proof -
  note g = client_get_option[OF assms(1,2)]
  have "option_length (client_message ch os) q = 4" if "get_option (client_message ch os) DHCP_REQUESTED_IP = Some (Some q)" for q
    using that g[of DHCP_REQUESTED_IP] client_option_data(1)[OF assms(1,2)] assms(6) by auto
  then show ?thesis
    using g[of DHCP_HOST_NAME] g[of DHCP_VENDOR_IDENTIFYING] assms(3-5)
    by (simp add: benign_def requested_ok_def hostname_ok_def identity_ok_def)
qed

section \<open>Properties\<close>


definition sample_ch :: "u8 list" where "sample_ch = 1 # replicate 15 0"

definition sample_request :: dhcpMessage where
  "sample_request = client_message sample_ch [Opt 53 [3], Opt 54 [192, 168, 1, 1], Opt 50 [192, 168, 1, 2]]"

lemma sample_request_options: "client_options [Opt 53 [3], Opt 54 [192, 168, 1, 1], Opt 50 [192, 168, 1, 2]]"
  "length sample_ch = 16"
  by (simp_all add: client_options_def sample_ch_def)

lemma sample_request_ok: "wf_message sample_request" "benign sample_world sample_request" "m_chaddr sample_request = sample_ch"
  unfolding sample_request_def using client_message_ok[OF sample_request_options] sample_world_serial
  by (auto intro!: client_benign[OF sample_request_options])

lemma sample_pools: "pools_ok sample_state" "phone_room sample_state"
  using sample_state_ok sample_leases_inv
  by (simp_all add: pools_ok_def server_ok_def leases_of_def phone_room_def sample_state_def)

lemma sample_lease:
  "find_lease sample_state sample_ch = Some (Some (In1 0))"
  "deref sample_state (In1 0) = Some (zero_lease\<lparr>l_chaddr := sample_ch, l_yiaddr := 0xC0A80102, l_expires := 900\<rparr>)"
  by (simp_all add: find_lease_def lease_table_def rdn_def slice_def find_lease_by_chaddr_def sample_state_def
      sample_config_def zero_config_def sample_leases_def sample_ch_def rd_def)


text \<open>
  C5: the whole exchange.  When a DISCOVER was answered with an OFFER, and the client comes
  back with a REQUEST that names this server and the address offered, the server answers
  with exactly one frame, and the client decodes from it an ACK for that address; the table
  then holds the address for the client until the end of the lease time, counted from now.
  Nothing is assumed of what other clients hold, nor that the REQUEST comes before the offer
  expires.
\<close>

theorem discover_request_ack:
  assumes "pools_ok st" "d_enblSrv1 st \<noteq> 0" "phone_room st"
    and discover: "wf_message p" "benign env p" "get_option p DHCP_MESSAGE_TYPE = Some (Some q)"
      "message_image p ! q = DHCPDISCOVER" "uses_pool2 p st = Some False"
    and offer: "handle_packet env p st = Some st1" "sends st st1 [e]" "delivers e off"
    and request: "wf_message p'" "benign env' p'" "get_option p' DHCP_MESSAGE_TYPE = Some (Some q')"
      "message_image p' ! q' = DHCPREQUEST" "uses_pool2 p' st1 = Some False" "phone_room st1"
      "m_chaddr p' = m_chaddr p" "\<not> blank_chaddr (m_chaddr p)"
      "option_u32 p' DHCP_SERVER_ID = Some (Some (c_server (d_config st1)))"
      "option_u32 p' DHCP_REQUESTED_IP = Some (Some (m_yiaddr off))" "option_u32 p' DHCP_LEASE_TIME = Some req"
    and world: "sock_works (g_sock env')" "0 \<le> e_result (g_sock env')" "0 < g_now env'"
  shows "\<exists>st2 e' ack rest. handle_packet env' p' st1 = Some st2 \<and> pools_ok st2 \<and> sends st1 st2 [e'] \<and>
    delivers e' ack \<and> is_reply p' ack \<and> m_yiaddr ack = m_yiaddr off \<and>
    repr (m_options ack) (reply_head (d_config st1) DHCPACK @
      lease_opts (ack_lease_time (d_config st1) req) @ rest) \<and>
    bound (leases_of st2) (m_chaddr p) (m_yiaddr off) (g_now env' + ack_lease_time (d_config st1) req)"
proof -
  from offer_step[OF assms(1) discover(1,2) assms(3) discover(3,5) assms(2) discover(4) offer(1)]
    sends_unique[OF offer(2)] obtain e1 a t ex where
    1: "pools_ok st1" "message_frame st st1" "sends st st1 [e1]" "replies (d_config st) p DHCPOFFER a (lease_opts t) e1"
    "bound (leases_of st1) (m_chaddr p) a ex" by blast
  have "e1 = e" using sends_unique[OF offer(2) 1(3)] by simp
  then have a: "m_yiaddr off = a" using 1(4) delivers_unique[OF offer(3)] by (auto simp: replies_def)
  have en: "d_enblSrv1 st1 \<noteq> 0" using 1(2) assms(2) by (simp add: message_frame_def)
  from request_step[OF 1(1) request(1,2) request(6) request(3,5) en request(4), unfolded request(7),
      OF 1(5) request(8,9) request(10)[unfolded a] request(11) world]
  show ?thesis unfolding a replies_def by blast
qed

definition sample_discover :: dhcpMessage where
  "sample_discover = client_message sample_ch [Opt 53 [1]]"

definition request_message :: "u32 \<Rightarrow> u32 \<Rightarrow> dhcpMessage" where
  "request_message server a =
     client_message sample_ch [Opt 53 [3], Opt 54 (be32_bytes server), Opt 50 (be32_bytes a)]"

lemma sample_ch [simp]: "length sample_ch = 16" "\<not> blank_chaddr sample_ch"
  by (simp_all add: sample_ch_def blank_chaddr_def)

lemma sample_discover_ok:
  "wf_message sample_discover" "benign sample_world sample_discover" "m_chaddr sample_discover = sample_ch"
  "get_option sample_discover DHCP_MESSAGE_TYPE = Some (Some 242)" "message_image sample_discover ! 242 = 1"
  "uses_pool2 sample_discover st = Some False"
proof -
  have o: "client_options [Opt 53 [1]]" by (simp add: client_options_def)
  note g = client_get_option[OF o sample_ch(1)]
  have "lookup_pos DHCP_MESSAGE_TYPE 0 [Opt 53 [1]] = Some (0, [1])" by simp
  from client_option_data(2)[OF o sample_ch(1) this, of 0]
  show "message_image sample_discover ! 242 = 1" by (simp add: sample_discover_def)
  show "wf_message sample_discover" "m_chaddr sample_discover = sample_ch"
    "benign sample_world sample_discover" "get_option sample_discover DHCP_MESSAGE_TYPE = Some (Some 242)"
    using client_message_ok[OF o sample_ch(1)] g[of DHCP_MESSAGE_TYPE] sample_world_serial
    by (auto simp: sample_discover_def intro!: client_benign[OF o sample_ch(1)])
  show "uses_pool2 sample_discover st = Some False"
    using g[of DHCP_VENDOR] by (simp add: sample_discover_def uses_pool2_def split: option.split)
qed

lemma request_message_ok:
  "wf_message (request_message s a)" "benign sample_world (request_message s a)"
  "m_chaddr (request_message s a) = sample_ch"
  "get_option (request_message s a) DHCP_MESSAGE_TYPE = Some (Some 242)" "message_image (request_message s a) ! 242 = 3"
  "uses_pool2 (request_message s a) st = Some False" "option_u32 (request_message s a) DHCP_SERVER_ID = Some (Some s)"
  "option_u32 (request_message s a) DHCP_REQUESTED_IP = Some (Some a)"
  "option_u32 (request_message s a) DHCP_LEASE_TIME = Some None"
proof -
  let ?os = "[Opt 53 [3], Opt 54 (be32_bytes s), Opt 50 (be32_bytes a)]"
  have o: "client_options ?os" by (simp add: client_options_def)
  note g = client_get_option[OF o sample_ch(1)] and u = client_option_u32[OF o sample_ch(1)]
  have "lookup_pos DHCP_MESSAGE_TYPE 0 ?os = Some (0, [3])" by simp
  from client_option_data(2)[OF o sample_ch(1) this, of 0]
  show "message_image (request_message s a) ! 242 = 3" by (simp add: request_message_def)
  show "wf_message (request_message s a)" "m_chaddr (request_message s a) = sample_ch"
    "benign sample_world (request_message s a)" "get_option (request_message s a) DHCP_MESSAGE_TYPE = Some (Some 242)"
    using client_message_ok[OF o sample_ch(1)] g[of DHCP_MESSAGE_TYPE] sample_world_serial
    by (auto simp: request_message_def intro!: client_benign[OF o sample_ch(1)])
  show "uses_pool2 (request_message s a) st = Some False"
    using g[of DHCP_VENDOR] by (simp add: request_message_def uses_pool2_def split: option.split)
  show "option_u32 (request_message s a) DHCP_SERVER_ID = Some (Some s)"
    "option_u32 (request_message s a) DHCP_REQUESTED_IP = Some (Some a)"
    using u[of DHCP_SERVER_ID] u[of DHCP_REQUESTED_IP]
    by (simp_all add: request_message_def be32_bytes_def be32_of_bytes[simplified])
  show "option_u32 (request_message s a) DHCP_LEASE_TIME = Some None"
    using client_option_none[OF o sample_ch(1), of DHCP_LEASE_TIME] by (simp add: request_message_def)
qed

lemma sample_known: "servable sample_world sample_state sample_ch" "0 < g_now sample_world" "sock_works (g_sock sample_world)"
  "0 \<le> e_result (g_sock sample_world)" "d_enblSrv1 sample_state \<noteq> 0"
  by (simp_all add: servable_def leases_of_def find_lease_by_chaddr_def sample_state_def
      sample_config_def zero_config_def sample_leases_def sample_ch_def blank_chaddr_def sample_world_def sock_works_def)

theorem discover_request_ack_witness:
  "\<exists>st1 e off st2 e' ack. handle_packet sample_world sample_discover sample_state = Some st1 \<and>
    sends sample_state st1 [e] \<and> delivers e off \<and>
    handle_packet sample_world (request_message (c_server (d_config st1)) (m_yiaddr off)) st1 = Some st2 \<and>
    sends st1 st2 [e'] \<and> delivers e' ack \<and> m_yiaddr ack = m_yiaddr off"
proof -
  note d = sample_discover_ok
  obtain st1 where 1: "handle_packet sample_world sample_discover sample_state = Some st1"
    using handle_packet_total[OF sample_pools(1) d(1,2) sample_pools(2)] by blast
  from offer_step[OF sample_pools(1) d(1,2) sample_pools(2) d(4,6) sample_known(5) d(5) 1] sample_known(1) d(3)
  obtain e a t where e: "sends sample_state st1 [e]" "replies (d_config sample_state) sample_discover DHCPOFFER a (lease_opts t) e"
    "phone_room st1" using sample_pools(2) by (auto simp: phone_room_def)
  then obtain off where off: "delivers e off" by (auto simp: replies_def)
  note r = request_message_ok[of "c_server (d_config st1)" "m_yiaddr off"]
  have ch: "m_chaddr (request_message (c_server (d_config st1)) (m_yiaddr off)) = m_chaddr sample_discover"
    "\<not> blank_chaddr (m_chaddr sample_discover)" by (simp_all add: r(3) d(3))
  from discover_request_ack[OF sample_pools(1) sample_known(5) sample_pools(2) d(1,2,4,5,6) 1 e(1) off
      r(1,2,4,5,6) e(3) ch r(7-9) sample_known(3,4,2)] 1 e(1) off
  show ?thesis by blast
qed


definition sample_daemon :: daemon where
  "sample_daemon = \<lparr>z_srv = sample_state, z_timeout_end = 0, z_socket = 3\<rparr>"

definition sample_turn :: turn where
  "sample_turn = \<lparr>x_before = sample_world, x_after = sample_world,
     x_listen = \<lparr>k_fd = 3, k_reuseaddr = True, k_broadcast = True, k_bindtodevice = True, k_bind = True\<rparr>,
     x_select = SelectError\<rparr>"


text \<open>
  C22: start-up.  Without a configuration file and without lease files, with an interface that
  answers its queries, the daemon reaches its loop with the built-in defaults: the pool
  192.168.0.20 to 192.168.0.254, 254 free entries, leases of ten days, the address of the
  interface as server address, and the invariant of both pools established.
\<close>

theorem udhcpd_starts:
  assumes "b_config b = None" "\<And>f. b_file b f = None" "i_socket (b_if1 b)" "i_addr (b_if1 b) = Some ad"
    "i_index (b_if1 b) = Some idx" "i_hwaddr (b_if1 b) = Some hw" "b_fork b"
  shows "\<exists>d. udhcpd_init b = Some (Running d) \<and> pools_ok (z_srv d) \<and> phone_room (z_srv d) \<and>
    c_server (d_config (z_srv d)) = ad \<and> c_lease (d_config (z_srv d)) = 864000 \<and>
    c_start (d_config (z_srv d)) = 0xC0A80014 \<and> c_end (d_config (z_srv d)) = 0xC0A800FE \<and>
    leases_of (z_srv d) = replicate 254 zero_lease \<and> z_timeout_end d = b_now b + 7200"
proof -
  let ?c1 = "default_config\<lparr>c_lease := 864000\<rparr>" and ?c2 = "default_config2\<lparr>c_lease := 864000\<rparr>"
  let ?ls = "replicate 254 zero_lease"
  define st where "st = boot_state\<lparr>d_config := ?c1, d_config2 := ?c2, d_tmpls := ?ls, d_leases := ?ls, d_leases2 := ?ls\<rparr>"
  have al: "alloc_leases 254 = ?ls" by (simp add: alloc_leases_def)
  have lt: "init_lease_time default_config = Some ?c1" "init_lease_time default_config2 = Some ?c2"
    by (simp_all add: init_lease_time_def find_option_def default_config_def default_config2_def zero_config_def)
  have f: "c_pIPPhoneDNSServers default_config = None" "c_max_leases ?c1 = 254" "c_max_leases default_config2 = 254"
    "c_lease_file ?c1 = Some ''/etc/udhcpd.leases''" "c_lease_file ?c2 = Some ''/etc/udhcpd2.leases''"
    by (simp_all add: default_config_def default_config2_def zero_config_def)
  have it: "init_tables b = Some st"
    unfolding init_tables_def assms(1) read_config_defaults bind.simps prod.case
    using lt f al by (simp add: assms(2) read_leases_def read_leases2_def st_def boot_state_def emit_def Let_def)
  have inv: "lease_inv ?ls" by (simp add: lease_inv_def zero_lease_def blank_chaddr_def)
  let ?c = "?c1\<lparr>c_server := ad, c_ifindex := idx, c_arp := take 6 hw\<rparr>"
  let ?d = "\<lparr>z_srv = emit (st\<lparr>d_config := ?c\<rparr>) (pidfile_write_release (b_fdopen b) (b_pid b) (c_pidfile ?c)
      (pidfile_acquire (b_open b) (c_pidfile ?c))), z_timeout_end = b_now b + c_auto_time ?c, z_socket = - 1\<rparr>"
  have r: "udhcpd_init b = Some (Running ?d)"
    unfolding udhcpd_init_def it bind.simps init_interfaces_def
    using assms(3-7) by (simp add: st_def boot_state_def init_interface_def default_config_def Let_def)
  moreover have "pools_ok (z_srv ?d)"
    using inv by (simp add: emit_pools pools_ok_def server_ok_def leases_of_def st_def boot_state_def wf_config_def
        wf_optset_def default_config_def default_config2_def zero_config_def empty_vi_list_def)
  ultimately show ?thesis
    by (intro exI[of _ ?d]) (simp add: st_def boot_state_def phone_room_def leases_of_def default_config_def)
qed

definition sample_boot :: boot_env where
  "sample_boot = \<lparr>b_now = 5, b_buf0 = replicate 255 0, b_config = None, b_file = (\<lambda>f. None),
     b_if1 = n_if sample_env, b_if2 = n_if sample_env, b_open = (\<lambda>f. 4), b_fdopen = True, b_fork = True, b_pid = 77\<rparr>"

theorem udhcpd_starts_witness:
  "\<exists>d. udhcpd_init sample_boot = Some (Running d) \<and> pools_ok (z_srv d) \<and> c_server (d_config (z_srv d)) = 0xC0A80101 \<and>
     length (leases_of (z_srv d)) = 254"
proof -
  have b: "b_config sample_boot = None" "b_file sample_boot f = None" "i_socket (b_if1 sample_boot)"
    "i_addr (b_if1 sample_boot) = Some 0xC0A80101" "i_index (b_if1 sample_boot) = Some 4"
    "i_hwaddr (b_if1 sample_boot) = Some [2, 2, 2, 2, 2, 2]" "b_fork sample_boot" for f
    by (simp_all add: sample_boot_def sample_env_def)
  from udhcpd_starts[OF b] show ?thesis by auto
qed

text \<open>
  C11: a client of the second pool cannot touch the first: after its message, whatever it is,
  the configuration and the lease table of the first pool are what they were before, and the
  invariant of both pools holds.
\<close>

theorem pool2_isolated:
  assumes "pools_ok st" "wf_message p" "benign env p" "phone_room st" "uses_pool2 p st = Some True"
  shows "\<exists>st'. handle_packet env p st = Some st' \<and> pools_ok st' \<and> d_config st' = d_config st \<and> d_leases st' = d_leases st"
proof -
  obtain st' where h: "handle_packet env p st = Some st'" "pools_ok st'" using handle_packet_total[OF assms(1-4)] by blast
  obtain r where r: "get_option p DHCP_MESSAGE_TYPE = Some r" using get_option_some[OF assms(2)] by blast
  show ?thesis
  proof (cases r)
    case None
    then have "handle_packet env p st = Some st" using r by (simp add: handle_packet_def)
    with assms(1) show ?thesis by blast
  next
    case (Some q)
    from handle_packet_run[OF assms(1-4) r[unfolded Some] assms(5)] h(1) obtain st2 where
      2: "message_frame (enter_pool2 st) st2" "st' = leave_pool2 (st2\<lparr>d_flag_option121 := False\<rparr>)" by auto
    then have "d_config st' = d_config st" "d_leases st' = d_leases st"
      by (simp_all add: leave_pool2_def message_frame_def enter_pool2_def)
    with h show ?thesis by blast
  qed
qed

definition sample_state2 :: dhcpd where
  "sample_state2 = sample_state\<lparr>d_enblSrv2 := 1,
     d_config2 := sample_config\<lparr>c_vendorid := Some ''phone%stb'', c_lease_file := Some ''/var/leases2''\<rparr>\<rparr>"

definition stb_discover :: dhcpMessage where
  "stb_discover = client_message sample_ch [Opt 53 [1], Opt 60 [115, 116, 98]]"

lemma sample_pools2: "pools_ok sample_state2" "phone_room sample_state2"
  using sample_pools
  by (simp_all add: pools_ok_def server_ok_def leases_of_def phone_room_def sample_state2_def sample_state_def
      wf_config_def sample_config_def zero_config_def)

lemma stb_discover_ok:
  "wf_message stb_discover" "benign sample_world stb_discover"
  "get_option stb_discover DHCP_MESSAGE_TYPE = Some (Some 242)" "uses_pool2 stb_discover sample_state2 = Some True"
proof -
  let ?os = "[Opt 53 [1], Opt 60 [115, 116, 98]]"
  have o: "client_options ?os" by (simp add: client_options_def)
  note g = client_get_option[OF o sample_ch(1)]
  show "wf_message stb_discover" and b: "benign sample_world stb_discover"
    and "get_option stb_discover DHCP_MESSAGE_TYPE = Some (Some 242)"
    using client_message_ok[OF o sample_ch(1)] g[of DHCP_MESSAGE_TYPE] sample_world_serial
    by (auto simp: stb_discover_def intro!: client_benign[OF o sample_ch(1)])
  have v: "get_option stb_discover DHCP_VENDOR = Some (Some 245)" using g[of DHCP_VENDOR] by (simp add: stb_discover_def)
  have l: "lookup_pos DHCP_VENDOR 0 ?os = Some (3, [115, 116, 98])" by simp
  have s: "slice (message_image stb_discover) 245 3 = [115, 116, 98]"
    using lookup_pos_data(1)[OF client_message_ok(1,2)[OF o sample_ch(1)] l] by (simp add: stb_discover_def numeral_3_eq_3)
  have n: "message_image stb_discover ! 244 = 3"
    using lookup_pos_data(2)[OF client_message_ok(1,2)[OF o sample_ch(1)] l] by (simp add: stb_discover_def)
  have m: "length (message_image stb_discover) = 1264"
    using client_message_ok(1)[OF o sample_ch(1)] by (simp add: stb_discover_def length_message_image)
  have t: "str_of [115, 116, 98] = ''stb''" using str_of_bytes_of[of "''stb''"] by (simp add: bytes_of_def)
  show "uses_pool2 stb_discover sample_state2 = Some True"
    unfolding uses_pool2_def v
    by (simp add: sample_state2_def rd_def m n isOption60Correct_def rdn_def s memcpy_def blit_def cstr_def t
        delimited_def Let_def)
qed

theorem pool2_isolated_witness:
  "\<exists>st'. handle_packet sample_world stb_discover sample_state2 = Some st' \<and> d_leases st' = d_leases sample_state2"
  using pool2_isolated[OF sample_pools2(1) stb_discover_ok(1,2) sample_pools2(2) stb_discover_ok(4)] by blast

text \<open>
  The first message of a client of the second pool makes the server forget the second
  configuration: the whole first configuration is copied over it, the lease file included, so
  from then on the leases of the second pool are written into the lease file of the first.
\<close>

theorem pool2_lease_file_lost:
  assumes "pools_ok st" "wf_message p" "benign env p" "phone_room st" "uses_pool2 p st = Some True"
    "get_option p DHCP_MESSAGE_TYPE = Some (Some q)" "c_lease_file (d_config st) = Some f" "g_fopen env' f"
  shows "\<exists>st' st'' bs. handle_packet env p st = Some st' \<and> c_max_leases (d_config2 st') = c_max_leases (d_config st) \<and>
    write_leases2 env' st' = Some st'' \<and> FileWritten f bs \<in> set (d_out st'')"
proof -
  obtain st' where h: "handle_packet env p st = Some st'" "pools_ok st'" using handle_packet_total[OF assms(1-4)] by blast
  from handle_packet_run[OF assms(1-4,6,5)] h(1) obtain st2 where
    2: "message_frame (enter_pool2 st) st2" "st' = leave_pool2 (st2\<lparr>d_flag_option121 := False\<rparr>)" by auto
  then have r: "refreshed (d_config (enter_pool2 st)) (d_config2 st')" by (simp add: message_frame_def leave_pool2_def)
  have c: "c_lease_file (d_config2 st') = Some f"
    by (subst r[unfolded refreshed_def]) (simp add: enter_pool2_def assms(7))
  have n: "c_max_leases (d_config2 st') = c_max_leases (d_config st)"
    using refreshed_fields(2)[OF r] by (simp add: enter_pool2_def)
  have w: "wf_config (d_config2 st')" "unat (c_max_leases (d_config2 st')) \<le> length (d_leases2 st')"
    using h(2) by (simp_all add: pools_ok_def)
  from write_leases2_spec[OF this, of env'] obtain st'' where 3: "write_leases2 env' st' = Some st''" by blast
  then have "\<exists>bs. FileWritten f bs \<in> set (d_out st'')"
    using c assms(8) by (auto simp: write_leases2_def bind_eq_Some_conv Let_def)
  with h(1) n 3 show ?thesis by blast
qed

theorem pool2_lease_file_lost_witness:
  "c_lease_file (d_config2 sample_state2) = Some ''/var/leases2'' \<and>
   (\<exists>st' st'' bs. handle_packet sample_world stb_discover sample_state2 = Some st' \<and>
      write_leases2 sample_world st' = Some st'' \<and> FileWritten ''/var/leases'' bs \<in> set (d_out st''))"
proof -
  have "c_lease_file (d_config sample_state2) = Some ''/var/leases''" "g_fopen sample_world ''/var/leases''"
    by (simp_all add: sample_state2_def sample_state_def sample_config_def sample_world_def)
  from pool2_lease_file_lost[OF sample_pools2(1) stb_discover_ok(1,2) sample_pools2(2) stb_discover_ok(4,3) this]
  show ?thesis by (auto simp: sample_state2_def)
qed

text \<open>
  C37: an option 50 of 5 to 127 bytes in a DISCOVER overruns the four byte variable on the
  stack it is copied to for the log: the server does not survive the message.
\<close>

theorem long_option50_faults:
  assumes "pools_ok st" "wf_message p" "d_enblSrv1 st \<noteq> 0" "uses_pool2 p st = Some False"
    "get_option p DHCP_MESSAGE_TYPE = Some (Some q)" "message_image p ! q = DHCPDISCOVER"
    "get_option p DHCP_REQUESTED_IP = Some (Some r)" "4 < option_length p r" "option_length p r < 128"
  shows "handle_packet env p st = None"
proof -
  have l: "\<exists>bs. logged_option p DHCP_REQUESTED_IP = Some (Some bs) \<and> 4 < length bs"
    using logged_option_value[OF assms(2,7)] get_option_length_byte(2,3)[OF assms(2,7)] assms(8,9)
    by (auto simp: option_length_def)
  then have n: "log_requested t mac p s = None" for t mac s by (auto simp: log_requested_def memcpy_def)
  obtain mac where m: "client_mac p = Some mac" using client_mac_total[OF assms(2)] by blast
  have "log_client t p s = None" for t s
    using log_text_total[OF assms(2)] n m by (auto simp: log_client_def Let_def bind_eq_None_conv)
  then have "handle_discover env p s = None" for s by (simp add: handle_discover_def)
  moreover obtain lease where "find_lease st (m_chaddr p) = Some lease" using find_lease_total[OF assms(1)] by blast
  moreover have "rd (message_image p) q = Some (message_image p ! q)"
    using get_option_length_byte(2,3)[OF assms(2,5)] by (simp add: rd_def)
  ultimately show ?thesis using assms(3-6) by (simp add: handle_packet_def handle_message_def)
qed


definition long_discover :: dhcpMessage where
  "long_discover = client_message sample_ch [Opt 53 [1], Opt 50 [192, 168, 1, 7, 0]]"

theorem long_option50_faults_witness: "handle_packet sample_world long_discover sample_state = None"
proof -
  let ?os = "[Opt 53 [1], Opt 50 [192, 168, 1, 7, 0]]"
  have o: "client_options ?os" by (simp add: client_options_def)
  note g = client_get_option[OF o sample_ch(1)]
  have l: "lookup_pos DHCP_REQUESTED_IP 0 ?os = Some (3, [192, 168, 1, 7, 0])"
    "lookup_pos DHCP_MESSAGE_TYPE 0 ?os = Some (0, [1])" by simp_all
  have "option_length long_discover 245 = 5" "message_image long_discover ! 242 = 1"
    using client_option_data(1)[OF o sample_ch(1) l(1)] client_option_data(2)[OF o sample_ch(1) l(2), of 0]
    by (simp_all add: long_discover_def)
  moreover have "get_option long_discover DHCP_MESSAGE_TYPE = Some (Some 242)"
    "get_option long_discover DHCP_REQUESTED_IP = Some (Some 245)" "uses_pool2 long_discover sample_state = Some False"
    using g[of DHCP_MESSAGE_TYPE] g[of DHCP_REQUESTED_IP] g[of DHCP_VENDOR]
    by (simp_all add: long_discover_def uses_pool2_def split: option.split)
  moreover have "wf_message long_discover" using client_message_ok(1)[OF o sample_ch(1)] by (simp add: long_discover_def)
  ultimately show ?thesis
    using long_option50_faults[OF sample_pools(1) _ sample_known(5), of long_discover 242 245 sample_world] by simp
qed

definition long_request :: dhcpMessage where
  "long_request = client_message sample_ch [Opt 53 [3], Opt 12 (replicate 128 65)]"


end
