(* ===== verification/Dhcp_Client.thy ===== *)
theory Dhcp_Client
  imports Dhcp_Script Dhcp_Daemon
begin

text \<open>
  \<^verbatim>\<open>udhcp/dhcpc.c\<close>: the DHCP client of the WAN interfaces.  Its state machine follows RFC 2131:
  it selects a server, requests the address offered, and renews and rebinds the lease by
  timers.  One iteration of the main loop is \<open>udhcpc_turn\<close>, a signal is
  \<open>udhcpc_signal\<close>; a run is a sequence of both.  What the system answers during a turn
  is a \<open>cenv\<close>; the clock stands still while a handler runs.  Log output is left out.
\<close>

section \<open>State and environment\<close>

datatype cstate = INIT_SELECTING | REQUESTING | BOUND | RENEWING | REBINDING | RENEW_REQUESTED | RELEASED

datatype listen_mode = LISTEN_NONE | LISTEN_KERNEL | LISTEN_RAW

abbreviation (input) "DHCPFORCERENEW \<equiv> (9 :: u8)"

text \<open>
  The static variables of \<^verbatim>\<open>dhcpc.c\<close> and the variables of its \<^verbatim>\<open>main\<close>.  \<open>y_rng\<close> is the state
  of \<^verbatim>\<open>rand\<close>, \<open>y_seeded\<close> the flag in \<^verbatim>\<open>random_xid\<close>, \<open>y_oldStatus\<close> the one in
  \<^verbatim>\<open>setStatus\<close>, \<open>y_iSerial\<close> the one in \<^verbatim>\<open>tmpfile_getvalue\<close>.
\<close>

record client =
  y_config :: client_config
  y_vendor_class_id :: "u8 list"
  y_session_path :: string
  y_status_path :: string
  y_pid_path :: string
  y_state :: cstate
  y_requested_ip :: u32
  y_server_addr :: u32
  y_timeout :: u32
  y_packet_num :: nat
  y_discover_times :: nat
  y_listen_mode :: listen_mode
  y_old_mode :: listen_mode
  y_fd :: int
  y_xid :: u32
  y_t1 :: u32
  y_t2 :: u32
  y_start :: u32
  y_lease :: u32
  y_packet :: dhcpMessage
  y_gGwIp :: "string list"
  y_pre_server_addr :: "u32 list"
  y_acl_dhcp_flag :: nat
  y_dhcp_file :: string
  y_oldStatus :: int
  y_seeded :: bool
  y_rng :: nat
  y_iSerial :: int
  y_out :: "effect list"

text \<open>
  \<open>u_uptime\<close> is what \<^verbatim>\<open>getSysUpTime\<close> returns, \<open>u_time\<close> what \<^verbatim>\<open>time\<close> does; \<open>u_srand\<close> and
  \<open>u_rand\<close> are the generator of the C library, \<open>u_lrand48\<close> the number \<^verbatim>\<open>lrand48\<close> yields.
  \<open>u_stack\<close> is the indeterminate value of an uninitialised address.
\<close>

record cenv =
  u_uptime :: u32
  u_time :: nat
  u_srand :: "nat \<Rightarrow> nat"
  u_rand :: "nat \<Rightarrow> nat \<times> nat"
  u_lrand48 :: nat
  u_world :: cworld
  u_script :: script_env
  u_script_fork :: bool
  u_fork :: bool
  u_pid :: nat
  u_open :: "string \<Rightarrow> int"
  u_fdopen :: bool
  u_routes :: route_files
  u_board :: bool
  u_answers :: "tmp_msg option list"
  u_stack :: u32

datatype coutcome = CRunning client | CExited int client

definition cemit :: "client \<Rightarrow> effect list \<Rightarrow> client" where
  "cemit c es = c\<lparr>y_out := y_out c @ es\<rparr>"

text \<open>A command printed into a buffer of 128 bytes and handed to \<^verbatim>\<open>system\<close>.\<close>

definition sys :: "string \<Rightarrow> client \<Rightarrow> client option" where
  "sys cmd c = do { s \<leftarrow> sprintf 128 cmd; Some (cemit c [SystemCmd s]) }"

section \<open>Status and process\<close>

definition setStatus :: "cenv \<Rightarrow> nat \<Rightarrow> client \<Rightarrow> client option" where
  "setStatus e status c = do {
     c1 \<leftarrow> sys (''echo '' @ dec status @ '' > '' @ y_status_path c) c;
     if y_oldStatus c = int status then Some c1
     else Some (cemit (c1\<lparr>y_oldStatus := int status\<rparr>) (if u_board e then [WakeupMonitor] else [])) }"

definition setPid :: "cenv \<Rightarrow> client \<Rightarrow> client option" where
  "setPid e c = sys (''echo '' @ dec (u_pid e) @ '' > '' @ y_pid_path c) c"

definition exit_client :: "int \<Rightarrow> client \<Rightarrow> coutcome" where
  "exit_client retval c = CExited retval (cemit c (pidfile_delete (q_pidfile (y_config c))))"

definition background :: "cenv \<Rightarrow> client \<Rightarrow> coutcome option" where
  "background e c =
     (let cfg = y_config c in
      if q_quit_after_lease cfg then Some (exit_client 0 c)
      else if q_foreground cfg then Some (CRunning c)
      else let pid_fd = pidfile_acquire (u_open e) (q_pidfile cfg) in
        if \<not> u_fork e then Some (exit_client 1 c)
        else do {
          c1 \<leftarrow> setPid e c;
          Some (CRunning (cemit (c1\<lparr>y_config := cfg\<lparr>q_foreground := True\<rparr>\<rparr>)
            (pidfile_write_release (u_fdopen e) (u_pid e) (q_pidfile cfg) pid_fd))) })"

section \<open>Random numbers and the link-local fallback\<close>

definition random_xid :: "cenv \<Rightarrow> client \<Rightarrow> u32 \<times> client" where
  "random_xid e c =
     (let (x, r) = u_rand e (if y_seeded c then y_rng c else u_srand e (u_time e)) in
      (of_nat x, c\<lparr>y_rng := r, y_seeded := True\<rparr>))"

text \<open>\<^verbatim>\<open>%02d\<close>, and the seed made of three bytes of the hardware address.\<close>

definition dec2 :: "u8 \<Rightarrow> string" where
  "dec2 b = (if unat b < 10 then ''0'' else []) @ dec (unat b)"

definition mac_seed :: "u8 list \<Rightarrow> nat \<Rightarrow> nat" where
  "mac_seed arp k = num_of (dec2 (arp ! k) @ dec2 (arp ! (k + 1)) @ dec2 (arp ! (k + 2)))"

definition link_local_address :: "cenv \<Rightarrow> u8 list \<Rightarrow> string \<times> nat" where
  "link_local_address e arp =
     (let (r3, s3) = u_rand e (u_srand e (mac_seed arp 0));
          (r4, s4) = u_rand e (u_srand e (mac_seed arp 3));
          ip4 = (if r4 mod 255 = 0 then 1 else r4 mod 255) in
      (''169.254.'' @ dec (r3 mod 256) @ ''.'' @ dec ip4, s4))"

definition wan_file :: "client \<Rightarrow> string \<Rightarrow> string option" where
  "wan_file c name = sprintf 128 (''/proc/var/fyi/wan/'' @ q_Interface (y_config c) @ ''/'' @ name)"

definition link_local :: "cenv \<Rightarrow> client \<Rightarrow> client option" where
  "link_local e c =
     (let cfg = y_config c; (addr, s) = link_local_address e (q_arp cfg) in do {
        f1 \<leftarrow> wan_file c ''status'';
        c1 \<leftarrow> sys (''echo 4 > '' @ f1) (c\<lparr>y_rng := s\<rparr>);
        f2 \<leftarrow> wan_file c ''daemonstatus'';
        c2 \<leftarrow> sys (''echo 0 > '' @ f2) c1;
        f3 \<leftarrow> wan_file c ''ipaddress'';
        c3 \<leftarrow> sys (''echo '' @ addr @ '' > '' @ f3) c2;
        sys (''ifconfig '' @ (if q_interface cfg = ''br0'' then q_Interface cfg else q_interface cfg) @ '' '' @ addr) c3 })"

section \<open>The ICMP access list\<close>

definition ACL_MAX :: nat where "ACL_MAX = 16"

text \<open>\<open>g\<close> is the variable an address is parsed into; a failing parse leaves it alone.\<close>

fun acl_gateways :: "u32 \<Rightarrow> string list \<Rightarrow> u32 list" where
  "acl_gateways g [] = []"
| "acl_gateways g (s # ss) =
     (if s = [] then 0 # acl_gateways g ss
      else let g' = (case inet_aton s of None \<Rightarrow> g | Some a \<Rightarrow> a) in g' # acl_gateways g' ss)"

definition iptables :: "string \<Rightarrow> u32 \<Rightarrow> effect" where
  "iptables op a = SystemCmd (''iptables '' @ op @ '' INPUT -s '' @ inet_ntoa a @
     '' -p icmp --icmp-type 8/0 -j ACCEPT'')"

definition acl_command :: "u32 list \<Rightarrow> string \<Rightarrow> string" where
  "acl_command cur file =
     (let used = filter (\<lambda>a. a \<noteq> 0) cur in
      ''echo '' @ concat (map (\<lambda>a. dec (unat a) @ '' '') used) @
      concat (replicate (ACL_MAX - length used) ''0 '') @ ''> '' @ file)"

definition Automatic_ACL_DHCP :: "cenv \<Rightarrow> client \<Rightarrow> client option" where
  "Automatic_ACL_DHCP e c = do {
     fileName \<leftarrow> sprintf 128 (''gw_'' @ q_Interface (y_config c));
     (buf, r, serial) \<leftarrow> tmpfile_getvalue (u_script e) (u_answers e) (y_iSerial c) fileName (replicate 32 0) 32;
     let gw = text_of buf;
     let cur = (if gw \<noteq> [] \<and> gw \<noteq> ''0.0.0.0''
          then (replicate ACL_MAX 0)[0 := (case inet_aton gw of None \<Rightarrow> u_stack e | Some a \<Rightarrow> a)]
          else acl_gateways (u_stack e) (y_gGwIp c));
     cmd \<leftarrow> sprintf 512 (acl_command cur (y_dhcp_file c));
     Some (cemit (c\<lparr>y_iSerial := serial, y_pre_server_addr := cur\<rparr>)
       (map (iptables ''-D'') (filter (\<lambda>a. a \<noteq> 0) (y_pre_server_addr c)) @
        map (iptables ''-I'') (filter (\<lambda>a. a \<noteq> 0) cur) @ [SystemCmd cmd])) }"

section \<open>Timeouts\<close>

text \<open>The frame, if one went out, becomes an effect; the result of a send is not looked at.\<close>

definition csend :: "sent option \<Rightarrow> client \<Rightarrow> client option" where
  "csend res c = do {
     (r, cfg) \<leftarrow> res;
     Some (cemit (c\<lparr>y_config := cfg\<rparr>) (case s_frame r of None \<Rightarrow> [] | Some f \<Rightarrow> [Sent f])) }"

definition cscript :: "cenv \<Rightarrow> dhcpMessage option \<Rightarrow> string \<Rightarrow> client \<Rightarrow> client" where
  "cscript e packet name c =
     cemit c (run_script (u_script e) (u_script_fork e) (y_config c) (y_session_path c) packet name)"

text \<open>Seconds to wait for an answer: 10 to 19 the first time, 40 to 129 the second.\<close>

definition REQ_TIMEOUT_T1 :: "cenv \<Rightarrow> nat" where
  "REQ_TIMEOUT_T1 e = 10 + 10 * u_lrand48 e div 2147483648"

definition REQ_TIMEOUT_T2 :: "cenv \<Rightarrow> nat" where
  "REQ_TIMEOUT_T2 e = 40 + 90 * u_lrand48 e div 2147483648"

definition timeout_selecting :: "cenv \<Rightarrow> client \<Rightarrow> coutcome option" where
  "timeout_selecting e c = do {
     c0 \<leftarrow> setStatus e 0 c;
     if y_packet_num c0 < 2 then do {
       let c1 = (if y_packet_num c0 = 0 then (let (x, c') = random_xid e c0 in c'\<lparr>y_xid := x\<rparr>) else c0);
       c2 \<leftarrow> csend (send_discover (u_world e) (y_vendor_class_id c1) (y_config c1) (y_xid c1) (y_requested_ip c1)) c1;
       Some (CRunning (c2\<lparr>y_timeout := u_uptime e +
            of_nat (if y_packet_num c0 = 1 then REQ_TIMEOUT_T2 e else REQ_TIMEOUT_T1 e),
          y_packet_num := y_packet_num c0 + 1\<rparr>)) }
     else if q_abort_if_no_lease (y_config c0) then Some (exit_client 1 c0)
     else do {
       c1 \<leftarrow> (if y_discover_times c0 + 1 = 3 then link_local e (c0\<lparr>y_discover_times := 0\<rparr>)
              else Some (c0\<lparr>y_discover_times := y_discover_times c0 + 1\<rparr>));
       Some (CRunning (c1\<lparr>y_packet_num := 0, y_timeout := u_uptime e\<rparr>)) } }"

definition timeout_requesting :: "cenv \<Rightarrow> client \<Rightarrow> coutcome option" where
  "timeout_requesting e c =
     (if y_packet_num c < 3 then do {
        c1 \<leftarrow> csend (if y_state c = RENEW_REQUESTED
                then send_renew_with_request (u_world e) (y_vendor_class_id c) (y_config c) (y_xid c)
                       (y_server_addr c) (y_requested_ip c)
                else send_selecting (u_world e) (y_vendor_class_id c) (y_config c) (y_xid c)
                       (y_server_addr c) (y_requested_ip c)) c;
        Some (CRunning (c1\<lparr>y_timeout := u_uptime e + (if y_packet_num c = 2 then 4 else 2),
          y_packet_num := y_packet_num c + 1\<rparr>)) }
      else do {
        c1 \<leftarrow> link_local e c;
        Some (CRunning (c1\<lparr>y_state := INIT_SELECTING, y_timeout := u_uptime e, y_packet_num := 0,
          y_listen_mode := LISTEN_RAW\<rparr>)) })"

definition timeout_renewing :: "cenv \<Rightarrow> client \<Rightarrow> coutcome option" where
  "timeout_renewing e c =
     (if y_t2 c - y_t1 c \<le> y_lease c div 14400 + 1
      then Some (CRunning (c\<lparr>y_state := REBINDING, y_timeout := u_uptime e + (y_t2 c - y_t1 c)\<rparr>))
      else do {
        c1 \<leftarrow> csend (send_renew (u_world e) (y_vendor_class_id c) (y_config c) (y_xid c)
               (y_server_addr c) (y_requested_ip c)) c;
        let t1 = (y_t2 c - y_t1 c) div 2 + y_t1 c;
        Some (CRunning (c1\<lparr>y_t1 := t1, y_timeout := t1 + y_start c\<rparr>)) })"

definition timeout_rebinding :: "cenv \<Rightarrow> client \<Rightarrow> coutcome option" where
  "timeout_rebinding e c =
     (if y_lease c - y_t2 c \<le> y_lease c div 14400 + 1 then do {
        c1 \<leftarrow> link_local e c;
        Some (CRunning (cscript e None ''deconfig'' (c1\<lparr>y_state := INIT_SELECTING\<rparr>)
          \<lparr>y_timeout := u_uptime e, y_packet_num := 0, y_listen_mode := LISTEN_RAW\<rparr>)) }
      else do {
        c1 \<leftarrow> csend (send_renew (u_world e) (y_vendor_class_id c) (y_config c) (y_xid c) 0 (y_requested_ip c)) c;
        let t2 = (y_lease c - y_t2 c) div 2 + y_t2 c;
        Some (CRunning (c1\<lparr>y_t2 := t2, y_timeout := t2 + y_start c\<rparr>)) })"

definition client_timeout :: "cenv \<Rightarrow> client \<Rightarrow> coutcome option" where
  "client_timeout e c =
     (case y_state c of
        INIT_SELECTING \<Rightarrow> timeout_selecting e c
      | RENEW_REQUESTED \<Rightarrow> timeout_requesting e c
      | REQUESTING \<Rightarrow> timeout_requesting e c
      | BOUND \<Rightarrow> timeout_renewing e (c\<lparr>y_state := RENEWING, y_listen_mode := LISTEN_KERNEL\<rparr>)
      | RENEWING \<Rightarrow> timeout_renewing e c
      | REBINDING \<Rightarrow> timeout_rebinding e c
      | RELEASED \<Rightarrow> Some (CRunning (c\<lparr>y_timeout := 0x7FFFFFFF\<rparr>)))"

section \<open>Messages\<close>

text \<open>\<^verbatim>\<open>SIGUSR1\<close>, and a FORCERENEW of the server.\<close>

definition renew_requested :: "client \<Rightarrow> client" where
  "renew_requested c =
     (let c1 = (if y_state c \<in> {BOUND, RENEWING, REBINDING}
          then c\<lparr>y_listen_mode := LISTEN_KERNEL, y_packet_num := 0, y_state := RENEW_REQUESTED\<rparr> else c);
          c2 = (if y_state c1 = RELEASED
          then c1\<lparr>y_listen_mode := LISTEN_RAW, y_state := INIT_SELECTING, y_packet_num := 0\<rparr> else c1) in
      c2\<lparr>y_timeout := 0\<rparr>)"

definition receive_offer :: "cenv \<Rightarrow> dhcpMessage \<Rightarrow> client \<Rightarrow> client option" where
  "receive_offer e p c = do {
     s \<leftarrow> option_u32 p DHCP_SERVER_ID;
     Some (case s of None \<Rightarrow> c
       | Some a \<Rightarrow> c\<lparr>y_server_addr := a, y_xid := m_xid p, y_requested_ip := m_yiaddr p,
           y_state := REQUESTING, y_timeout := u_uptime e, y_packet_num := 0\<rparr>) }"

definition receive_ack :: "cenv \<Rightarrow> dhcpMessage \<Rightarrow> client \<Rightarrow> coutcome option" where
  "receive_ack e p c = do {
     l \<leftarrow> option_u32 p DHCP_LEASE_TIME;
     let lease = (case l of None \<Rightarrow> 3600 | Some x \<Rightarrow> x);
     let t1 = lease div 2;
     let c1 = c\<lparr>y_lease := lease, y_t1 := t1, y_t2 := drop_bit 3 (lease * 7), y_start := u_uptime e,
           y_timeout := t1 + u_uptime e, y_requested_ip := m_yiaddr p\<rparr>;
     let c2 = cscript e (Some p) (if y_state c \<in> {RENEWING, REBINDING} then ''renew'' else ''bound'') c1;
     (es, gws) \<leftarrow> run_staticRoute (u_routes e) (y_session_path c2) (y_gGwIp c2);
     c3 \<leftarrow> Automatic_ACL_DHCP e (cemit (c2\<lparr>y_gGwIp := gws, y_state := BOUND, y_listen_mode := LISTEN_KERNEL\<rparr>) es);
     c4 \<leftarrow> setStatus e 1 c3;
     background e c4 }"

definition receive_nak :: "cenv \<Rightarrow> client \<Rightarrow> client option" where
  "receive_nak e c = do {
     let c1 = (if y_state c \<noteq> REQUESTING then cscript e None ''deconfig'' c else c);
     c2 \<leftarrow> setStatus e 0 (c1\<lparr>y_state := INIT_SELECTING, y_timeout := u_uptime e, y_requested_ip := 0,
            y_packet_num := 0, y_listen_mode := LISTEN_RAW\<rparr>);
     sys (''echo 4 > /proc/var/fyi/wan/'' @ y_session_path c @ ''/status'') c2 }"

definition client_dispatch :: "cenv \<Rightarrow> dhcpMessage \<Rightarrow> u8 \<Rightarrow> client \<Rightarrow> coutcome option" where
  "client_dispatch e p message c =
     (case y_state c of
        INIT_SELECTING \<Rightarrow>
          (if message = DHCPOFFER then map_option CRunning (receive_offer e p c) else Some (CRunning c))
      | BOUND \<Rightarrow> Some (CRunning (if message = DHCPFORCERENEW then renew_requested c else c))
      | RELEASED \<Rightarrow> Some (CRunning c)
      | _ \<Rightarrow>
          (if message = DHCPACK then receive_ack e p c
           else if message = DHCPNAK then map_option CRunning (receive_nak e c)
           else Some (CRunning c)))"

definition client_receive :: "cenv \<Rightarrow> u8 list option \<Rightarrow> client \<Rightarrow> coutcome option" where
  "client_receive e rr c = do {
     (p, n) \<leftarrow> (if y_listen_mode c = LISTEN_KERNEL then get_packet rr else get_raw_packet rr (y_packet c));
     let c0 = c\<lparr>y_packet := p\<rparr>;
     if n < 0 \<or> m_xid p \<noteq> y_xid c0 then Some (CRunning c0)
     else do {
       g \<leftarrow> get_option p DHCP_MESSAGE_TYPE;
       (case g of None \<Rightarrow> Some (CRunning c0)
        | Some q \<Rightarrow> do {
            message \<leftarrow> rd (message_image p) q;
            client_dispatch e p message c0 }) } }"

section \<open>The main loop and the signals\<close>

text \<open>What one iteration sees; \<open>f_before\<close> is the uptime when the remaining time is computed.\<close>

record cturn =
  f_before :: u32
  f_sock :: sock_answer
  f_select :: selected
  f_env :: cenv

definition open_socket :: "sock_answer \<Rightarrow> listen_mode \<Rightarrow> int" where
  "open_socket k mode =
     (case mode of LISTEN_RAW \<Rightarrow> fst (raw_socket k) | LISTEN_KERNEL \<Rightarrow> fst (listen_socket k) | LISTEN_NONE \<Rightarrow> - 1)"

definition udhcpc_turn :: "cturn \<Rightarrow> client \<Rightarrow> coutcome option" where
  "udhcpc_turn x c =
     (let mode = y_listen_mode c;
          reopen = (y_old_mode c \<noteq> mode \<or> y_fd c = - 1);
          c1 = (if reopen then c\<lparr>y_old_mode := mode, y_fd := open_socket (f_sock x) mode\<rparr> else c) in
      if reopen \<and> mode \<noteq> LISTEN_NONE \<and> y_fd c1 < 0 then Some (exit_client 0 c1)
      else if \<not> 0 < sint (y_timeout c1 - f_before x) then client_timeout (f_env x) c1
      else case f_select x of
        Timeout \<Rightarrow> client_timeout (f_env x) c1
      | SelectError \<Rightarrow> Some (CRunning c1)
      | Readable rr \<Rightarrow> if mode = LISTEN_NONE then Some (CRunning c1) else client_receive (f_env x) rr c1)"

definition release_requested :: "cenv \<Rightarrow> client \<Rightarrow> client option" where
  "release_requested e c = do {
     c1 \<leftarrow> (if y_state c \<in> {BOUND, RENEWING, REBINDING} then do {
              let (x, c0) = random_xid e c;
              c' \<leftarrow> csend (send_release (u_world e) (y_vendor_class_id c0) (y_config c0) x
                     (y_server_addr c0) (y_requested_ip c0)) c0;
              Some (cscript e None ''deconfig'' c') }
            else Some c);
     Some (c1\<lparr>y_listen_mode := LISTEN_NONE, y_state := RELEASED, y_timeout := 0x7FFFFFFF\<rparr>) }"

definition terminate :: "cenv \<Rightarrow> client \<Rightarrow> coutcome" where
  "terminate e c =
     exit_client 0 (cemit c
       ((if y_acl_dhcp_flag c = 1 then fst (tmpfile_writevalue (u_script e) ''acl_dhcp'' ''0'') else []) @
        map (iptables ''-D'') (filter (\<lambda>a. a \<noteq> 0) (y_pre_server_addr c))))"

datatype csignal = CSIGUSR1 | CSIGUSR2 | CSIGTERM

definition udhcpc_signal :: "cenv \<Rightarrow> csignal \<Rightarrow> client \<Rightarrow> coutcome option" where
  "udhcpc_signal e s c =
     (case s of
        CSIGUSR1 \<Rightarrow> Some (CRunning (renew_requested c))
      | CSIGUSR2 \<Rightarrow> map_option CRunning (release_requested e c)
      | CSIGTERM \<Rightarrow> Some (terminate e c))"

section \<open>Start-up\<close>

text \<open>
  \<open>j_args\<close> is what \<^verbatim>\<open>getopt_long\<close> yields one after the other, \<open>j_class\<close> the first line of
  \<^verbatim>\<open>/var/dhcpClassIdentifier\<close>, \<open>j_if\<close> the answers about the interface, \<open>j_packet\<close> what
  the message buffer on the stack holds when \<^verbatim>\<open>main\<close> begins.
\<close>

record cboot =
  j_args :: "(char \<times> string) list"
  j_class :: "string option"
  j_if :: if_answer
  j_packet :: dhcpMessage
  j_env :: cenv

definition default_client_config :: client_config where
  "default_client_config = \<lparr>q_foreground = False, q_quit_after_lease = False, q_abort_if_no_lease = False,
     q_interface = ''eth0'', q_Interface = ''eth0'', q_pidfile = None,
     q_script = Some ''/etc/dhcp/dhcp_getdata'', q_clientid = None, q_hostname = None, q_ifindex = 0,
     q_arp = replicate 6 0\<rparr>"

definition start_client :: "cboot \<Rightarrow> client" where
  "start_client b = \<lparr>y_config = default_client_config, y_vendor_class_id = [], y_session_path = [],
     y_status_path = [], y_pid_path = [], y_state = INIT_SELECTING, y_requested_ip = 0, y_server_addr = 0,
     y_timeout = 0, y_packet_num = 0, y_discover_times = 0, y_listen_mode = LISTEN_RAW,
     y_old_mode = LISTEN_RAW, y_fd = - 1, y_xid = 0, y_t1 = 0, y_t2 = 0, y_start = 0,
     y_lease = u_stack (j_env b), y_packet = j_packet b, y_gGwIp = replicate 16 [],
     y_pre_server_addr = replicate 16 0, y_acl_dhcp_flag = 0, y_dhcp_file = [], y_oldStatus = - 1,
     y_seeded = False, y_rng = 0, y_iSerial = 0, y_out = []\<rparr>"

text \<open>Which of the two access-list files this client uses; the flag is a single byte.\<close>

definition init_acl :: "cenv \<Rightarrow> client \<Rightarrow> client option" where
  "init_acl e c = do {
     (buf, r, serial) \<leftarrow> tmpfile_getvalue (u_script e) (u_answers e) (y_iSerial c) ''acl_dhcp'' [48] 1;
     let c' = c\<lparr>y_iSerial := serial\<rparr>;
     Some (if r \<noteq> 0 \<or> buf ! 0 = 48
       then cemit (c'\<lparr>y_dhcp_file := ''/proc/sys/net/ipv4/icmp_acl_dhcp_1'', y_acl_dhcp_flag := 1\<rparr>)
              (fst (tmpfile_writevalue (u_script e) ''acl_dhcp'' ''1''))
       else c'\<lparr>y_dhcp_file := ''/proc/sys/net/ipv4/icmp_acl_dhcp_2'', y_acl_dhcp_flag := 2\<rparr>) }"

definition option_block :: "u8 \<Rightarrow> string \<Rightarrow> u8 list" where
  "option_block code arg = (let len = min 255 (length arg) in [code, of_nat len] @ take len (bytes_of arg))"

text \<open>One command line option; \<open>Inl\<close> is the return of \<^verbatim>\<open>main\<close>.\<close>

definition client_arg :: "string option \<Rightarrow> char \<times> string \<Rightarrow> client \<times> bool \<Rightarrow> (int + client \<times> bool) option" where
  "client_arg class_file a r =
     (let (opt, optarg) = a; (c, surge) = r; cfg = y_config c;
          keep = (\<lambda>cfg'. Some (Inr (c\<lparr>y_config := cfg'\<rparr>, surge))) in
      if opt = CHR ''c'' then keep (cfg\<lparr>q_clientid := Some (option_block DHCP_CLIENT_ID optarg)\<rparr>)
      else if opt = CHR ''f'' then keep (cfg\<lparr>q_foreground := True\<rparr>)
      else if opt = CHR ''H'' then keep (cfg\<lparr>q_hostname := Some (option_block DHCP_HOST_NAME optarg)\<rparr>)
      else if opt = CHR ''h'' then Some (Inl 0)
      else if opt = CHR ''i'' then
        (if length optarg \<ge> 64 then None
         else Some (Inr (c\<lparr>y_config := cfg\<lparr>q_interface := optarg, q_Interface := optarg\<rparr>, y_session_path := optarg\<rparr>, surge)))
      else if opt = CHR ''I'' then
        (if length optarg \<ge> 64 then None
         else Some (Inr (c\<lparr>y_config := cfg\<lparr>q_Interface := optarg\<rparr>, y_session_path := optarg\<rparr>, surge)))
      else if opt = CHR ''n'' then keep (cfg\<lparr>q_abort_if_no_lease := True\<rparr>)
      else if opt = CHR ''p'' then keep (cfg\<lparr>q_pidfile := Some optarg\<rparr>)
      else if opt = CHR ''q'' then keep (cfg\<lparr>q_quit_after_lease := True\<rparr>)
      else if opt = CHR ''r'' then Some (Inr (c\<lparr>y_requested_ip := inet_addr optarg\<rparr>, surge))
      else if opt = CHR ''d'' then
        (case class_file of None \<Rightarrow> Some (Inr (c, surge))
         | Some line \<Rightarrow> Some (Inr (c\<lparr>y_vendor_class_id := bytes_of (take 127 line)\<rparr>, surge)))
      else if opt = CHR ''s'' then keep (cfg\<lparr>q_script := Some optarg\<rparr>)
      else if opt = CHR ''m'' then Some (Inr (c, True))
      else Some (Inr (c, surge)))"

fun client_args ::
  "string option \<Rightarrow> (char \<times> string) list \<Rightarrow> client \<times> bool \<Rightarrow> (int + client \<times> bool) option" where
  "client_args class_file [] r = Some (Inr r)"
| "client_args class_file (a # as) r = do {
     r' \<leftarrow> client_arg class_file a r;
     (case r' of Inl n \<Rightarrow> Some (Inl n) | Inr s \<Rightarrow> client_args class_file as s) }"

text \<open>The paths of the session, the process file, the interface, and the first status.\<close>

definition init_interface_client :: "cboot \<Rightarrow> bool \<Rightarrow> client \<Rightarrow> coutcome option" where
  "init_interface_client b surge c = (let e = j_env b; cfg = y_config c; a = j_if b in
     if \<not> i_socket a then Some (exit_client 1 c)
     else if length (q_interface cfg) \<ge> 16 then None
     else case i_index a of None \<Rightarrow> Some (exit_client 1 c)
     | Some idx \<Rightarrow> case i_hwaddr a of None \<Rightarrow> Some (exit_client 1 (c\<lparr>y_config := cfg\<lparr>q_ifindex := idx\<rparr>\<rparr>))
     | Some hw \<Rightarrow> do {
         arp \<leftarrow> rdn hw 0 6;
         let c1 = c\<lparr>y_config := cfg\<lparr>q_ifindex := idx, q_arp := arp\<rparr>\<rparr>;
         let c2 = (if surge then (let (r, s) = u_rand e (u_srand e (mac_seed arp 3)) in
               c1\<lparr>y_rng := s, y_timeout := of_nat (r mod 7200) + u_uptime e\<rparr>) else c1);
         c3 \<leftarrow> setStatus e 0 (c2\<lparr>y_state := INIT_SELECTING\<rparr>);
         Some (CRunning c3) })"

definition udhcpc_init :: "cboot \<Rightarrow> coutcome option" where
  "udhcpc_init b = (let e = j_env b in do {
     c0 \<leftarrow> init_acl e (start_client b);
     r \<leftarrow> client_args (j_class b) (j_args b) (c0, False);
     (case r of Inl n \<Rightarrow> Some (CExited n c0)
      | Inr (c1, surge) \<Rightarrow> do {
          let dir = WAN_DIR @ ''/'' @ y_session_path c1;
          c2 \<leftarrow> (if y_session_path c1 = [] then Some c1
                 else do {
                   st \<leftarrow> sprintf 128 (dir @ ''/daemonstatus'');
                   pd \<leftarrow> sprintf 128 (dir @ ''/pid'');
                   Some (c1\<lparr>y_status_path := st, y_pid_path := pd\<rparr>) });
          let pid_fd = pidfile_acquire (u_open e) (q_pidfile (y_config c2));
          init_interface_client b surge (cemit c2
            (pidfile_write_release (u_fdopen e) (u_pid e) (q_pidfile (y_config c2)) pid_fd)) }) })"

section \<open>The invariant\<close>

definition mode_of :: "cstate \<Rightarrow> listen_mode" where
  "mode_of s = (case s of INIT_SELECTING \<Rightarrow> LISTEN_RAW | REQUESTING \<Rightarrow> LISTEN_RAW | RELEASED \<Rightarrow> LISTEN_NONE
     | _ \<Rightarrow> LISTEN_KERNEL)"

text \<open>Every string fits the buffers it is printed into, and the socket matches the state.\<close>

definition client_ok :: "client \<Rightarrow> bool" where
  "client_ok c \<longleftrightarrow> wf_message (y_packet c) \<and> length (q_arp (y_config c)) = 6 \<and>
     (\<forall>h. q_hostname (y_config c) = Some h \<longrightarrow> wf_block h) \<and> length (y_vendor_class_id c) < 64 \<and>
     length (q_Interface (y_config c)) < 64 \<and> length (q_interface (y_config c)) < 16 \<and>
     length (y_session_path c) < 64 \<and> length (y_status_path c) < 100 \<and> length (y_pid_path c) < 100 \<and>
     length (y_gGwIp c) = 16 \<and> length (y_pre_server_addr c) = 16 \<and> length (y_dhcp_file c) < 100 \<and>
     y_packet_num c \<le> 3 \<and> y_listen_mode c = mode_of (y_state c)"

text \<open>
  What is asked of the environment: a serial number of at most 32 bytes, no stored value of
  exactly 32 characters, route files of three short words per line, a process number of at
  most ten digits.
\<close>

definition line_ok :: "string \<Rightarrow> bool" where
  "line_ok l \<longleftrightarrow> 3 \<le> length (words_of l) \<and> (\<forall>w \<in> set (take 3 (words_of l)). length w < 16)"

definition routes_ok :: "route_files \<Rightarrow> bool" where
  "routes_ok h \<longleftrightarrow> (\<forall>t. h_new h = Some t \<or> h_old h = Some t \<longrightarrow> list_all line_ok (fgets_lines 264 t))"

definition cenv_ok :: "cenv \<Rightarrow> bool" where
  "cenv_ok e \<longleftrightarrow> (\<forall>k. length (w_serial (u_world e) k) \<le> 32) \<and>
     (\<forall>m. Some m \<in> set (u_answers e) \<longrightarrow> length (t_value m) \<noteq> 32) \<and> routes_ok (u_routes e) \<and> u_pid e < 10 ^ 10"

inductive csteps :: "client \<Rightarrow> client \<Rightarrow> bool" for c0 where
  start: "csteps c0 c0"
| turn: "csteps c0 c \<Longrightarrow> cenv_ok (f_env x) \<Longrightarrow> udhcpc_turn x c = Some (CRunning c') \<Longrightarrow> csteps c0 c'"
| signal: "csteps c0 c \<Longrightarrow> cenv_ok e \<Longrightarrow> udhcpc_signal e s c = Some (CRunning c') \<Longrightarrow> csteps c0 c'"

section \<open>Every step ends and keeps the invariant\<close>

lemma cemit_simps [simp]:
  "y_config (cemit c es) = y_config c" "y_state (cemit c es) = y_state c" "y_status_path (cemit c es) = y_status_path c"
  "y_pid_path (cemit c es) = y_pid_path c" "y_session_path (cemit c es) = y_session_path c"
  "y_oldStatus (cemit c es) = y_oldStatus c" "client_ok (cemit c es) = client_ok c"
  "y_gGwIp (cemit c es) = y_gGwIp c" "y_dhcp_file (cemit c es) = y_dhcp_file c"
  by (simp_all add: cemit_def client_ok_def)

lemma sys_fits: "length cmd < 128 \<Longrightarrow> sys cmd c = Some (cemit c [SystemCmd cmd])"
  by (simp add: sys_def)

lemma setStatus_total:
  assumes "client_ok c" "n < 10"
  shows "\<exists>es. setStatus e n c = Some (c\<lparr>y_oldStatus := int n, y_out := y_out c @ es\<rparr>)"
proof -
  have "length (dec n) \<le> 1" using assms(2) by (intro length_dec) simp_all
  then have "length (''echo '' @ dec n @ '' > '' @ y_status_path c) < 128"
    using assms(1) by (simp add: client_ok_def)
  then obtain x where s: "sys (''echo '' @ dec n @ '' > '' @ y_status_path c) c = Some (cemit c [x])"
    using sys_fits by blast
  show ?thesis
  proof (cases "y_oldStatus c = int n")
    case True
    then have "c\<lparr>y_oldStatus := int n, y_out := z\<rparr> = c\<lparr>y_out := z\<rparr>" for z by (cases c) simp
    then show ?thesis unfolding setStatus_def s bind.simps using True by (intro exI[of _ "[x]"]) (simp add: cemit_def)
  next
    case False
    then show ?thesis unfolding setStatus_def s bind.simps
      by (intro exI[of _ "x # (if u_board e then [WakeupMonitor] else [])"]) (simp add: cemit_def)
  qed
qed

lemma setPid_total:
  assumes "client_ok c" "cenv_ok e"
  shows "\<exists>es. setPid e c = Some (c\<lparr>y_out := y_out c @ es\<rparr>)"
proof -
  have "length (dec (u_pid e)) \<le> 10" using assms(2) by (intro length_dec) (simp_all add: cenv_ok_def)
  then have "length (''echo '' @ dec (u_pid e) @ '' > '' @ y_pid_path c) < 128"
    using assms(1) by (simp add: client_ok_def)
  then show ?thesis by (auto simp: setPid_def sys_fits cemit_def)
qed

lemma length_link_local: "length (fst (link_local_address e arp)) \<le> 16"
proof -
  have "length (dec (x mod 256)) \<le> 3" "length (dec (x mod 255)) \<le> 3" "length (dec (Suc 0)) \<le> 3" for x
    using mod_less_divisor[of 256 x] mod_less_divisor[of 255 x] by (intro length_dec; simp)+
  then have "length (dec (x mod 256)) + length (dec (y mod 255)) \<le> 7" "length (dec (x mod 256)) + length (dec (Suc 0)) \<le> 7" for x y
    by (smt (verit) add_mono numeral_Bit0 numeral_Bit1 le_trans trans_le_add1)+
  then show ?thesis by (auto simp: link_local_address_def Let_def split: prod.split)
qed

lemma link_local_total:
  assumes "client_ok c"
  shows "\<exists>s es. link_local e c = Some (c\<lparr>y_rng := s, y_out := y_out c @ es\<rparr>)"
proof -
  obtain addr s where a: "link_local_address e (q_arp (y_config c)) = (addr, s)" by fastforce
  with length_link_local[of e "q_arp (y_config c)"] have l: "length addr \<le> 16" by simp
  have i: "length (q_Interface (y_config c)) < 64" "length (q_interface (y_config c)) < 64"
    using assms by (simp_all add: client_ok_def)
  show ?thesis
    using a l i unfolding link_local_def wan_file_def sys_def cemit_def Let_def by simp (blast intro: exI)
qed

lemma csend_total:
  assumes "sends_message w (y_config c) xid ci os res"
  shows "\<exists>es. csend res c = Some (c\<lparr>y_config := y_config c\<lparr>q_clientid := client_id w\<rparr>, y_out := y_out c @ es\<rparr>)"
  using assms by (auto simp: sends_message_def csend_def cemit_def)

lemma client_ready_ok: "client_ok c \<Longrightarrow> cenv_ok e \<Longrightarrow> client_ready (u_world e) (y_vendor_class_id c) (y_config c)"
  by (simp add: client_ready_def client_ok_def cenv_ok_def)

text \<open>
  What the state machine relies on of a function that sends a message: given a client and an
  environment that respect the buffers it hands exactly the message with transaction number
  \<open>xid\<close>, address \<open>ci\<close> and options \<open>opts\<close> to the kernel, or nothing when a socket call fails.
\<close>

locale client_sender =
  fixes send :: "cworld \<Rightarrow> u8 list \<Rightarrow> client_config \<Rightarrow> u32 \<Rightarrow> sent option"
    and ci :: u32
    and opts :: "cworld \<Rightarrow> u8 list \<Rightarrow> client_config \<Rightarrow> opt list"
  assumes sends: "client_ready w vc cfg \<Longrightarrow> sends_message w cfg xid ci (opts w vc cfg) (send w vc cfg xid)"
begin

lemma sending:
  assumes "client_ok c" "cenv_ok e"
  shows "\<exists>es. csend (send (u_world e) (y_vendor_class_id c) (y_config c) xid) c =
    Some (c\<lparr>y_config := y_config c\<lparr>q_clientid := client_id (u_world e)\<rparr>, y_out := y_out c @ es\<rparr>)"
  using csend_total[OF sends[OF client_ready_ok[OF assms]]] by blast

end

interpretation discover: client_sender "\<lambda>w vc cfg xid. send_discover w vc cfg xid req" 0
    "\<lambda>w vc cfg. discover_options w vc cfg req" for req
  by unfold_locales (rule send_discover_sends)

interpretation selecting: client_sender "\<lambda>w vc cfg xid. send_selecting w vc cfg xid srv req" 0
    "\<lambda>w vc cfg. selecting_options w vc cfg srv req" for srv req
  by unfold_locales (rule send_selecting_sends)

interpretation renew: client_sender "\<lambda>w vc cfg xid. send_renew w vc cfg xid srv ci" ci
    "\<lambda>w vc cfg. client_head w vc cfg DHCPREQUEST" for srv ci
  by unfold_locales (rule send_renew_sends(1))

interpretation renew_request: client_sender "\<lambda>w vc cfg xid. send_renew_with_request w vc cfg xid srv ci" ci
    "\<lambda>w vc cfg. client_head w vc cfg DHCPREQUEST @ [block_opt request_list]" for srv ci
  by unfold_locales (rule send_renew_sends(2))

interpretation release: client_sender "\<lambda>w vc cfg xid. send_release w vc cfg xid srv ci" ci
    "\<lambda>w vc cfg. release_options w vc cfg srv ci" for srv ci
  by unfold_locales (rule send_release_sends)

text \<open>Route files.\<close>

lemma line_ok_scan:
  assumes "line_ok l" "length session < 64" "length op = 3"
  shows "\<exists>w' c g. scan3 l w = Some w' \<and> route_command op session w' = Some (c, g)"
proof -
  obtain a m g r where ws: "words_of l = a # m # g # r"
    using assms(1) by (auto simp: line_ok_def numeral_3_eq_3 Suc_le_length_iff)
  then have "length a < 16" "length m < 16" "length g < 16" using assms(1) by (simp_all add: line_ok_def)
  then show ?thesis
    using ws assms(2,3) by (cases w) (simp add: scan3_def Let_def route_command_def not_le)
qed

lemma delete_routes_total:
  "list_all line_ok ls \<Longrightarrow> length session < 64 \<Longrightarrow> \<exists>es w'. delete_routes session w ls = Some (es, w')"
proof (induction ls arbitrary: w)
  case (Cons l ls)
  then obtain w' c g where l: "scan3 l w = Some w'" "route_command ''del'' session w' = Some (c, g)"
    using line_ok_scan[of l session "''del''" w] by auto
  from Cons.IH[of w'] Cons.prems obtain es w2 where "delete_routes session w' ls = Some (es, w2)" by auto
  with l show ?case by (cases w2) simp
qed auto

lemma add_routes_total:
  "list_all line_ok ls \<Longrightarrow> length session < 64 \<Longrightarrow>
   \<exists>es r'. add_routes session w r ls = Some (es, r') \<and> length (fst r') = length (fst r)"
proof (induction ls arbitrary: w r)
  case (Cons l ls)
  then obtain w' c g where l: "scan3 l w = Some w'" "route_command ''add'' session w' = Some (c, g)"
    using line_ok_scan[of l session "''add''" w] by auto
  from Cons.IH[of w' "note_gateway g r"] Cons.prems obtain es r' where
    "add_routes session w' (note_gateway g r) ls = Some (es, r')" "length (fst r') = length (fst r)" by auto
  with l show ?case by (cases r') simp
qed auto

lemma run_staticRoute_total:
  assumes "routes_ok h" "length session < 64"
  shows "\<exists>es gws'. run_staticRoute h session gws = Some (es, gws') \<and> length gws' = length gws"
proof (cases "h_new h = None \<or> h_old h = None")
  case True
  then show ?thesis using assms(2) by (auto simp: run_staticRoute_def split: option.split)
next
  case False
  then obtain new old where h: "h_new h = Some new" "h_old h = Some old" by auto
  then have ok: "list_all line_ok (fgets_lines 264 new)" "list_all line_ok (fgets_lines 264 old)"
    using assms(1) by (auto simp: routes_ok_def)
  obtain es w where d: "delete_routes session (None, None, None) (fgets_lines 264 old) = Some (es, w)"
    using delete_routes_total[OF ok(2) assms(2)] by blast
  obtain es2 gws' k where a: "add_routes session w (gws, 0) (fgets_lines 264 new) = Some (es2, gws', k)"
    "length gws' = length gws" using add_routes_total[OF ok(1) assms(2), of w "(gws, 0)"] by auto
  show ?thesis using h d a assms(2) by (simp add: run_staticRoute_def)
qed

text \<open>The access list.\<close>

lemma getvalue_loop_in: "getvalue_loop k n as = Some m \<Longrightarrow> Some m \<in> set as"
  by (induction k n as rule: getvalue_loop.induct) (auto split: if_splits)

lemma tmpfile_getvalue_total:
  assumes "\<forall>m. Some m \<in> set as \<longrightarrow> length (t_value m) \<noteq> length buf"
  shows "\<exists>buf' r k'. tmpfile_getvalue e as k name buf (length buf) = Some (buf', r, k')"
proof (cases "getvalue_loop k 0 as")
  case (Some m)
  then have "length (t_value m) \<noteq> length buf" using assms getvalue_loop_in by blast
  then show ?thesis using Some by (auto simp: tmpfile_getvalue_def memcpy_in bytes_of_def)
qed (simp add: tmpfile_getvalue_def)

lemma length_acl_gateways [simp]: "length (acl_gateways g ss) = length ss"
  by (induction g ss rule: acl_gateways.induct) (simp_all add: Let_def)

lemma length_acl_command:
  assumes "length cur = 16"
  shows "length (acl_command cur file) \<le> 220 + length file"
proof -
  let ?u = "filter (\<lambda>a. a \<noteq> 0) cur"
  have u: "length ?u \<le> 16" using assms length_filter_le[of _ cur] by metis
  have "length (concat (map (\<lambda>a. dec (unat a) @ '' '') us)) \<le> 11 * length us" for us :: "u32 list"
  proof (induction us)
    case (Cons a us)
    then show ?case using length_dec_word(1)[of a] by simp
  qed simp
  from this[of ?u] u have "length (concat (map (\<lambda>a. dec (unat a) @ '' '') ?u)) \<le> 176" by simp
  moreover have "length (concat (replicate n ''0 '')) = 2 * n" for n by (induction n) simp_all
  ultimately show ?thesis by (simp add: acl_command_def Let_def ACL_MAX_def)
qed

lemma Automatic_ACL_DHCP_total:
  assumes "client_ok c" "cenv_ok e"
  shows "\<exists>k cur es. Automatic_ACL_DHCP e c = Some (c\<lparr>y_iSerial := k, y_pre_server_addr := cur, y_out := y_out c @ es\<rparr>) \<and>
    length cur = 16"
proof -
  have f: "sprintf 128 (''gw_'' @ q_Interface (y_config c)) = Some (''gw_'' @ q_Interface (y_config c))"
    using assms(1) by (simp add: client_ok_def)
  obtain buf r k where t: "tmpfile_getvalue (u_script e) (u_answers e) (y_iSerial c) (''gw_'' @ q_Interface (y_config c))
      (replicate 32 0) 32 = Some (buf, r, k)"
    using tmpfile_getvalue_total[of "u_answers e" "replicate 32 0"] assms(2) by (fastforce simp: cenv_ok_def)
  define cur where "cur = (if text_of buf \<noteq> [] \<and> text_of buf \<noteq> ''0.0.0.0''
      then (replicate ACL_MAX 0)[0 := (case inet_aton (text_of buf) of None \<Rightarrow> u_stack e | Some a \<Rightarrow> a)]
      else acl_gateways (u_stack e) (y_gGwIp c))"
  have l: "length cur = 16" using assms(1) by (simp add: cur_def ACL_MAX_def client_ok_def)
  have "sprintf 512 (acl_command cur (y_dhcp_file c)) = Some (acl_command cur (y_dhcp_file c))"
    using length_acl_command[OF l, of "y_dhcp_file c"] assms(1) by (simp add: client_ok_def)
  then show ?thesis
    unfolding Automatic_ACL_DHCP_def f bind.simps t prod.case Let_def cur_def[symmetric] using l by (auto simp: cemit_def)
qed

text \<open>A handler ends; if the client goes on, the invariant holds and so does \<open>P\<close>.\<close>

definition cends :: "(client \<Rightarrow> bool) \<Rightarrow> coutcome option \<Rightarrow> bool" where
  "cends P r \<longleftrightarrow> (\<exists>x. r = Some x \<and> (\<forall>c. x = CRunning c \<longrightarrow> client_ok c \<and> P c))"

lemma cends_simps [simp]:
  "cends P (Some (CRunning c)) \<longleftrightarrow> client_ok c \<and> P c" "cends P (Some (exit_client n c))" "\<not> cends P None"
  by (simp_all add: cends_def exit_client_def)

lemma cends_total: "cends P r \<Longrightarrow> r \<noteq> None"
  by (auto simp: cends_def)

lemma cends_running: "cends P r \<Longrightarrow> r = Some (CRunning c) \<Longrightarrow> P c"
  by (auto simp: cends_def)

lemma cends_mono: "cends P r \<Longrightarrow> (\<And>c. P c \<Longrightarrow> Q c) \<Longrightarrow> cends Q r"
  by (auto simp: cends_def)

lemma clientid_ok [simp]: "client_ok (c\<lparr>y_config := y_config c\<lparr>q_clientid := i\<rparr>, y_out := os\<rparr>) = client_ok c"
  by (simp add: client_ok_def)

lemma out_ok [simp]: "client_ok (c\<lparr>y_out := os\<rparr>) = client_ok c" "client_ok (c\<lparr>y_rng := s, y_out := os\<rparr>) = client_ok c"
  "client_ok (c\<lparr>y_oldStatus := k, y_out := os\<rparr>) = client_ok c" "client_ok (c\<lparr>y_oldStatus := k\<rparr>) = client_ok c"
  by (simp_all add: client_ok_def)

lemma background_ends:
  assumes "client_ok c" "cenv_ok e"
  shows "cends (\<lambda>c'. \<exists>f es. c' = c\<lparr>y_config := f, y_out := y_out c @ es\<rparr>) (background e c)"
proof -
  obtain es where p: "setPid e c = Some (c\<lparr>y_out := y_out c @ es\<rparr>)" using setPid_total[OF assms] by blast
  let ?f = "y_config c\<lparr>q_foreground := True\<rparr>"
  have ok: "client_ok (c\<lparr>y_config := ?f, y_out := xs\<rparr>)" for xs using assms(1) by (simp add: client_ok_def)
  have self: "c = c\<lparr>y_config := y_config c, y_out := y_out c @ []\<rparr>" by simp
  have "(\<exists>n. background e c = Some (exit_client n c)) \<or> background e c = Some (CRunning c) \<or>
    (\<exists>xs. background e c = Some (CRunning (c\<lparr>y_config := ?f, y_out := y_out c @ xs\<rparr>)))"
    unfolding background_def Let_def p bind.simps by (simp add: cemit_def) blast
  then show ?thesis
  proof (elim disjE exE)
    assume b: "background e c = Some (CRunning c)"
    show ?thesis unfolding b cends_simps using assms(1) self by blast
  next
    fix xs
    assume b: "background e c = Some (CRunning (c\<lparr>y_config := ?f, y_out := y_out c @ xs\<rparr>))"
    show ?thesis unfolding b cends_simps using ok by blast
  qed (simp only: cends_simps)
qed

lemma random_xid_ok:
  assumes "random_xid e c = (x, c')"
  shows "\<exists>r. c' = c\<lparr>y_rng := r, y_seeded := True\<rparr>"
  using assms by (auto simp: random_xid_def Let_def split: prod.splits)

lemma timeout_selecting_ends:
  assumes "client_ok c" "cenv_ok e" "y_state c = INIT_SELECTING"
  shows "cends (\<lambda>c'. y_state c' = INIT_SELECTING) (timeout_selecting e c)"
proof -
  obtain es where s: "setStatus e 0 c = Some (c\<lparr>y_oldStatus := 0, y_out := y_out c @ es\<rparr>)"
    using setStatus_total[OF assms(1), of 0 e] by auto
  let ?c0 = "c\<lparr>y_oldStatus := 0, y_out := y_out c @ es\<rparr>"
  let ?c1 = "if y_packet_num ?c0 = 0 then (let (x, c') = random_xid e ?c0 in c'\<lparr>y_xid := x\<rparr>) else ?c0"
  have ok1: "client_ok ?c1" "y_state ?c1 = INIT_SELECTING"
    using assms(1,3) random_xid_ok[of e ?c0] by (auto simp: client_ok_def Let_def split: prod.splits)
  from discover.sending[OF ok1(1) assms(2)] obtain es2 where
    d: "csend (send_discover (u_world e) (y_vendor_class_id ?c1) (y_config ?c1) (y_xid ?c1) (y_requested_ip ?c1)) ?c1 =
      Some (?c1\<lparr>y_config := y_config ?c1\<lparr>q_clientid := client_id (u_world e)\<rparr>, y_out := y_out ?c1 @ es2\<rparr>)" by blast
  have ok2: "client_ok (?c0\<lparr>y_discover_times := k\<rparr>)" for k using assms(1) by (simp add: client_ok_def)
  have l: "\<exists>r es3. link_local e (?c0\<lparr>y_discover_times := k\<rparr>) = Some (?c0\<lparr>y_discover_times := k, y_rng := r, y_out := y_out ?c0 @ es3\<rparr>)" for k
    using link_local_total[OF ok2[of k], of e] by simp
  show ?thesis
  proof (cases "y_packet_num ?c0 < 2")
    case True
    have "client_ok (?c1\<lparr>y_config := y_config ?c1\<lparr>q_clientid := i\<rparr>, y_out := os, y_timeout := t, y_packet_num := y_packet_num ?c0 + 1\<rparr>)" for i os t
      using ok1(1) True by (simp add: client_ok_def)
    then show ?thesis using True ok1 unfolding timeout_selecting_def s bind.simps Let_def
      using d[unfolded Let_def] by (simp only: if_True bind.simps) simp
  next
    case False
    then show ?thesis using l[of 0] assms(1,3) unfolding timeout_selecting_def s bind.simps
      by (auto simp: client_ok_def)
  qed
qed

lemma timeout_requesting_ends:
  assumes "client_ok c" "cenv_ok e" "y_state c \<in> {REQUESTING, RENEW_REQUESTED}"
  shows "cends (\<lambda>c'. y_state c' \<in> {y_state c, INIT_SELECTING}) (timeout_requesting e c)"
proof (cases "y_packet_num c < 3")
  case True
  let ?res = "if y_state c = RENEW_REQUESTED
      then send_renew_with_request (u_world e) (y_vendor_class_id c) (y_config c) (y_xid c) (y_server_addr c) (y_requested_ip c)
      else send_selecting (u_world e) (y_vendor_class_id c) (y_config c) (y_xid c) (y_server_addr c) (y_requested_ip c)"
  have "\<exists>es. csend ?res c =
      Some (c\<lparr>y_config := y_config c\<lparr>q_clientid := client_id (u_world e)\<rparr>, y_out := y_out c @ es\<rparr>)"
  proof (cases "y_state c = RENEW_REQUESTED")
    case True
    show ?thesis unfolding if_P[OF True] by (rule renew_request.sending[OF assms(1,2)])
  next
    case False
    show ?thesis unfolding if_not_P[OF False] by (rule selecting.sending[OF assms(1,2)])
  qed
  then obtain es where d: "csend ?res c =
      Some (c\<lparr>y_config := y_config c\<lparr>q_clientid := client_id (u_world e)\<rparr>, y_out := y_out c @ es\<rparr>)" by blast
  show ?thesis unfolding timeout_requesting_def d bind.simps using True assms(1) by (simp add: client_ok_def)
next
  case False
  obtain k es where "link_local e c = Some (c\<lparr>y_rng := k, y_out := y_out c @ es\<rparr>)"
    using link_local_total[OF assms(1)] by blast
  then show ?thesis unfolding timeout_requesting_def using False assms(1) by (simp add: client_ok_def mode_of_def)
qed

lemma timeout_renewing_ends:
  assumes "client_ok c" "cenv_ok e" "y_state c = RENEWING"
  shows "cends (\<lambda>c'. y_state c' \<in> {RENEWING, REBINDING}) (timeout_renewing e c)"
proof -
  obtain es where d: "csend (send_renew (u_world e) (y_vendor_class_id c) (y_config c) (y_xid c) (y_server_addr c) (y_requested_ip c)) c =
      Some (c\<lparr>y_config := y_config c\<lparr>q_clientid := client_id (u_world e)\<rparr>, y_out := y_out c @ es\<rparr>)"
    using renew.sending[OF assms(1,2)] by blast
  show ?thesis unfolding timeout_renewing_def d bind.simps Let_def using assms(1,3) by (simp add: client_ok_def mode_of_def)
qed

lemma timeout_rebinding_ends:
  assumes "client_ok c" "cenv_ok e" "y_state c = REBINDING"
  shows "cends (\<lambda>c'. y_state c' \<in> {REBINDING, INIT_SELECTING}) (timeout_rebinding e c)"
proof -
  obtain es where d: "csend (send_renew (u_world e) (y_vendor_class_id c) (y_config c) (y_xid c) 0 (y_requested_ip c)) c =
      Some (c\<lparr>y_config := y_config c\<lparr>q_clientid := client_id (u_world e)\<rparr>, y_out := y_out c @ es\<rparr>)"
    using renew.sending[OF assms(1,2)] by blast
  obtain k es2 where l: "link_local e c = Some (c\<lparr>y_rng := k, y_out := y_out c @ es2\<rparr>)"
    using link_local_total[OF assms(1)] by blast
  show ?thesis unfolding timeout_rebinding_def d l bind.simps Let_def cscript_def cemit_def
    using assms(1,3) by (simp add: client_ok_def mode_of_def)
qed

text \<open>What the state machine of RFC 2131 allows.\<close>

datatype cevent = Tick | Message u8 | Nothing | Renew | Release

fun may :: "cstate \<Rightarrow> cevent \<Rightarrow> cstate set" where
  "may s Nothing = {s}"
| "may s Tick = (case s of INIT_SELECTING \<Rightarrow> {INIT_SELECTING} | REQUESTING \<Rightarrow> {REQUESTING, INIT_SELECTING}
     | RENEW_REQUESTED \<Rightarrow> {RENEW_REQUESTED, INIT_SELECTING} | BOUND \<Rightarrow> {RENEWING, REBINDING}
     | RENEWING \<Rightarrow> {RENEWING, REBINDING} | REBINDING \<Rightarrow> {REBINDING, INIT_SELECTING} | RELEASED \<Rightarrow> {RELEASED})"
| "may s (Message t) = (case s of
       INIT_SELECTING \<Rightarrow> (if t = DHCPOFFER then {INIT_SELECTING, REQUESTING} else {INIT_SELECTING})
     | BOUND \<Rightarrow> (if t = DHCPFORCERENEW then {RENEW_REQUESTED} else {BOUND})
     | RELEASED \<Rightarrow> {RELEASED}
     | _ \<Rightarrow> (if t = DHCPACK then {BOUND} else if t = DHCPNAK then {INIT_SELECTING} else {s}))"
| "may s Renew = (case s of BOUND \<Rightarrow> {RENEW_REQUESTED} | RENEWING \<Rightarrow> {RENEW_REQUESTED}
     | REBINDING \<Rightarrow> {RENEW_REQUESTED} | RELEASED \<Rightarrow> {INIT_SELECTING} | _ \<Rightarrow> {s})"
| "may s Release = {RELEASED}"

lemma client_timeout_ends:
  assumes "client_ok c" "cenv_ok e"
  shows "cends (\<lambda>c'. y_state c' \<in> may (y_state c) Tick) (client_timeout e c)"
proof -
  have b: "client_ok (c\<lparr>y_state := RENEWING, y_listen_mode := LISTEN_KERNEL\<rparr>)"
    using assms(1) by (simp add: client_ok_def mode_of_def)
  note t = timeout_selecting_ends[OF assms] timeout_requesting_ends[OF assms] timeout_renewing_ends[OF assms]
    timeout_renewing_ends[OF b assms(2)] timeout_rebinding_ends[OF assms]
  have "client_ok (c\<lparr>y_timeout := k\<rparr>)" for k using assms(1) by (simp add: client_ok_def)
  with t show ?thesis by (cases "y_state c") (simp_all add: client_timeout_def insert_commute)
qed

text \<open>The client holds the address of the message for \<open>lease\<close> seconds from now.\<close>

definition bound_to :: "cenv \<Rightarrow> dhcpMessage \<Rightarrow> u32 \<Rightarrow> client \<Rightarrow> bool" where
  "bound_to e p lease c \<longleftrightarrow> y_state c = BOUND \<and> y_requested_ip c = m_yiaddr p \<and> y_lease c = lease \<and>
     y_t1 c = lease div 2 \<and> y_t2 c = drop_bit 3 (lease * 7) \<and> y_start c = u_uptime e \<and>
     y_timeout c = lease div 2 + u_uptime e"

definition ack_lease :: "dhcpMessage \<Rightarrow> u32" where
  "ack_lease p = (case option_u32 p DHCP_LEASE_TIME of Some (Some x) \<Rightarrow> x | _ \<Rightarrow> 3600)"

lemma bound_to_frame [simp]:
  "bound_to e p l (c\<lparr>y_oldStatus := k, y_out := os\<rparr>) = bound_to e p l c"
  "bound_to e p l (c\<lparr>y_config := f, y_out := os\<rparr>) = bound_to e p l c"
  "bound_to e p l (c\<lparr>y_iSerial := s, y_pre_server_addr := cur, y_out := os\<rparr>) = bound_to e p l c"
  by (simp_all add: bound_to_def)

lemma receive_ack_ends:
  assumes "client_ok c" "cenv_ok e" "wf_message p"
  shows "cends (\<lambda>c'. bound_to e p (ack_lease p) c' \<and> y_server_addr c' = y_server_addr c \<and> y_xid c' = y_xid c) (receive_ack e p c)"
proof -
  obtain l where l: "option_u32 p DHCP_LEASE_TIME = Some l" using option_u32_total[OF assms(3)] by blast
  let ?l = "case l of None \<Rightarrow> 3600 | Some x \<Rightarrow> x"
  have al: "ack_lease p = ?l" by (simp add: ack_lease_def l split: option.split)
  define c2 where "c2 = cscript e (Some p) (if y_state c \<in> {RENEWING, REBINDING} then ''renew'' else ''bound'')
      (c\<lparr>y_lease := ?l, y_t1 := ?l div 2, y_t2 := drop_bit 3 (?l * 7), y_start := u_uptime e,
         y_timeout := ?l div 2 + u_uptime e, y_requested_ip := m_yiaddr p\<rparr>)"
  have sp: "length (y_session_path c2) < 64" "length (y_gGwIp c2) = 16"
    using assms(1) by (simp_all add: c2_def cscript_def client_ok_def)
  have "routes_ok (u_routes e)" using assms(2) by (simp add: cenv_ok_def)
  from run_staticRoute_total[OF this sp(1), of "y_gGwIp c2"] sp(2) obtain es gws where
    r: "run_staticRoute (u_routes e) (y_session_path c2) (y_gGwIp c2) = Some (es, gws)" "length gws = 16" by auto
  define c3 where "c3 = cemit (c2\<lparr>y_gGwIp := gws, y_state := BOUND, y_listen_mode := LISTEN_KERNEL\<rparr>) es"
  have ok3: "client_ok c3" "bound_to e p (ack_lease p) c3" "y_server_addr c3 = y_server_addr c" "y_xid c3 = y_xid c"
    using assms(1) r(2) by (simp_all add: c3_def c2_def cscript_def cemit_def client_ok_def mode_of_def bound_to_def al)
  from Automatic_ACL_DHCP_total[OF ok3(1) assms(2)] obtain k cur es3 where
    a: "Automatic_ACL_DHCP e c3 = Some (c3\<lparr>y_iSerial := k, y_pre_server_addr := cur, y_out := y_out c3 @ es3\<rparr>)"
    "length cur = 16" by blast
  let ?c4 = "c3\<lparr>y_iSerial := k, y_pre_server_addr := cur, y_out := y_out c3 @ es3\<rparr>"
  have ok4: "client_ok ?c4" using ok3(1) a(2) by (simp add: client_ok_def)
  from setStatus_total[OF ok4, of 1 e] obtain es4 where
    s: "setStatus e 1 ?c4 = Some (?c4\<lparr>y_oldStatus := 1, y_out := y_out ?c4 @ es4\<rparr>)" by auto
  let ?c5 = "?c4\<lparr>y_oldStatus := 1, y_out := y_out ?c4 @ es4\<rparr>"
  have "client_ok ?c5" using ok4 by (simp add: client_ok_def)
  from background_ends[OF this assms(2)] have
    "cends (\<lambda>c'. bound_to e p (ack_lease p) c' \<and> y_server_addr c' = y_server_addr c \<and> y_xid c' = y_xid c) (background e ?c5)"
    by (rule cends_mono) (use ok3 in \<open>auto simp: bound_to_def\<close>)
  then show ?thesis
    unfolding receive_ack_def l bind.simps Let_def c2_def[symmetric] r(1) prod.case c3_def[symmetric] a(1) s .
qed

lemma receive_nak_total:
  assumes "client_ok c" "y_state c \<in> {REQUESTING, RENEWING, REBINDING, RENEW_REQUESTED}"
  shows "\<exists>c'. receive_nak e c = Some c' \<and> client_ok c' \<and> y_state c' = INIT_SELECTING \<and> y_requested_ip c' = 0"
proof -
  define c1 where "c1 = (if y_state c \<noteq> REQUESTING then cscript e None ''deconfig'' c else c)\<lparr>y_state := INIT_SELECTING,
      y_timeout := u_uptime e, y_requested_ip := 0, y_packet_num := 0, y_listen_mode := LISTEN_RAW\<rparr>"
  have ok: "client_ok c1" using assms(1) by (simp add: c1_def cscript_def cemit_def client_ok_def mode_of_def)
  from setStatus_total[OF this, of 0 e] obtain es where
    s: "setStatus e 0 c1 = Some (c1\<lparr>y_oldStatus := 0, y_out := y_out c1 @ es\<rparr>)" by auto
  have "length (''echo 4 > /proc/var/fyi/wan/'' @ y_session_path c @ ''/status'') < 128"
    using assms(1) by (simp add: client_ok_def)
  from sys_fits[OF this] show ?thesis
    unfolding receive_nak_def Let_def c1_def[symmetric] s bind.simps
    using ok by (simp add: cemit_def) (simp add: c1_def client_ok_def)
qed

text \<open>
  The client takes \<open>rr\<close> for the message \<open>p\<close> of type \<open>t\<close>, and reacts to it: the state changes
  as allowed, and a client that becomes bound or starts requesting takes the data of \<open>p\<close>.
\<close>

definition heard :: "u8 list option \<Rightarrow> client \<Rightarrow> dhcpMessage \<Rightarrow> u8 \<Rightarrow> bool" where
  "heard rr c p t \<longleftrightarrow> (\<exists>n q.
     (if y_listen_mode c = LISTEN_KERNEL then get_packet rr else get_raw_packet rr (y_packet c)) = Some (p, n) \<and>
     0 \<le> n \<and> m_xid p = y_xid c \<and> get_option p DHCP_MESSAGE_TYPE = Some (Some q) \<and> rd (message_image p) q = Some t)"

definition reacts :: "cenv \<Rightarrow> client \<Rightarrow> dhcpMessage \<Rightarrow> u8 \<Rightarrow> client \<Rightarrow> bool" where
  "reacts e c p t c' \<longleftrightarrow> y_state c' \<in> may (y_state c) (Message t) \<and>
     (y_state c \<noteq> BOUND \<and> y_state c' = BOUND \<longrightarrow> t = DHCPACK \<and> bound_to e p (ack_lease p) c') \<and>
     (y_state c = INIT_SELECTING \<and> y_state c' = REQUESTING \<longrightarrow> t = DHCPOFFER \<and> y_requested_ip c' = m_yiaddr p \<and>
        option_u32 p DHCP_SERVER_ID = Some (Some (y_server_addr c')))"

lemma reacts_state: "y_state c1 = y_state c \<Longrightarrow> reacts e c1 p t c' = reacts e c p t c'"
  by (simp only: reacts_def)

lemma renew_requested_ok:
  "client_ok c \<Longrightarrow> client_ok (renew_requested c) \<and> y_state (renew_requested c) \<in> may (y_state c) Renew"
  by (cases "y_state c") (simp_all add: renew_requested_def Let_def client_ok_def mode_of_def)

lemma receive_offer_ends:
  assumes "client_ok c" "wf_message p" "y_state c = INIT_SELECTING"
  shows "cends (reacts e c p DHCPOFFER) (map_option CRunning (receive_offer e p c))"
proof -
  obtain s where s: "option_u32 p DHCP_SERVER_ID = Some s" using option_u32_total[OF assms(2)] by blast
  show ?thesis unfolding receive_offer_def s bind.simps using assms(1,3) s
    by (cases s) (simp_all add: reacts_def client_ok_def mode_of_def)
qed

lemma client_dispatch_ends:
  assumes "client_ok c" "cenv_ok e" "wf_message p"
  shows "cends (reacts e c p t) (client_dispatch e p t c)"
proof -
  have ack: "cends (reacts e c p t) (receive_ack e p c)"
    if "t = DHCPACK" "y_state c \<in> {REQUESTING, RENEWING, REBINDING, RENEW_REQUESTED}"
    using receive_ack_ends[OF assms] that by (elim cends_mono) (auto simp: reacts_def bound_to_def)
  have nak: "cends (reacts e c p t) (map_option CRunning (receive_nak e c))"
    if "t = DHCPNAK" "y_state c \<in> {REQUESTING, RENEWING, REBINDING, RENEW_REQUESTED}"
    using receive_nak_total[OF assms(1) that(2), of e] that by (auto simp: reacts_def)
  have stay: "reacts e c p t c" if "c = c" "y_state c \<in> may (y_state c) (Message t)"
    using that by (auto simp: reacts_def)
  show ?thesis
  proof (cases "y_state c")
    case INIT_SELECTING
    then show ?thesis using receive_offer_ends[OF assms(1,3) INIT_SELECTING, of e] stay assms(1)
      by (simp add: client_dispatch_def)
  next
    case BOUND
    then show ?thesis using renew_requested_ok[OF assms(1)] assms(1) by (simp add: client_dispatch_def reacts_def)
  qed (use ack nak stay assms(1) in \<open>simp_all add: client_dispatch_def\<close>)
qed

lemma client_receive_ends:
  assumes "client_ok c" "cenv_ok e"
  shows "cends (\<lambda>c'. (\<exists>p. c' = c\<lparr>y_packet := p\<rparr>) \<or> (\<exists>p t. heard rr c p t \<and> reacts e c p t c')) (client_receive e rr c)"
proof -
  let ?r = "if y_listen_mode c = LISTEN_KERNEL then get_packet rr else get_raw_packet rr (y_packet c)"
  have "wf_message (y_packet c)" using assms(1) by (simp add: client_ok_def)
  from get_raw_packet_total[OF this, of rr] get_packet_wf[of rr] obtain p n where
    r: "?r = Some (p, n)" "wf_message p" by (cases "y_listen_mode c = LISTEN_KERNEL") auto
  let ?c0 = "c\<lparr>y_packet := p\<rparr>"
  have ok: "client_ok ?c0" using assms(1) r(2) by (simp add: client_ok_def)
  obtain g where g: "get_option p DHCP_MESSAGE_TYPE = Some g" using get_option_some[OF r(2)] by auto
  show ?thesis
  proof (cases "n < 0 \<or> m_xid p \<noteq> y_xid c")
    case True
    then show ?thesis unfolding client_receive_def r(1) bind.simps prod.case Let_def using ok by auto
  next
    case False
    note F = client_receive_def r(1) bind.simps prod.case Let_def g
    show ?thesis
    proof (cases g)
      case None
      then show ?thesis unfolding F using ok False by auto
    next
      case (Some q)
      from get_option_in[OF r(2) g[unfolded Some]] have "q < length (message_image p)"
        by (auto simp: option_at_def option_area_def length_message_image[OF r(2)])
      then obtain t where t: "rd (message_image p) q = Some t" by (simp add: rd_def)
      have h: "heard rr c p t" unfolding heard_def r(1) using False g Some t by auto
      from client_dispatch_ends[OF ok assms(2) r(2), of t] have
        "cends (\<lambda>c'. (\<exists>p. c' = c\<lparr>y_packet := p\<rparr>) \<or> (\<exists>p t. heard rr c p t \<and> reacts e c p t c')) (client_dispatch e p t ?c0)"
        by (rule cends_mono) (use h reacts_state[of ?c0 c] in auto)
      then show ?thesis unfolding F Some option.case t using False by simp
    qed
  qed
qed

text \<open>One iteration: the timer, a message, or nothing.\<close>

definition turn_allows :: "cturn \<Rightarrow> client \<Rightarrow> client \<Rightarrow> bool" where
  "turn_allows x c c' \<longleftrightarrow> y_state c' = y_state c \<or>
     (\<not> 0 < sint (y_timeout c - f_before x) \<or> f_select x = Timeout) \<and> y_state c' \<in> may (y_state c) Tick \<or>
     (\<exists>rr p t. f_select x = Readable rr \<and> heard rr c p t \<and> reacts (f_env x) c p t c')"

lemma udhcpc_turn_ends:
  assumes "client_ok c" "cenv_ok (f_env x)"
  shows "cends (turn_allows x c) (udhcpc_turn x c)"
proof -
  define mode where "mode = y_listen_mode c"
  define reopen where "reopen \<longleftrightarrow> y_old_mode c \<noteq> mode \<or> y_fd c = - 1"
  define c1 where "c1 = (if reopen then c\<lparr>y_old_mode := mode, y_fd := open_socket (f_sock x) mode\<rparr> else c)"
  have ok: "client_ok c1" using assms(1) by (simp add: c1_def client_ok_def)
  have st: "y_state c1 = y_state c" by (simp add: c1_def)
  have same: "y_state c1 = y_state c" "y_timeout c1 = y_timeout c" "heard rr c1 p t = heard rr c p t"
    "reacts (f_env x) c1 p t c' = reacts (f_env x) c p t c'" for rr p t c'
    by (rule st) (simp_all add: c1_def heard_def reacts_state[OF st[unfolded c1_def]])
  have tick: "cends (turn_allows x c) (client_timeout (f_env x) c1)"
    if "\<not> 0 < sint (y_timeout c - f_before x) \<or> f_select x = Timeout"
    using client_timeout_ends[OF ok assms(2)] that by (elim cends_mono) (simp add: turn_allows_def same)
  have msg: "cends (turn_allows x c) (client_receive (f_env x) rr c1)" if "f_select x = Readable rr" for rr
    using client_receive_ends[OF ok assms(2), of rr] that
    by (elim cends_mono) (auto simp: turn_allows_def same)
  have quiet: "cends (turn_allows x c) (Some (CRunning c1))" using ok by (simp add: turn_allows_def same)
  show ?thesis
    unfolding udhcpc_turn_def Let_def mode_def[symmetric] reopen_def[symmetric] c1_def[symmetric] same
    using tick msg quiet by (auto split: selected.split)
qed

lemma release_requested_total:
  assumes "client_ok c" "cenv_ok e"
  shows "\<exists>c'. release_requested e c = Some c' \<and> client_ok c' \<and> y_state c' = RELEASED"
proof (cases "y_state c \<in> {BOUND, RENEWING, REBINDING}")
  case True
  obtain x c0 where r: "random_xid e c = (x, c0)" by fastforce
  from random_xid_ok[OF this] obtain k where c0: "c0 = c\<lparr>y_rng := k, y_seeded := True\<rparr>" by blast
  have ok: "client_ok c0" using assms(1) by (simp add: c0 client_ok_def)
  from release.sending[OF ok assms(2)] obtain es where
    d: "csend (send_release (u_world e) (y_vendor_class_id c0) (y_config c0) x (y_server_addr c0) (y_requested_ip c0)) c0 =
      Some (c0\<lparr>y_config := y_config c0\<lparr>q_clientid := client_id (u_world e)\<rparr>, y_out := y_out c0 @ es\<rparr>)" by blast
  show ?thesis unfolding release_requested_def r prod.case Let_def d bind.simps if_P[OF True] cscript_def cemit_def
    using ok by (simp add: client_ok_def mode_of_def)
next
  case False
  show ?thesis unfolding release_requested_def if_not_P[OF False] using assms(1) by (simp add: client_ok_def mode_of_def)
qed

definition signal_event :: "csignal \<Rightarrow> cevent" where
  "signal_event s = (case s of CSIGUSR1 \<Rightarrow> Renew | CSIGUSR2 \<Rightarrow> Release | CSIGTERM \<Rightarrow> Nothing)"

lemma udhcpc_signal_ends:
  assumes "client_ok c" "cenv_ok e"
  shows "cends (\<lambda>c'. y_state c' \<in> may (y_state c) (signal_event s)) (udhcpc_signal e s c)"
  using renew_requested_ok[OF assms(1)] release_requested_total[OF assms]
  by (cases s) (auto simp: udhcpc_signal_def signal_event_def terminate_def)

lemma csteps_ok: "csteps c0 c \<Longrightarrow> client_ok c0 \<Longrightarrow> client_ok c"
proof (induction rule: csteps.induct)
  case (turn c x c')
  then show ?case using udhcpc_turn_ends[of c x] by simp
next
  case (signal c e s c')
  then show ?case using udhcpc_signal_ends[of c e s] by simp
qed simp

section \<open>Start-up reaches the loop\<close>

text \<open>
  Short interface names, a class identifier that fits its buffer, a hardware address of six
  bytes, and no stored access-list flag of exactly one character.
\<close>

definition arg_ok :: "char \<times> string \<Rightarrow> bool" where
  "arg_ok a \<longleftrightarrow> (fst a = CHR ''i'' \<longrightarrow> length (snd a) < 16) \<and> (fst a = CHR ''I'' \<longrightarrow> length (snd a) < 64)"

definition cboot_ok :: "cboot \<Rightarrow> bool" where
  "cboot_ok b \<longleftrightarrow> list_all arg_ok (j_args b) \<and> (\<forall>l. j_class b = Some l \<longrightarrow> length l < 64) \<and>
     (\<forall>hw. i_hwaddr (j_if b) = Some hw \<longrightarrow> 6 \<le> length hw) \<and> wf_message (j_packet b) \<and> cenv_ok (j_env b) \<and>
     (\<forall>m. Some m \<in> set (u_answers (j_env b)) \<longrightarrow> length (t_value m) \<noteq> 1)"

lemma wf_option_block: "code \<notin> {DHCP_PADDING, DHCP_END} \<Longrightarrow> wf_block (option_block code arg)"
proof -
  assume c: "code \<notin> {DHCP_PADDING, DHCP_END}"
  have "unat (of_nat (min 255 (length arg)) :: u8) = min 255 (length arg)" by (intro unat_of_nat_u8_small) simp
  with c show ?thesis
    by (simp add: option_block_def wf_block_def Let_def bytes_of_def del: unat_of_nat of_nat_min)
qed

lemma start_client_ok: "wf_message (j_packet b) \<Longrightarrow> client_ok (start_client b)"
  by (simp add: start_client_def client_ok_def default_client_config_def mode_of_def)

lemma init_acl_ok:
  assumes "client_ok c" "\<forall>m. Some m \<in> set (u_answers e) \<longrightarrow> length (t_value m) \<noteq> 1"
  shows "\<exists>c'. init_acl e c = Some c' \<and> client_ok c' \<and> y_state c' = y_state c"
proof -
  obtain buf r k where "tmpfile_getvalue (u_script e) (u_answers e) (y_iSerial c) ''acl_dhcp'' [48] 1 = Some (buf, r, k)"
    using tmpfile_getvalue_total[of "u_answers e" "[48]" "u_script e" "y_iSerial c" "''acl_dhcp''"] assms(2) by auto
  then show ?thesis using assms(1) by (simp add: init_acl_def Let_def cemit_def client_ok_def)
qed

lemma client_arg_ok:
  assumes "client_ok c" "arg_ok a" "\<forall>l. cls = Some l \<longrightarrow> length l < 64"
  shows "\<exists>r. client_arg cls a (c, surge) = Some r \<and>
    (\<forall>c' s'. r = Inr (c', s') \<longrightarrow> client_ok c' \<and> y_state c' = y_state c)"
proof -
  obtain opt optarg where a: "a = (opt, optarg)" by (cases a)
  have w: "wf_block (option_block DHCP_HOST_NAME optarg)" by (rule wf_option_block) simp
  note ok = assms(1)[unfolded client_ok_def]
  consider "opt \<in> {CHR ''i'', CHR ''I''}" | "opt = CHR ''d''" | "opt \<notin> {CHR ''i'', CHR ''I'', CHR ''d''}" by blast
  then show ?thesis
  proof cases
    case 1
    then have "\<not> 64 \<le> length optarg" "opt = CHR ''i'' \<Longrightarrow> length optarg < 16" using assms(2) by (auto simp: arg_ok_def a)
    with 1 ok show ?thesis unfolding client_arg_def a Let_def prod.case by (auto simp: client_ok_def)
  next
    case 2
    then show ?thesis unfolding client_arg_def a Let_def prod.case
      using ok assms(3) by (cases cls) (simp_all add: client_ok_def bytes_of_def)
  next
    case 3
    then show ?thesis unfolding client_arg_def a Let_def prod.case using ok w by (simp add: client_ok_def)
  qed
qed

lemma client_args_ok:
  assumes "client_ok c" "list_all arg_ok as" "\<forall>l. cls = Some l \<longrightarrow> length l < 64"
  shows "\<exists>r. client_args cls as (c, surge) = Some r \<and> (\<forall>c' s'. r = Inr (c', s') \<longrightarrow> client_ok c' \<and> y_state c' = y_state c)"
  using assms(1,2)
proof (induction as arbitrary: c surge)
  case (Cons a as)
  then obtain r where r: "client_arg cls a (c, surge) = Some r"
    "\<forall>c' s'. r = Inr (c', s') \<longrightarrow> client_ok c' \<and> y_state c' = y_state c"
    using client_arg_ok[OF _ _ assms(3), of c a surge] by auto
  show ?case
  proof (cases r)
    case (Inr x)
    obtain c1 s1 where x: "x = (c1, s1)" by (cases x)
    with r(2) Inr have "client_ok c1" "y_state c1 = y_state c" by auto
    with Cons.IH[of c1 s1] Cons.prems(2) r(1) Inr x show ?thesis by simp
  qed (use r(1) in simp)
qed simp

lemma init_interface_ends:
  assumes "client_ok c" "y_state c = INIT_SELECTING" "\<forall>hw. i_hwaddr (j_if b) = Some hw \<longrightarrow> 6 \<le> length hw"
  shows "cends (\<lambda>c'. y_state c' = INIT_SELECTING) (init_interface_client b surge c)"
proof (cases "i_socket (j_if b) \<and> i_index (j_if b) \<noteq> None \<and> i_hwaddr (j_if b) \<noteq> None")
  case True
  then obtain idx hw where i: "i_index (j_if b) = Some idx" "i_hwaddr (j_if b) = Some hw" by auto
  then have r: "rdn hw 0 6 = Some (take 6 hw)" using assms(3) by (simp add: rdn_def slice_def)
  have nm: "\<not> 16 \<le> length (q_interface (y_config c))" using assms(1) by (simp add: client_ok_def)
  define c1 where "c1 = c\<lparr>y_config := y_config c\<lparr>q_ifindex := idx, q_arp := take 6 hw\<rparr>\<rparr>"
  define c2 where "c2 = (if surge then (let (r, s) = u_rand (j_env b) (u_srand (j_env b) (mac_seed (take 6 hw) 3)) in
      c1\<lparr>y_rng := s, y_timeout := of_nat (r mod 7200) + u_uptime (j_env b)\<rparr>) else c1)\<lparr>y_state := INIT_SELECTING\<rparr>"
  have ok: "client_ok c2" "y_state c2 = INIT_SELECTING"
    using assms i by (auto simp: c2_def c1_def client_ok_def Let_def split: prod.split)
  from setStatus_total[OF ok(1), of 0 "j_env b"] obtain es where
    "setStatus (j_env b) 0 c2 = Some (c2\<lparr>y_oldStatus := 0, y_out := y_out c2 @ es\<rparr>)" by auto
  then show ?thesis
    using True nm ok unfolding init_interface_client_def Let_def i option.case r bind.simps
      c1_def[symmetric] c2_def[symmetric, unfolded Let_def] by simp
next
  case False
  then show ?thesis using assms(1)
    by (auto simp: init_interface_client_def Let_def client_ok_def split: option.splits)
qed

lemma udhcpc_init_ends:
  assumes "cboot_ok b"
  shows "cends (\<lambda>c'. y_state c' = INIT_SELECTING) (udhcpc_init b)"
proof -
  note B = assms[unfolded cboot_ok_def]
  from init_acl_ok[OF start_client_ok] B obtain c0 where c0: "init_acl (j_env b) (start_client b) = Some c0" "client_ok c0"
    "y_state c0 = INIT_SELECTING" by (force simp: start_client_def)
  from client_args_ok[OF c0(2)] B obtain r where r: "client_args (j_class b) (j_args b) (c0, False) = Some r"
    "\<forall>c' s'. r = Inr (c', s') \<longrightarrow> client_ok c' \<and> y_state c' = y_state c0" by blast
  show ?thesis
  proof (cases r)
    case (Inl n)
    then show ?thesis unfolding udhcpc_init_def Let_def c0 bind.simps r by (simp add: cends_def)
  next
    case (Inr x)
    obtain c1 surge where x: "x = (c1, surge)" by (cases x)
    with Inr r(2) c0(3) have ok: "client_ok c1" "y_state c1 = INIT_SELECTING" by auto
    have l: "length (y_session_path c1) < 64" using ok(1) by (simp add: client_ok_def)
    then have "\<exists>c2. (if y_session_path c1 = [] then Some c1
        else do {
          st \<leftarrow> sprintf 128 ((WAN_DIR @ ''/'' @ y_session_path c1) @ ''/daemonstatus'');
          pd \<leftarrow> sprintf 128 ((WAN_DIR @ ''/'' @ y_session_path c1) @ ''/pid'');
          Some (c1\<lparr>y_status_path := st, y_pid_path := pd\<rparr>) }) = Some c2 \<and> client_ok c2 \<and> y_state c2 = INIT_SELECTING"
      using ok by (simp add: client_ok_def)
    then obtain c2 where c2: "(if y_session_path c1 = [] then Some c1
        else do {
          st \<leftarrow> sprintf 128 ((WAN_DIR @ ''/'' @ y_session_path c1) @ ''/daemonstatus'');
          pd \<leftarrow> sprintf 128 ((WAN_DIR @ ''/'' @ y_session_path c1) @ ''/pid'');
          Some (c1\<lparr>y_status_path := st, y_pid_path := pd\<rparr>) }) = Some c2" "client_ok c2" "y_state c2 = INIT_SELECTING" by blast
    from init_interface_ends[of "cemit c2 xs" b surge for xs] c2(2,3) B show ?thesis
      unfolding udhcpc_init_def Let_def c0 bind.simps r(1) Inr x sum.case prod.case c2(1) by simp
  qed
qed

section \<open>The timers of a lease\<close>

text \<open>
  A client with a lease of \<open>L\<close> seconds since the uptime \<open>s\<close>: the next timer is at T1, while it
  asks its server, or at T2, while it asks any server.
\<close>

definition lease_timer :: "nat \<Rightarrow> nat \<Rightarrow> client \<Rightarrow> bool" where
  "lease_timer s L c \<longleftrightarrow> unat (y_start c) = s \<and> unat (y_lease c) = L \<and> y_t1 c \<le> y_t2 c \<and> y_t2 c \<le> y_lease c \<and>
     s + L < 2 ^ 32 \<and>
     (y_state c \<in> {BOUND, RENEWING} \<and> unat (y_timeout c) = s + unat (y_t1 c) \<or>
      y_state c = REBINDING \<and> unat (y_timeout c) = s + unat (y_t2 c))"

definition timer_measure :: "client \<Rightarrow> nat" where
  "timer_measure c = (if y_state c = REBINDING then unat (y_lease c) - unat (y_t2 c)
     else unat (y_lease c) + 1 + (unat (y_t2 c) - unat (y_t1 c)))"

text \<open>The client gave the address up, not after the end of the lease and at most a 14400th of it and one second before.\<close>

definition given_up :: "nat \<Rightarrow> nat \<Rightarrow> client \<Rightarrow> bool" where
  "given_up s L c \<longleftrightarrow> y_state c = INIT_SELECTING \<and> unat (y_timeout c) \<le> s + L \<and>
     s + L \<le> unat (y_timeout c) + (L div 14400 + 1)"

lemma unat_plus: "unat (a :: u32) + unat b < 2 ^ 32 \<Longrightarrow> unat (a + b) = unat a + unat b"
  by (simp add: unat_word_ariths)

lemma half_way:
  fixes a b :: u32
  assumes "a \<le> b" "1 < unat b - unat a"
  shows "unat ((b - a) div 2 + a) = (unat b - unat a) div 2 + unat a" "(b - a) div 2 + a \<le> b"
    "unat b - unat ((b - a) div 2 + a) < unat b - unat a"
proof -
  have l: "unat b < 2 ^ 32" using unat_u32[of b] by simp
  have d: "unat (b - a) = unat b - unat a" using assms(1) by (rule unat_sub)
  show e: "unat ((b - a) div 2 + a) = (unat b - unat a) div 2 + unat a"
    using l assms by (subst unat_plus) (simp_all add: unat_div d word_le_nat_alt)
  show "(b - a) div 2 + a \<le> b" unfolding word_le_nat_alt e using assms by (simp add: word_le_nat_alt)
  show "unat b - unat ((b - a) div 2 + a) < unat b - unat a" unfolding e using assms by (simp add: word_le_nat_alt)
qed

lemma short_time:
  fixes l :: u32
  assumes "a \<le> b"
  shows "b - a \<le> l div 14400 + 1 \<longleftrightarrow> unat b - unat a \<le> unat l div 14400 + 1"
proof -
  have "unat l div 14400 < 300000" using unat_u32[of l] by (simp add: less_mult_imp_div_less)
  then have "unat (l div 14400 + 1) = unat l div 14400 + 1" by (subst unat_plus) (simp_all add: unat_div)
  with assms show ?thesis by (simp add: word_le_nat_alt unat_sub)
qed

lemma timeout_renewing_timer:
  assumes "client_ok c" "cenv_ok e" "lease_timer s L c" "y_state c = RENEWING" "u_uptime e = y_timeout c"
  shows "\<exists>c'. timeout_renewing e c = Some (CRunning c') \<and> client_ok c' \<and> lease_timer s L c' \<and> timer_measure c' < timer_measure c"
proof -
  note T = assms(3)[unfolded lease_timer_def]
  have le: "y_t1 c \<le> y_t2 c" "unat (y_t1 c) \<le> unat (y_t2 c)" "unat (y_t2 c) \<le> L" "unat (y_timeout c) = s + unat (y_t1 c)"
    using T assms(4) by (auto simp: word_le_nat_alt)
  show ?thesis
  proof (cases "y_t2 c - y_t1 c \<le> y_lease c div 14400 + 1")
    case True
    have "unat (y_t2 c - y_t1 c) = unat (y_t2 c) - unat (y_t1 c)" using le(1) by (rule unat_sub)
    then have "unat (u_uptime e + (y_t2 c - y_t1 c)) = s + unat (y_t2 c)"
      using le T by (subst unat_plus) (simp_all add: assms(5))
    then show ?thesis unfolding timeout_renewing_def if_P[OF True]
      using T assms(1,4) by (auto simp: lease_timer_def timer_measure_def client_ok_def mode_of_def)
  next
    case False
    then have "1 < unat (y_t2 c) - unat (y_t1 c)" using short_time[OF le(1), of "y_lease c"] by simp
    define t where "t = (y_t2 c - y_t1 c) div 2 + y_t1 c"
    have h: "t \<le> y_t2 c" "unat (y_t2 c) - unat t < unat (y_t2 c) - unat (y_t1 c)"
      unfolding t_def using half_way[OF le(1) \<open>1 < _\<close>] by simp_all
    have "unat (t + y_start c) = s + unat t" using T h(1) le by (subst unat_plus) (auto simp: word_le_nat_alt)
    moreover obtain es where d: "csend (send_renew (u_world e) (y_vendor_class_id c) (y_config c) (y_xid c) (y_server_addr c) (y_requested_ip c)) c =
        Some (c\<lparr>y_config := y_config c\<lparr>q_clientid := client_id (u_world e)\<rparr>, y_out := y_out c @ es\<rparr>)"
      using renew.sending[OF assms(1,2)] by blast
    ultimately show ?thesis unfolding timeout_renewing_def if_not_P[OF False] d bind.simps Let_def t_def[symmetric]
      using T h assms(1,4) by (auto simp: lease_timer_def timer_measure_def client_ok_def mode_of_def)
  qed
qed

lemma timeout_rebinding_timer:
  assumes "client_ok c" "cenv_ok e" "lease_timer s L c" "y_state c = REBINDING" "u_uptime e = y_timeout c"
  shows "\<exists>c'. timeout_rebinding e c = Some (CRunning c') \<and> client_ok c' \<and>
    (lease_timer s L c' \<and> timer_measure c' < timer_measure c \<or> given_up s L c')"
proof -
  note T = assms(3)[unfolded lease_timer_def]
  have le: "y_t2 c \<le> y_lease c" "unat (y_t2 c) \<le> L" "unat (y_lease c) = L" "unat (y_timeout c) = s + unat (y_t2 c)"
    using T assms(4) by (auto simp: word_le_nat_alt)
  note short = short_time[OF le(1), of "y_lease c"]
  show ?thesis
  proof (cases "y_lease c - y_t2 c \<le> y_lease c div 14400 + 1")
    case True
    obtain k es where l: "link_local e c = Some (c\<lparr>y_rng := k, y_out := y_out c @ es\<rparr>)"
      using link_local_total[OF assms(1)] by blast
    have "L - unat (y_t2 c) \<le> L div 14400 + 1" using True short le(3) by simp
    then show ?thesis unfolding timeout_rebinding_def if_P[OF True] l bind.simps cscript_def cemit_def
      using T le assms(1,4,5) by (auto simp: given_up_def client_ok_def mode_of_def)
  next
    case False
    then have "1 < unat (y_lease c) - unat (y_t2 c)" using short by simp
    define t where "t = (y_lease c - y_t2 c) div 2 + y_t2 c"
    have h: "y_t2 c \<le> t" "t \<le> y_lease c" "unat (y_lease c) - unat t < unat (y_lease c) - unat (y_t2 c)"
      unfolding t_def using half_way[OF le(1) \<open>1 < _\<close>] by (simp_all add: word_le_nat_alt)
    have "unat (t + y_start c) = s + unat t" using T h(2) by (subst unat_plus) (auto simp: word_le_nat_alt)
    moreover obtain es where d: "csend (send_renew (u_world e) (y_vendor_class_id c) (y_config c) (y_xid c) 0 (y_requested_ip c)) c =
        Some (c\<lparr>y_config := y_config c\<lparr>q_clientid := client_id (u_world e)\<rparr>, y_out := y_out c @ es\<rparr>)"
      using renew.sending[OF assms(1,2)] by blast
    moreover have "y_t1 c \<le> t" using T h(1) by (meson order_trans)
    ultimately show ?thesis unfolding timeout_rebinding_def if_not_P[OF False] d bind.simps Let_def t_def[symmetric]
      using T h assms(1,4) by (auto simp: lease_timer_def timer_measure_def client_ok_def mode_of_def)
  qed
qed

text \<open>The loop turns exactly when the timer is due, nothing is received, and sockets can be opened.\<close>

definition at_deadline :: "(u32 \<Rightarrow> cturn) \<Rightarrow> bool" where
  "at_deadline X \<longleftrightarrow> (\<forall>t. f_before (X t) = t \<and> u_uptime (f_env (X t)) = t \<and> cenv_ok (f_env (X t)) \<and>
     0 \<le> open_socket (f_sock (X t)) LISTEN_KERNEL)"

inductive silence :: "(u32 \<Rightarrow> cturn) \<Rightarrow> client \<Rightarrow> client \<Rightarrow> bool" for X where
  quiet: "silence X c c"
| expire: "udhcpc_turn (X (y_timeout c)) c = Some (CRunning c') \<Longrightarrow> silence X c' c'' \<Longrightarrow> silence X c c''"

lemma turn_at_deadline:
  assumes "at_deadline X" "y_listen_mode c = LISTEN_KERNEL"
  shows "\<exists>m fd. udhcpc_turn (X (y_timeout c)) c = client_timeout (f_env (X (y_timeout c))) (c\<lparr>y_old_mode := m, y_fd := fd\<rparr>)"
proof -
  let ?x = "X (y_timeout c)"
  have x: "f_before ?x = y_timeout c" "0 \<le> open_socket (f_sock ?x) LISTEN_KERNEL"
    using assms(1) by (simp_all add: at_deadline_def)
  show ?thesis
  proof (cases "y_old_mode c \<noteq> LISTEN_KERNEL \<or> y_fd c = - 1")
    case True
    then show ?thesis using x assms(2)
      by (intro exI[of _ LISTEN_KERNEL] exI[of _ "open_socket (f_sock ?x) LISTEN_KERNEL"])
        (simp add: udhcpc_turn_def Let_def)
  next
    case False
    then have "udhcpc_turn ?x c = client_timeout (f_env ?x) c" using x assms(2) by (simp add: udhcpc_turn_def Let_def)
    moreover have "c\<lparr>y_old_mode := y_old_mode c, y_fd := y_fd c\<rparr> = c" by simp
    ultimately show ?thesis by metis
  qed
qed

lemma lease_timer_step:
  assumes "client_ok c" "at_deadline X" "lease_timer s L c"
  shows "\<exists>c'. udhcpc_turn (X (y_timeout c)) c = Some (CRunning c') \<and> client_ok c' \<and>
    (lease_timer s L c' \<and> timer_measure c' < timer_measure c \<or> given_up s L c')"
proof -
  let ?e = "f_env (X (y_timeout c))"
  have e: "cenv_ok ?e" "u_uptime ?e = y_timeout c" using assms(2) by (simp_all add: at_deadline_def)
  have st: "y_state c \<in> {BOUND, RENEWING, REBINDING}" using assms(3) by (auto simp: lease_timer_def)
  then have "y_listen_mode c = LISTEN_KERNEL" using assms(1) by (auto simp: client_ok_def mode_of_def)
  from turn_at_deadline[OF assms(2) this] obtain m fd where
    t: "udhcpc_turn (X (y_timeout c)) c = client_timeout ?e (c\<lparr>y_old_mode := m, y_fd := fd\<rparr>)" by blast
  let ?c = "c\<lparr>y_old_mode := m, y_fd := fd\<rparr>"
  show ?thesis
  proof (cases "y_state c = REBINDING")
    case True
    have "client_ok ?c" "lease_timer s L ?c" "timer_measure ?c = timer_measure c" using assms(1,3)
      by (simp_all add: client_ok_def lease_timer_def timer_measure_def)
    with timeout_rebinding_timer[of ?c ?e s L] e True show ?thesis unfolding t by (simp add: client_timeout_def)
  next
    case False
    let ?c2 = "?c\<lparr>y_state := RENEWING, y_listen_mode := LISTEN_KERNEL\<rparr>"
    have c2: "client_ok ?c2" using assms(1) by (simp add: client_ok_def mode_of_def)
    have t2: "lease_timer s L ?c2" "timer_measure ?c2 = timer_measure c"
      using assms(3) False by (simp_all add: lease_timer_def timer_measure_def)
    have "client_timeout ?e ?c = timeout_renewing ?e ?c2"
    proof (cases "y_state c = BOUND")
      case False
      then have "y_state c = RENEWING" using st \<open>y_state c \<noteq> REBINDING\<close> by blast
      moreover from this have "?c2 = ?c" using \<open>y_listen_mode c = _\<close> by (cases c) simp
      ultimately show ?thesis by (simp add: client_timeout_def)
    qed (simp add: client_timeout_def)
    with timeout_renewing_timer[OF c2 e(1) t2(1)] e(2) show ?thesis unfolding t t2(2) by auto
  qed
qed

lemma lease_timer_run:
  assumes "client_ok c" "at_deadline X" "lease_timer s L c"
  shows "\<exists>c'. silence X c c' \<and> given_up s L c'"
  using assms
proof (induction "timer_measure c" arbitrary: c rule: less_induct)
  case less
  from lease_timer_step[OF less.prems] obtain c' where c': "udhcpc_turn (X (y_timeout c)) c = Some (CRunning c')" "client_ok c'"
    "lease_timer s L c' \<and> timer_measure c' < timer_measure c \<or> given_up s L c'" by blast
  from c'(3) show ?case
  proof
    assume "lease_timer s L c' \<and> timer_measure c' < timer_measure c"
    with less.hyps[of c'] c'(1,2) less.prems(2) show ?thesis by (blast intro: silence.expire)
  qed (use c'(1) in \<open>blast intro: silence.expire silence.quiet\<close>)
qed

section \<open>Properties\<close>

definition sample_cenv :: "u32 \<Rightarrow> cenv" where
  "sample_cenv t = \<lparr>u_uptime = t, u_time = 5, u_srand = (\<lambda>n. n), u_rand = (\<lambda>n. (n, n + 1)), u_lrand48 = 0,
     u_world = \<lparr>w_serial = (\<lambda>k. [49, 50]), w_vi_serial = [49, 50], w_mac = [2, 16, 24, 0, 0, 1], w_malloc = True,
       w_sock = \<lparr>e_socket = True, e_bindtodevice = True, e_reuseaddr = True, e_bind = True, e_connect = True, e_result = 300\<rparr>\<rparr>,
     u_script = sample_script_env, u_script_fork = True, u_fork = True, u_pid = 77, u_open = (\<lambda>f. 9), u_fdopen = True,
     u_routes = \<lparr>h_new = None, h_old = None, h_old_writable = True\<rparr>, u_board = True, u_answers = [], u_stack = 0\<rparr>"

lemma sample_cenv_ok [simp]: "cenv_ok (sample_cenv t)"
  by (simp add: cenv_ok_def sample_cenv_def routes_ok_def)

definition sample_boot :: cboot where
  "sample_boot = \<lparr>j_args = [(CHR ''i'', ''nas_0''), (CHR ''p'', ''/var/pid'')], j_class = None,
     j_if = \<lparr>i_socket = True, i_addr = None, i_index = Some 4, i_hwaddr = Some [2, 16, 24, 0, 0, 1]\<rparr>,
     j_packet = zero_message, j_env = sample_cenv 0\<rparr>"

lemma sample_boot_ok: "cboot_ok sample_boot"
  by (simp add: cboot_ok_def sample_boot_def arg_ok_def) (simp add: sample_cenv_def)

definition sample_cturn :: "u32 \<Rightarrow> cturn" where
  "sample_cturn t = \<lparr>f_before = t, f_sock = \<lparr>k_fd = 5, k_reuseaddr = True, k_broadcast = True, k_bindtodevice = True, k_bind = True\<rparr>,
     f_select = Timeout, f_env = sample_cenv t\<rparr>"

text \<open>A client with a lease of 3600 seconds since the uptime 100.\<close>

definition sample_bound :: client where
  "sample_bound = (start_client sample_boot)\<lparr>y_state := BOUND, y_listen_mode := LISTEN_KERNEL, y_lease := 3600, y_t1 := 1800,
     y_t2 := 3150, y_start := 100, y_timeout := 1900, y_server_addr := 0xC0A80101, y_requested_ip := 0xC0A80107\<rparr>"

lemma sample_bound_ok: "client_ok sample_bound"
  using start_client_ok[of sample_boot] sample_boot_ok
  by (simp add: sample_bound_def client_ok_def cboot_ok_def mode_of_def)

lemma sample_boot_runs: "\<exists>c. udhcpc_init sample_boot = Some (CRunning c)"
  by (simp add: udhcpc_init_def init_acl_def tmpfile_getvalue_def start_client_def sample_boot_def sample_cenv_def
     sample_script_env_def client_arg_def sprintf_def Let_def init_interface_client_def setStatus_def sys_def
     rdn_def slice_def WAN_DIR_def cemit_def default_client_config_def dec.simps[of 0])

lemma sample_at_deadline: "at_deadline sample_cturn"
  by (simp add: at_deadline_def sample_cturn_def open_socket_def listen_socket_def) (simp add: sample_cenv_def)

lemma sample_bound_turns: "\<exists>c'. udhcpc_turn (sample_cturn 1900) sample_bound = Some (CRunning c')"
proof -
  have "lease_timer 100 3600 sample_bound" by (simp add: lease_timer_def sample_bound_def)
  moreover have "y_timeout sample_bound = 1900" by (simp add: sample_bound_def)
  ultimately show ?thesis using lease_timer_step[OF sample_bound_ok sample_at_deadline] by force
qed





text \<open>
  C12: a client that got a lease and hears nothing any more gives the address up in time: when
  the loop turns at each timer, after finitely many turns it is back in the initial state, not
  after the end of the lease, and at most a 14400th of the lease and one second before.
\<close>

theorem lease_given_up_in_time:
  assumes "client_ok c" "bound_to e p lease c" "unat lease < 613566757" "unat (u_uptime e) + unat lease < 2 ^ 32"
    "at_deadline X"
  shows "\<exists>c'. silence X c c' \<and> given_up (unat (u_uptime e)) (unat lease) c'"
proof -
  note b = assms(2)[unfolded bound_to_def]
  have m: "unat (lease * 7) = 7 * unat lease" using assms(3) by (simp add: unat_word_ariths)
  have t: "unat (lease div 2) = unat lease div 2" "unat (drop_bit 3 (lease * 7)) = 7 * unat lease div 8"
    using m by (simp_all add: unat_div drop_bit_eq_div)
  have "lease div 2 \<le> drop_bit 3 (lease * 7)" "drop_bit 3 (lease * 7) \<le> lease"
    unfolding word_le_nat_alt t by arith+
  moreover have "unat (lease div 2 + u_uptime e) = unat (u_uptime e) + unat lease div 2"
    using assms(4) t(1) by (subst unat_plus) simp_all
  ultimately have "lease_timer (unat (u_uptime e)) (unat lease) c" using b assms(4) t(1) by (simp add: lease_timer_def)
  from lease_timer_run[OF assms(1,5) this] show ?thesis .
qed

theorem lease_given_up_in_time_witness:
  "\<exists>c'. silence sample_cturn sample_bound c' \<and> given_up 100 3600 c'"
proof -
  have "bound_to (sample_cenv 100) (zero_message\<lparr>m_yiaddr := 0xC0A80107\<rparr>) 3600 sample_bound"
    by (simp add: bound_to_def sample_bound_def sample_cenv_def drop_bit_eq_div)
  moreover have "u_uptime (sample_cenv 100) = 100" by (simp add: sample_cenv_def)
  ultimately show ?thesis
    using lease_given_up_in_time[OF sample_bound_ok, of "sample_cenv 100" "zero_message\<lparr>m_yiaddr := 0xC0A80107\<rparr>" 3600 sample_cturn]
      sample_at_deadline
    by simp
qed

text \<open>
  C40: the flag that tells a client which access list to use is read into a single byte, but
  the stored value is copied with its terminating NUL.  The first client stores the one
  character \<^verbatim>\<open>1\<close>; every client started while that value is stored writes behind the
  variable before it has looked at its arguments.
\<close>

theorem second_client_faults:
  assumes "s_tmpqueue (u_script (j_env b))" "s_tmpsend (u_script (j_env b))"
    "getvalue_loop 0 0 (u_answers (j_env b)) = Some m" "t_result m = 0" "length (t_value m) = 1"
  shows "udhcpc_init b = None"
  using assms by (simp add: udhcpc_init_def init_acl_def tmpfile_getvalue_def start_client_def memcpy_def bytes_of_def)

theorem second_client_faults_witness:
  "fst (tmpfile_writevalue (u_script (j_env sample_boot)) ''acl_dhcp'' ''1'') = [Tmpfile ''acl_dhcp'' ''1''] \<and>
   udhcpc_init (sample_boot\<lparr>j_env := (sample_cenv 0)\<lparr>u_answers := [Some \<lparr>t_serial = 0, t_result = 0, t_value = ''1''\<rparr>]\<rparr>\<rparr>) = None"
  using second_client_faults[of "sample_boot\<lparr>j_env := (sample_cenv 0)\<lparr>u_answers := [Some \<lparr>t_serial = 0, t_result = 0, t_value = ''1''\<rparr>]\<rparr>\<rparr>"
    "\<lparr>t_serial = 0, t_result = 0, t_value = ''1''\<rparr>"]
  by (simp add: sample_boot_def sample_cenv_def sample_script_env_def tmpfile_writevalue_def)

end
