(* ===== verification/Dhcp_Exchange.thy ===== *)
theory Dhcp_Exchange
  imports Dhcp_Client
begin

text \<open>
  The client (\<^verbatim>\<open>dhcpc.c\<close>) and the server (\<^verbatim>\<open>dhcpd.c\<close>) of the same firmware talking to each other:
  what one side sends, the other side decodes.  A frame of the client is handed to the
  server's receive function and a frame of the server to the client's packet socket; the
  lemmas lead to the theorem on the whole exchange in the root theory.
\<close>

section \<open>Options at the front of a field\<close>

text \<open>
  An option in front of everything that could redirect the search is found whatever follows,
  an overload option among the later ones included.
\<close>

lemma get_option_loop_prefix:
  assumes "drop (base + i) img = enc pre @ c # of_nat (length d) # d @ rest" "list_all wf_opt pre"
    "\<forall>x. Opt DHCP_OPTION_OVER x \<notin> set pre" "\<forall>x. Opt c x \<notin> set pre" "c \<notin> {DHCP_PADDING, DHCP_END}" "length d \<le> 255"
    "i + length (enc pre) + 1 + length d < len"
  shows "get_option_loop img c base i len 0 OPTION_FIELD = Some (Some (base + i + length (enc pre) + 2))"
  using assms
proof (induction pre arbitrary: i)
  case Nil
  then have r: "rd img (base + i) = Some c" "rd img (base + i + 1) = Some (of_nat (length d))"
    using rd_drop[of "base + i" img c] rd_drop_Suc[of "base + i" img c "of_nat (length d)"] by auto
  from get_option_loop_hit[OF _ r] Nil.prems(6,7) show ?case by (simp add: unat_opt_len del: unat_of_nat)
next
  case (Cons x pre)
  show ?case
  proof (cases x)
    case Pad
    with Cons.prems(1) have d: "drop (base + i) img = DHCP_PADDING # enc pre @ c # of_nat (length d) # d @ rest" by simp
    then have "drop (base + (i + 1)) img = enc pre @ c # of_nat (length d) # d @ rest"
      using drop_step[of "base + i" img "[DHCP_PADDING]"] by (simp add: add.assoc)
    with Cons.IH[of "i + 1"] get_option_loop_pad[OF _ rd_drop[OF d], of len c 0 OPTION_FIELD] Cons.prems Pad show ?thesis by simp
  next
    case (Opt c' d')
    with Cons.prems(1) have
      d: "drop (base + i) img = c' # of_nat (length d') # d' @ enc pre @ c # of_nat (length d) # d @ rest" by simp
    from Opt Cons.prems(2-4) have wf: "c' \<notin> {c, DHCP_PADDING, DHCP_OPTION_OVER, DHCP_END}" "length d' \<le> 255" by auto
    have r: "rd img (base + i) = Some c'" "rd img (base + i + 1) = Some (of_nat (length d'))"
      using rd_drop[OF d] rd_drop_Suc[OF d] by simp_all
    have "drop (base + (i + length d' + 2)) img = enc pre @ c # of_nat (length d) # d @ rest"
      using drop_step[of "base + i" img "c' # of_nat (length d') # d'"] d by (simp add: add.assoc)
    with Cons.IH[of "i + length d' + 2"] get_option_loop_skip[OF _ r wf(1), of len 0 OPTION_FIELD] Cons.prems Opt wf(2)
    show ?thesis by (simp add: unat_opt_len del: unat_of_nat)
  qed
qed

lemma get_option_prefix:
  assumes "wf_message p" "repr (m_options p) (pre @ Opt c d # os)" "\<forall>x. Opt DHCP_OPTION_OVER x \<notin> set pre"
    "\<forall>x. Opt c x \<notin> set pre" "length (enc pre) + 1 + length d < 308"
  shows "get_option p c = Some (Some (OPTIONS_OFFSET + length (enc pre) + 2))"
    "slice (message_image p) (OPTIONS_OFFSET + length (enc pre) + 2) (length d) = d"
proof -
  obtain h where h: "length h = 240" "message_image p = h @ m_options p" using message_image_prefix[OF assms(1)] by blast
  from assms(2) obtain rest where m: "m_options p = enc (pre @ Opt c d # os) @ DHCP_END # rest" "list_all wf_opt (pre @ Opt c d # os)"
    by (auto simp: repr_def)
  have d: "drop (OPTIONS_OFFSET + 0) (message_image p) = enc pre @ c # of_nat (length d) # d @ enc os @ DHCP_END # rest"
    using h m(1) by simp
  show "get_option p c = Some (Some (OPTIONS_OFFSET + length (enc pre) + 2))"
    using get_option_loop_prefix[OF d _ assms(3,4)] m(2) assms(5) unfolding get_option_def by auto
  show "slice (message_image p) (OPTIONS_OFFSET + length (enc pre) + 2) (length d) = d"
    using h m(1) by (simp add: slice_def)
qed

lemma rd32_slice: "slice img q 4 = be32_bytes a \<Longrightarrow> q + 4 \<le> length img \<Longrightarrow> rd32 img q = Some a"
  by (rule rd32_drop[of _ _ _ "drop (q + 4) img"]) (metis append_take_drop_id slice_def drop_drop add.commute)

lemma option_u32_prefix:
  assumes "wf_message p" "repr (m_options p) (pre @ Opt c (be32_bytes a) # os)" "\<forall>x. Opt DHCP_OPTION_OVER x \<notin> set pre"
    "\<forall>x. Opt c x \<notin> set pre" "length (enc pre) < 300"
  shows "option_u32 p c = Some (Some a)"
proof -
  note g = get_option_prefix[OF assms(1-4)]
  have "rd32 (message_image p) (OPTIONS_OFFSET + length (enc pre) + 2) = Some a"
    using g(2) assms(5) length_message_image[OF assms(1)] by (intro rd32_slice) simp_all
  with g(1) assms(5) show ?thesis by (simp add: option_u32_def)
qed

lemma message_type_front:
  assumes "wf_message p" "repr (m_options p) (Opt DHCP_MESSAGE_TYPE [t] # os)"
  shows "get_option p DHCP_MESSAGE_TYPE = Some (Some 242)" "rd (message_image p) 242 = Some t" "message_image p ! 242 = t"
proof -
  note g = get_option_prefix[of p "[]" DHCP_MESSAGE_TYPE "[t]" os]
  show "get_option p DHCP_MESSAGE_TYPE = Some (Some 242)" using g(1) assms by simp
  have "slice (message_image p) 242 1 = [t]" using g(2) assms by simp
  then show n: "message_image p ! 242 = t"
    using nth_slice[of 242 1 "message_image p" 0] length_message_image[OF assms(1)] by simp
  then show "rd (message_image p) 242 = Some t" using length_message_image[OF assms(1)] by (simp add: rd_def)
qed

section \<open>Frames on the wire\<close>

text \<open>The server's socket strips the headers; the client's packet socket gets the IP datagram.\<close>

fun wire :: "frame \<Rightarrow> u8 list" where
  "wire (RawFrame bs dest ifi) = bs"
| "wire (UdpDatagram bs sip sport dip dport ifname) = bs"

lemma server_receives:
  assumes "wf_message q" "repr (m_options q) os" "m_cookie q = DHCP_MAGIC" "sent_payload q = Some bs"
  shows "\<exists>p n. get_packet (Some bs) = Some (p, n) \<and> 0 \<le> n \<and> wf_message p \<and> repr (m_options p) os \<and>
    m_chaddr p = m_chaddr q \<and> m_xid p = m_xid q \<and> m_giaddr p = m_giaddr q"
proof -
  from received_sent_payload[OF assms(1,2)] assms(4) obtain p' where
    r: "image_message (received bs) = p'" "p' = q\<lparr>m_options := m_options p'\<rparr>" "repr (m_options p') os" by auto
  have f: "m_cookie p' = m_cookie q" "m_chaddr p' = m_chaddr q" "m_xid p' = m_xid q" "m_giaddr p' = m_giaddr q"
    by (subst r(2), simp)+
  have "wf_message p'" unfolding r(1)[symmetric] by (simp add: wf_image_message)
  then have "wf_message (p'\<lparr>m_flags := fl\<rparr>)" for fl by (simp add: wf_message_def)
  then show ?thesis unfolding get_packet_cases r(1) using f assms(3) r(3) by auto
qed

lemma client_receives:
  assumes "sent_reply cfg p type yi os e" "m_giaddr p = 0" "wf_message p0"
  shows "\<exists>f q rest n. e = Sent f \<and> get_raw_packet (Some (wire f)) p0 = Some (q, n) \<and> 0 \<le> n \<and> wf_message q \<and>
    m_xid q = m_xid p \<and> m_yiaddr q = yi \<and> repr (m_options q) (reply_head cfg type @ os @ rest)"
proof -
  from assms(1) obtain f q rest where s: "e = Sent f" "sent_payload q = Some (frame_payload f)" "m_giaddr q = 0 \<longrightarrow> client_frame f"
    "is_reply p q" "m_yiaddr q = yi" "repr (m_options q) (reply_head cfg type @ os @ rest)"
    by (auto simp: sent_reply_def)
  have "m_giaddr q = 0" using s(4) assms(2) by (simp add: is_reply_def)
  with s(3) obtain data sa da arp ifi where f: "f = RawFrame (raw_frame data sa SERVER_PORT da CLIENT_PORT) arp ifi"
    by (auto simp: client_frame_def)
  then have pl: "frame_payload f = data" by (simp add: raw_frame_def Let_def)
  have q: "wf_message q" "m_cookie q = DHCP_MAGIC" "m_xid q = m_xid p" using s(4) by (simp_all add: is_reply_def)
  from get_raw_packet_sent[OF q(1) s(6) q(2) s(2)[unfolded pl] assms(3), of sa SERVER_PORT da] obtain q' where
    q': "get_raw_packet (Some (wire f)) p0 = Some (q', int (length data))" "q' = q\<lparr>m_options := m_options q'\<rparr>"
    "repr (m_options q') (reply_head cfg type @ os @ rest)" by (auto simp: f)
  have "m_xid q' = m_xid q" "m_yiaddr q' = m_yiaddr q" by (subst q'(2), simp)+
  moreover have "wf_message q'" using get_raw_packet_total[OF assms(3), of "Some (wire f)"] q'(1) by auto
  ultimately show ?thesis using s(1,5) q(3) q'(1,3) by (intro exI[of _ f] exI[of _ q'] exI[of _ rest]) auto
qed

section \<open>What the client sends\<close>

text \<open>With working sockets a frame goes out, and the server decodes the message from it.\<close>

definition arrives :: "frame \<Rightarrow> client \<Rightarrow> u32 \<Rightarrow> opt list \<Rightarrow> dhcpMessage \<Rightarrow> bool" where
  "arrives f c xid os p \<longleftrightarrow> (\<exists>n. get_packet (Some (frame_payload f)) = Some (p, n) \<and> 0 \<le> n) \<and> wf_message p \<and>
     repr (m_options p) os \<and> m_chaddr p = q_arp (y_config c) @ replicate 10 0 \<and> m_xid p = xid \<and> m_giaddr p = 0"

context client_sender
begin

lemma transmits:
  assumes "client_ok c" "cenv_ok e" "client_sock_works (w_sock (u_world e))"
  shows "\<exists>f p. csend (send (u_world e) (y_vendor_class_id c) (y_config c) xid) c =
      Some (c\<lparr>y_config := y_config c\<lparr>q_clientid := client_id (u_world e)\<rparr>, y_out := y_out c @ [Sent f]\<rparr>) \<and>
    arrives f c xid (opts (u_world e) (y_vendor_class_id c) (y_config c)) p"
proof -
  let ?os = "opts (u_world e) (y_vendor_class_id c) (y_config c)"
  from sends[OF client_ready_ok[OF assms(1,2)], of xid] assms(3) obtain r f o' where
    s: "send (u_world e) (y_vendor_class_id c) (y_config c) xid = Some (r, y_config c\<lparr>q_clientid := client_id (u_world e)\<rparr>)"
    "s_frame r = Some f" "repr o' ?os" "sent_payload (client_packet (y_config c) xid ci o') = Some (frame_payload f)"
    by (auto simp: sends_message_def split: option.splits)
  have "length (q_arp (y_config c)) = 6" using assms(1) by (simp add: client_ok_def)
  from server_receives[OF wf_client_packet[OF this s(3)] _ _ s(4), of ?os] s(3) obtain p where "arrives f c xid ?os p"
    by (auto simp: arrives_def)
  then show ?thesis unfolding csend_def s(1) bind.simps prod.case s(2) option.case cemit_def by auto
qed

end

text \<open>A host name of at most forty characters, so that the options stay in reach of the lookup.\<close>

definition short_name :: "client_config \<Rightarrow> bool" where
  "short_name cfg \<longleftrightarrow> (\<forall>h. q_hostname cfg = Some h \<longrightarrow> wf_block h \<and> h ! 0 = DHCP_HOST_NAME \<and> length h \<le> 42)"

lemma client_head_member:
  assumes "client_ready w vc cfg" "short_name cfg" "Opt c d \<in> set (client_head w vc cfg t)"
  shows "c = DHCP_MESSAGE_TYPE \<or> c = DHCP_CLIENT_ID \<or> c = DHCP_VENDOR \<or> c = DHCP_HOST_NAME \<and> length d \<le> 40"
  using assms client_id_block[OF assms(1)]
  by (cases "client_id w"; cases "q_hostname cfg") (auto simp: client_head_def block_opt_def short_name_def)

lemma client_identity_member:
  "Opt c d \<in> set (client_identity w) \<Longrightarrow> c = DHCP_VENDOR_IDENTIFYING \<and>
     (\<exists>b. createVIoption False (w_vi_serial w) (w_mac w) = Some b \<and> d = drop 2 b)"
  using createVIoption_block[of False "w_vi_serial w" "w_mac w"]
  by (cases "createVIoption False (w_vi_serial w) (w_mac w)") (auto simp: client_identity_def block_opt_def)

lemma short_head_length:
  assumes "client_ready w vc cfg" "short_name cfg"
  shows "length (enc (client_head w vc cfg t)) \<le> 145"
proof -
  have "length (enc (case client_id w of None \<Rightarrow> [] | Some b \<Rightarrow> [block_opt b])) \<le> 35"
    using client_id_block[OF assms(1)] by (auto split: option.split)
  moreover have "length (enc (case q_hostname cfg of None \<Rightarrow> [] | Some h \<Rightarrow> [block_opt h])) \<le> 42"
    using assms(2) by (auto simp: short_name_def split: option.split)
  moreover have "length (vendor_class vc) < 64" using assms(1) by (simp add: client_ready_def vendor_class_def)
  ultimately show ?thesis unfolding client_head_def by simp
qed

lemma lookup_pos_member: "lookup_pos c k os = Some (j, d) \<Longrightarrow> Opt c d \<in> set os"
  by (induction c k os rule: lookup_pos.induct) (auto split: if_splits)

lemma lookup_pos_absent: "\<forall>d. Opt c d \<notin> set os \<Longrightarrow> lookup_pos c k os = None"
  using lookup_pos_member[of c k os] by (cases "lookup_pos c k os") auto

text \<open>What the messages of this client hold, and that they are harmless for the server.\<close>

definition client_made :: "cworld \<Rightarrow> opt list \<Rightarrow> bool" where
  "client_made w os \<longleftrightarrow> (\<forall>c d. Opt c d \<in> set os \<longrightarrow>
     c \<in> {DHCP_MESSAGE_TYPE, DHCP_CLIENT_ID, DHCP_VENDOR, DHCP_SERVER_ID, DHCP_PARAM_REQ, DHCP_USER_CLASS} \<or>
     c = DHCP_HOST_NAME \<and> length d \<le> 40 \<or> c = DHCP_REQUESTED_IP \<and> length d = 4 \<or>
     c = DHCP_VENDOR_IDENTIFYING \<and> (\<exists>b. createVIoption False (w_vi_serial w) (w_mac w) = Some b \<and> d = drop 2 b))"

lemma client_options_made:
  assumes "client_ready w vc cfg" "short_name cfg"
  shows "client_made w (discover_options w vc cfg req)" "client_made w (selecting_options w vc cfg srv req)"
  using client_head_member[OF assms] client_identity_member[of _ _ w]
  unfolding client_made_def discover_options_def selecting_options_def
  by (fastforce simp: block_opt_def request_list_def split: if_splits)+

lemma made_benign:
  assumes "wf_message p" "repr (m_options p) os" "client_made w os" "length (w_vi_serial w) \<le> 64" "length (g_serial env) \<le> 110"
  shows "benign env p"
proof -
  have no: "\<forall>d. Opt DHCP_OPTION_OVER d \<notin> set os"
    using assms(3)[unfolded client_made_def, THEN spec, of DHCP_OPTION_OVER] by simp
  note g = get_option_repr[OF assms(1,2) no]
  have wl: "list_all wf_opt os" using assms(2) by (auto simp: repr_def)
  have at: "\<exists>k d. lookup_pos c 0 os = Some (k, d) \<and> q = OPTIONS_OFFSET + k + 2 \<and> option_length p q = length d \<and> Opt c d \<in> set os \<and>
      slice (message_image p) q (length d) = d"
    if "get_option p c = Some (Some q)" "c \<notin> {DHCP_PADDING, DHCP_END}" for c q
  proof -
    from g[OF that(2)] that(1) obtain k d where l: "lookup_pos c 0 os = Some (k, d)" "q = OPTIONS_OFFSET + k + 2"
      by (auto simp: fits_def split: option.splits if_splits)
    note d = lookup_pos_data[OF assms(1,2) l(1)] and m = lookup_pos_member[OF l(1)]
    have "length d \<le> 255" using lookup_pos_len[OF l(1) wl] .
    then have "option_length p q = length d" using d(2) l(2) by (simp add: option_length_def unat_opt_len del: unat_of_nat)
    with l d(1) m show ?thesis by auto
  qed
  have "requested_ok p" using at[of DHCP_REQUESTED_IP] assms(3) by (force simp: requested_ok_def client_made_def)
  moreover have "hostname_ok p" using at[of DHCP_HOST_NAME] assms(3) by (force simp: hostname_ok_def client_made_def)
  moreover have "identity_ok env p"
    unfolding identity_ok_def
  proof (intro allI impI)
    fix q yi
    assume "get_option p DHCP_VENDOR_IDENTIFYING = Some (Some q)"
    from at[OF this] assms(3) obtain b where b: "createVIoption False (w_vi_serial w) (w_mac w) = Some b"
      "slice (message_image p) q (length (drop 2 b)) = drop 2 b" by (fastforce simp: client_made_def)
    let ?i = "message_image p"
    let ?n = "length (drop 2 b)"
    have "0 < ?n" using b(1) unfolding createVIoption_Some by auto
    moreover have "?n = min ?n (length ?i - q)" using arg_cong[OF b(2), of length] by (simp add: slice_def)
    ultimately have l: "q + ?n \<le> length ?i" by linarith
    have "?i = take q ?i @ drop 2 b @ drop (q + ?n) ?i"
      using b(2) unfolding slice_def by (metis append_take_drop_id drop_drop add.commute)
    moreover have "length (take q ?i) = q" using l by simp
    ultimately have "\<exists>i. parseVI (w_malloc0 (g_vi env)) ?i q yi = Some (Some i) \<and> vi_full i"
      using createVIoption_parse[OF b(1) assms(4), of "w_malloc0 (g_vi env)" "take q ?i" "drop (q + ?n) ?i" yi]
      by (auto simp: vi_full_def)
    then show "case parseVI (w_malloc0 (g_vi env)) ?i q yi of None \<Rightarrow> False | Some None \<Rightarrow> True | Some (Some i) \<Rightarrow> vi_full i"
      by auto
  qed
  ultimately show ?thesis using assms(5) by (simp add: benign_def)
qed

section \<open>The two halves of the exchange\<close>

text \<open>The timer of a client that is selecting: the DISCOVER reaches the server.\<close>

lemma discover_arrives:
  assumes "client_ok c" "cenv_ok e" "client_sock_works (w_sock (u_world e))" "y_state c = INIT_SELECTING" "y_packet_num c < 2"
  shows "\<exists>c1 es f p. client_timeout e c = Some (CRunning c1) \<and> client_ok c1 \<and> y_state c1 = INIT_SELECTING \<and>
    y_out c1 = y_out c @ es @ [Sent f] \<and>
    arrives f c (y_xid c1) (discover_options (u_world e) (y_vendor_class_id c) (y_config c) (y_requested_ip c)) p \<and>
    y_config c1 = y_config c\<lparr>q_clientid := client_id (u_world e)\<rparr>"
proof -
  obtain es where s: "setStatus e 0 c = Some (c\<lparr>y_oldStatus := 0, y_out := y_out c @ es\<rparr>)"
    using setStatus_total[OF assms(1), of 0 e] by auto
  let ?c0 = "c\<lparr>y_oldStatus := 0, y_out := y_out c @ es\<rparr>"
  obtain x c' where rx: "random_xid e ?c0 = (x, c')" by fastforce
  from random_xid_ok[OF rx] obtain r where c': "c' = ?c0\<lparr>y_rng := r, y_seeded := True\<rparr>" by blast
  define c1 where "c1 = (if y_packet_num c = 0 then c'\<lparr>y_xid := x\<rparr> else ?c0)"
  have ok1: "client_ok c1" using assms(1) by (simp add: c1_def c' client_ok_def)
  have f1: "y_config c1 = y_config c" "y_vendor_class_id c1 = y_vendor_class_id c" "y_requested_ip c1 = y_requested_ip c"
    "y_out c1 = y_out c @ es" "y_state c1 = INIT_SELECTING" "y_packet_num c1 = y_packet_num c"
    using assms(4) by (simp_all add: c1_def c')
  from discover.transmits[OF ok1 assms(2,3), of "y_xid c1" "y_requested_ip c"] obtain f p where
    d: "csend (send_discover (u_world e) (y_vendor_class_id c1) (y_config c1) (y_xid c1) (y_requested_ip c1)) c1 =
      Some (c1\<lparr>y_config := y_config c1\<lparr>q_clientid := client_id (u_world e)\<rparr>, y_out := y_out c1 @ [Sent f]\<rparr>)"
    "arrives f c1 (y_xid c1) (discover_options (u_world e) (y_vendor_class_id c1) (y_config c1) (y_requested_ip c1)) p"
    unfolding f1(3) by blast
  define c2 where "c2 = c1\<lparr>y_config := y_config c1\<lparr>q_clientid := client_id (u_world e)\<rparr>, y_out := y_out c1 @ [Sent f],
    y_timeout := u_uptime e + of_nat (if y_packet_num c = 1 then REQ_TIMEOUT_T2 e else REQ_TIMEOUT_T1 e),
    y_packet_num := y_packet_num c + 1\<rparr>"
  have k: "(if y_packet_num ?c0 = 0 then (let (x, c') = random_xid e ?c0 in c'\<lparr>y_xid := x\<rparr>) else ?c0) = c1"
    by (simp add: c1_def rx)
  have t: "client_timeout e c = Some (CRunning c2)"
    unfolding client_timeout_def assms(4) cstate.case timeout_selecting_def s bind.simps k[unfolded Let_def] Let_def d(1)
    using assms(5) by (simp add: c2_def)
  moreover have "client_ok c2" using ok1 assms(5) by (simp add: c2_def client_ok_def)
  moreover have "arrives f c (y_xid c2) (discover_options (u_world e) (y_vendor_class_id c) (y_config c) (y_requested_ip c)) p"
    using d(2) by (simp add: arrives_def f1 c2_def)
  ultimately show ?thesis using f1 by (auto simp: c2_def)
qed

text \<open>The timer of a client that is requesting: the REQUEST reaches the server.\<close>

lemma request_arrives:
  assumes "client_ok c" "cenv_ok e" "client_sock_works (w_sock (u_world e))" "y_state c = REQUESTING" "y_packet_num c < 3"
  shows "\<exists>c1 f p. client_timeout e c = Some (CRunning c1) \<and> client_ok c1 \<and> y_state c1 = REQUESTING \<and>
    y_out c1 = y_out c @ [Sent f] \<and> y_xid c1 = y_xid c \<and>
    arrives f c (y_xid c) (selecting_options (u_world e) (y_vendor_class_id c) (y_config c) (y_server_addr c) (y_requested_ip c)) p"
proof -
  from selecting.transmits[OF assms(1-3), of "y_xid c" "y_server_addr c" "y_requested_ip c"] obtain f p where
    d: "csend (send_selecting (u_world e) (y_vendor_class_id c) (y_config c) (y_xid c) (y_server_addr c) (y_requested_ip c)) c =
      Some (c\<lparr>y_config := y_config c\<lparr>q_clientid := client_id (u_world e)\<rparr>, y_out := y_out c @ [Sent f]\<rparr>)"
    "arrives f c (y_xid c) (selecting_options (u_world e) (y_vendor_class_id c) (y_config c) (y_server_addr c) (y_requested_ip c)) p"
    by blast
  define c2 where "c2 = c\<lparr>y_config := y_config c\<lparr>q_clientid := client_id (u_world e)\<rparr>, y_out := y_out c @ [Sent f],
    y_timeout := u_uptime e + (if y_packet_num c = 2 then 4 else 2), y_packet_num := y_packet_num c + 1\<rparr>"
  have "client_timeout e c = Some (CRunning c2)"
    using assms(5) by (simp add: client_timeout_def assms(4) timeout_requesting_def d(1) c2_def)
  moreover have "client_ok c2" using assms(1,5) by (simp add: c2_def client_ok_def)
  moreover have "y_state c2 = REQUESTING" "y_out c2 = y_out c @ [Sent f]" "y_xid c2 = y_xid c"
    using assms(4) by (simp_all add: c2_def)
  ultimately show ?thesis using d(2) by blast
qed

text \<open>A reply of the server, and what the client makes of it.\<close>

lemma reply_heard:
  assumes "sent_reply cfg p type yi os ev" "m_giaddr p = 0" "client_ok c" "y_listen_mode c = LISTEN_RAW" "m_xid p = y_xid c"
  shows "\<exists>f q rest. ev = Sent f \<and> wf_message q \<and> m_yiaddr q = yi \<and> m_xid q = y_xid c \<and>
    repr (m_options q) (reply_head cfg type @ os @ rest) \<and>
    client_receive e (Some (wire f)) c = client_dispatch e q type (c\<lparr>y_packet := q\<rparr>)"
proof -
  have "wf_message (y_packet c)" using assms(3) by (simp add: client_ok_def)
  from client_receives[OF assms(1,2) this] obtain f q rest n where
    r: "ev = Sent f" "get_raw_packet (Some (wire f)) (y_packet c) = Some (q, n)" "0 \<le> n" "wf_message q" "m_xid q = m_xid p"
    "m_yiaddr q = yi" "repr (m_options q) (reply_head cfg type @ os @ rest)" by blast
  have "repr (m_options q) (Opt DHCP_MESSAGE_TYPE [type] # Opt DHCP_SERVER_ID (be32_bytes (c_server cfg)) # os @ rest)"
    using r(7) by (simp add: reply_head_def)
  note t = message_type_front[OF r(4) this]
  have "client_receive e (Some (wire f)) c = client_dispatch e q type (c\<lparr>y_packet := q\<rparr>)"
    unfolding client_receive_def using assms(4,5) r(2,3,5) t(1,2) by simp
  with r assms(5) show ?thesis by auto
qed

text \<open>The server side serves one pool.\<close>

definition server_ready :: "dhcpd \<Rightarrow> bool" where
  "server_ready st \<longleftrightarrow> pools_ok st \<and> phone_room st \<and> d_enblSrv1 st \<noteq> 0 \<and> (c_vendorid (d_config2 st) = None \<or> d_enblSrv2 st = 0)"

lemma single_pool: "server_ready st \<Longrightarrow> wf_message p \<Longrightarrow> uses_pool2 p st = Some False"
  using get_option_some[of p DHCP_VENDOR] by (auto simp: server_ready_def uses_pool2_def split: option.split)

text \<open>First half: the server answers the DISCOVER, and the client asks for the address it is offered.\<close>

lemma offer_taken:
  assumes "server_ready st" "length (g_serial env) \<le> 110" "length (w_vi_serial w) \<le> 64"
    "arrives f c0 (y_xid c) (discover_options w vc cfg req) p" "client_ready w vc cfg" "short_name cfg"
    "client_ok c" "y_state c = INIT_SELECTING" "servable env st (m_chaddr p)"
  shows "\<exists>st1 f2 ex c2. handle_packet env p st = Some st1 \<and> server_ready st1 \<and> sends st st1 [Sent f2] \<and>
    bound (leases_of st1) (m_chaddr p) (y_requested_ip c2) ex \<and>
    client_receive e (Some (wire f2)) c = Some (CRunning c2) \<and> client_ok c2 \<and> y_state c2 = REQUESTING \<and>
    y_server_addr c2 = c_server (d_config st1) \<and> y_packet_num c2 = 0 \<and> y_config c2 = y_config c"
proof -
  note S = assms(1)[unfolded server_ready_def]
  have p: "wf_message p" "repr (m_options p) (discover_options w vc cfg req)" "m_xid p = y_xid c" "m_giaddr p = 0"
    using assms(4) by (simp_all add: arrives_def)
  have b: "benign env p" by (rule made_benign[OF p(1,2) client_options_made(1)[OF assms(5,6)] assms(3,2)])
  have "repr (m_options p) (Opt DHCP_MESSAGE_TYPE [DHCPDISCOVER] # tl (discover_options w vc cfg req))"
    using p(2) by (simp add: discover_options_def client_head_def)
  note ty = message_type_front[OF p(1) this]
  obtain st1 where h: "handle_packet env p st = Some st1" using handle_packet_total[OF _ p(1) b] S by blast
  from offer_step[OF _ p(1) b _ ty(1) single_pool[OF assms(1) p(1)] _ ty(3) h] S have
    o: "pools_ok st1" "message_frame st st1" "d_ipPhoneipaddr st1 = d_ipPhoneipaddr st"
    "d_config st1 = d_config st" "\<exists>e a t ex. sends st st1 [e] \<and>
      replies (d_config st) p DHCPOFFER a (lease_opts t) e \<and> bound (leases_of st1) (m_chaddr p) a ex" using assms(9) by auto
  have r1: "server_ready st1" using S o(1-3) by (simp add: server_ready_def message_frame_def phone_room_def)
  have raw: "y_listen_mode c = LISTEN_RAW" using assms(7,8) by (simp add: client_ok_def mode_of_def)
  have "\<exists>f2 c2. ev = Sent f2 \<and> client_receive e (Some (wire f2)) c = Some (CRunning c2) \<and> client_ok c2 \<and> y_state c2 = REQUESTING \<and>
        y_requested_ip c2 = a \<and> y_server_addr c2 = c_server (d_config st) \<and> y_packet_num c2 = 0 \<and> y_config c2 = y_config c \<and> y_xid c2 = y_xid c"
    if ev: "replies (d_config st) p DHCPOFFER a (lease_opts t) ev" for ev a t
  proof -
    have "sent_reply (d_config st) p DHCPOFFER a (lease_opts t) ev" using ev by (simp add: replies_def)
    from reply_heard[OF this p(4) assms(7) raw p(3), of e] obtain f2 q rest where
      q: "ev = Sent f2" "wf_message q" "m_yiaddr q = a" "m_xid q = y_xid c"
      "repr (m_options q) (reply_head (d_config st) DHCPOFFER @ lease_opts t @ rest)"
      "client_receive e (Some (wire f2)) c = client_dispatch e q DHCPOFFER (c\<lparr>y_packet := q\<rparr>)" by blast
    have "option_u32 q DHCP_SERVER_ID = Some (Some (c_server (d_config st)))"
      using q(5) by (intro option_u32_prefix[of q "[Opt DHCP_MESSAGE_TYPE [DHCPOFFER]]" _ _ "lease_opts t @ rest"] q(2))
        (simp_all add: reply_head_def)
    then have "client_receive e (Some (wire f2)) c = Some (CRunning (c\<lparr>y_packet := q, y_server_addr := c_server (d_config st),
        y_xid := m_xid q, y_requested_ip := m_yiaddr q, y_state := REQUESTING, y_timeout := u_uptime e, y_packet_num := 0\<rparr>))"
      using assms(8) by (simp add: q(6) client_dispatch_def receive_offer_def)
    moreover have "client_ok (c\<lparr>y_packet := q, y_server_addr := c_server (d_config st),
        y_xid := m_xid q, y_requested_ip := m_yiaddr q, y_state := REQUESTING, y_timeout := u_uptime e, y_packet_num := 0\<rparr>)"
      using assms(7,8) q(2) by (simp add: client_ok_def mode_of_def)
    ultimately show ?thesis using q(1,3,4) by auto
  qed
  with o(4,5) h r1 show ?thesis by metis
qed

text \<open>Second half: the server answers the REQUEST, and the client is bound for the time the server noted.\<close>

lemma selecting_request:
  assumes "wf_message p" "repr (m_options p) (selecting_options w vc cfg srv a)" "client_ready w vc cfg" "short_name cfg"
  shows "option_u32 p DHCP_REQUESTED_IP = Some (Some a)" "option_u32 p DHCP_SERVER_ID = Some (Some srv)"
    "option_u32 p DHCP_LEASE_TIME = Some None"
    "get_option p DHCP_MESSAGE_TYPE = Some (Some 242)" "message_image p ! 242 = DHCPREQUEST"
proof -
  let ?h = "client_head w vc cfg DHCPREQUEST" and ?o = "selecting_options w vc cfg srv a"
  have m: "\<forall>x. Opt c x \<notin> set ?h" if "c \<notin> {DHCP_MESSAGE_TYPE, DHCP_CLIENT_ID, DHCP_VENDOR, DHCP_HOST_NAME}" for c
    using client_head_member[OF assms(3,4), of c _ DHCPREQUEST] that by blast
  have l: "length (enc ?h) \<le> 145" by (rule short_head_length[OF assms(3,4)])
  have r: "repr (m_options p) (?h @ Opt DHCP_REQUESTED_IP (be32_bytes a) # Opt DHCP_SERVER_ID (be32_bytes srv) # block_opt request_list # client_identity w)"
    "repr (m_options p) ((?h @ [Opt DHCP_REQUESTED_IP (be32_bytes a)]) @ Opt DHCP_SERVER_ID (be32_bytes srv) # block_opt request_list # client_identity w)"
    using assms(2) by (simp_all add: selecting_options_def)
  show "option_u32 p DHCP_REQUESTED_IP = Some (Some a)"
    by (rule option_u32_prefix[OF assms(1) r(1)]) (use m l in simp_all)
  show "option_u32 p DHCP_SERVER_ID = Some (Some srv)"
    by (rule option_u32_prefix[OF assms(1) r(2)]) (use m l in simp_all)
  have no: "\<forall>d. Opt c d \<notin> set ?o" if "c \<in> {DHCP_OPTION_OVER, DHCP_LEASE_TIME}" for c
    using client_options_made(2)[OF assms(3,4), of srv a, unfolded client_made_def, THEN spec, of c] that by auto
  show "option_u32 p DHCP_LEASE_TIME = Some None"
    using get_option_repr[OF assms(1,2) no, of DHCP_LEASE_TIME] lookup_pos_absent[OF no, of DHCP_LEASE_TIME]
    by (simp add: option_u32_def fits_def)
  have "repr (m_options p) (Opt DHCP_MESSAGE_TYPE [DHCPREQUEST] # tl ?o)"
    using assms(2) by (simp add: selecting_options_def client_head_def)
  from message_type_front[OF assms(1) this] show "get_option p DHCP_MESSAGE_TYPE = Some (Some 242)" "message_image p ! 242 = DHCPREQUEST"
    by simp_all
qed

lemma ack_taken:
  assumes "server_ready st" "length (g_serial env) \<le> 110" "length (w_vi_serial w) \<le> 64" "sock_works (g_sock env)"
    "0 \<le> e_result (g_sock env)" "0 < g_now env"
    "arrives f c0 (y_xid c) (selecting_options w vc cfg (c_server (d_config st)) a) p" "client_ready w vc cfg" "short_name cfg"
    "bound (leases_of st) (m_chaddr p) a ex" "\<not> blank_chaddr (m_chaddr p)"
    "client_ok c" "y_state c = REQUESTING" "cenv_ok e"
  defines "t \<equiv> ack_lease_time (d_config st) None"
  shows "\<exists>st1 f2. handle_packet env p st = Some st1 \<and> sends st st1 [Sent f2] \<and>
    bound (leases_of st1) (m_chaddr p) a (g_now env + t) \<and>
    cends (\<lambda>c2. y_state c2 = BOUND \<and> y_requested_ip c2 = a \<and> y_lease c2 = t \<and> y_start c2 = u_uptime e \<and>
        y_timeout c2 = t div 2 + u_uptime e) (client_receive e (Some (wire f2)) c)"
proof -
  note S = assms(1)[unfolded server_ready_def]
  have p: "wf_message p" "repr (m_options p) (selecting_options w vc cfg (c_server (d_config st)) a)" "m_xid p = y_xid c" "m_giaddr p = 0"
    using assms(7) by (simp_all add: arrives_def)
  have b: "benign env p" by (rule made_benign[OF p(1,2) client_options_made(2)[OF assms(8,9)] assms(3,2)])
  note r = selecting_request[OF p(1,2) assms(8,9)]
  from request_step[OF _ p(1) b _ r(4) single_pool[OF assms(1) p(1)] _ r(5) assms(10,11) r(2,1,3) assms(4-6)] S obtain st1 ev where
    a: "handle_packet env p st = Some st1" "sends st st1 [ev]" "sent_reply (d_config st) p DHCPACK a (lease_opts t) ev"
    "bound (leases_of st1) (m_chaddr p) a (g_now env + t)" by (auto simp: replies_def t_def)
  have raw: "y_listen_mode c = LISTEN_RAW" using assms(12,13) by (simp add: client_ok_def mode_of_def)
  from reply_heard[OF a(3) p(4) assms(12) raw p(3), of e] obtain f2 q rest where
    q: "ev = Sent f2" "wf_message q" "m_yiaddr q = a" "m_xid q = y_xid c"
    "repr (m_options q) (reply_head (d_config st) DHCPACK @ lease_opts t @ rest)"
    "client_receive e (Some (wire f2)) c = client_dispatch e q DHCPACK (c\<lparr>y_packet := q\<rparr>)" by blast
  have "option_u32 q DHCP_LEASE_TIME = Some (Some t)"
    using q(5) by (intro option_u32_prefix[of q "reply_head (d_config st) DHCPACK" _ _ "tl (lease_opts t) @ rest"] q(2))
      (simp_all add: reply_head_def lease_opts_def)
  then have al: "ack_lease q = t" by (simp add: ack_lease_def)
  let ?c = "c\<lparr>y_packet := q\<rparr>"
  have ok: "client_ok ?c" using assms(12) q(2) by (simp add: client_ok_def)
  have "cends (\<lambda>c2. y_state c2 = BOUND \<and> y_requested_ip c2 = a \<and> y_lease c2 = t \<and> y_start c2 = u_uptime e \<and>
      y_timeout c2 = t div 2 + u_uptime e) (client_dispatch e q DHCPACK ?c)"
    using receive_ack_ends[OF ok assms(14) q(2)] assms(13)
    by (simp add: client_dispatch_def) (erule cends_mono, simp add: bound_to_def al q(3))
  with a(1,2,4) q(1,6) show ?thesis by auto
qed

text \<open>
  The second half as the two programs run it: the timer of the client \<open>c\<close> sends one frame, the
  server decodes it and answers with one frame, and the client that decodes this one is bound
  to the address it asked for, which the server's table holds for the hardware address \<open>ch\<close>, for
  the lease time the server noted, and will renew after half of it.
\<close>

definition completes :: "cenv \<Rightarrow> cenv \<Rightarrow> env \<Rightarrow> dhcpd \<Rightarrow> u8 list \<Rightarrow> client \<Rightarrow> bool" where
  "completes e e' env st ch c \<longleftrightarrow> (let t = ack_lease_time (d_config st) None in
     \<exists>c1 f1 p n st1 f2. client_timeout e c = Some (CRunning c1) \<and> y_out c1 = y_out c @ [Sent f1] \<and>
       get_packet (Some (frame_payload f1)) = Some (p, n) \<and> handle_packet env p st = Some st1 \<and> sends st st1 [Sent f2] \<and>
       bound (leases_of st1) ch (y_requested_ip c) (g_now env + t) \<and>
       cends (\<lambda>c2. y_state c2 = BOUND \<and> y_requested_ip c2 = y_requested_ip c \<and> y_lease c2 = t \<and>
           y_timeout c2 = y_lease c2 div 2 + u_uptime e') (client_receive e' (Some (wire f2)) c1))"

lemma request_completed:
  assumes "client_ok c" "y_state c = REQUESTING" "y_packet_num c = 0" "short_name (y_config c)"
    "cenv_ok e" "client_sock_works (w_sock (u_world e))" "length (w_vi_serial (u_world e)) \<le> 64" "cenv_ok e'"
    "server_ready st" "length (g_serial env) \<le> 110" "sock_works (g_sock env)" "0 \<le> e_result (g_sock env)" "0 < g_now env"
    "y_server_addr c = c_server (d_config st)" "bound (leases_of st) ch (y_requested_ip c) ex" "\<not> blank_chaddr ch"
    "ch = q_arp (y_config c) @ replicate 10 0"
  shows "completes e e' env st ch c"
proof -
  let ?t = "ack_lease_time (d_config st) None"
  from request_arrives[OF assms(1,5,6,2)] assms(3) obtain c1 f1 p where
    1: "client_timeout e c = Some (CRunning c1)" "client_ok c1" "y_state c1 = REQUESTING" "y_out c1 = y_out c @ [Sent f1]"
    "arrives f1 c (y_xid c1) (selecting_options (u_world e) (y_vendor_class_id c) (y_config c) (c_server (d_config st)) (y_requested_ip c)) p"
    unfolding assms(14) by auto
  have ch: "m_chaddr p = ch" using 1(5) assms(17) by (simp add: arrives_def)
  from ack_taken[OF assms(9,10,7) assms(11-13) 1(5) client_ready_ok[OF assms(1,5)] assms(4)] assms(15,16) ch 1(2,3) assms(8)
  obtain st1 f2 where 2: "handle_packet env p st = Some st1" "sends st st1 [Sent f2]"
    "bound (leases_of st1) ch (y_requested_ip c) (g_now env + ?t)"
    "cends (\<lambda>c2. y_state c2 = BOUND \<and> y_requested_ip c2 = y_requested_ip c \<and> y_lease c2 = ?t \<and> y_start c2 = u_uptime e' \<and>
        y_timeout c2 = ?t div 2 + u_uptime e') (client_receive e' (Some (wire f2)) c1)"
    by blast
  have "cends (\<lambda>c2. y_state c2 = BOUND \<and> y_requested_ip c2 = y_requested_ip c \<and> y_lease c2 = ?t \<and>
      y_timeout c2 = y_lease c2 div 2 + u_uptime e') (client_receive e' (Some (wire f2)) c1)"
    using 2(4) by (rule cends_mono) simp
  with 1(1,4,5) 2(1-3) show ?thesis by (auto simp: arrives_def completes_def Let_def)
qed

end
