(* ===== verification/Dhcp_Tools.thy ===== *)
theory Dhcp_Tools
  imports Dhcp_Client
begin

text \<open>
  The two small programs around the daemons: \<^verbatim>\<open>frontend.c\<close>, which starts the server or the
  client of the combined binary by the name it is called with, and \<^verbatim>\<open>dumpleases.c\<close>, which lists
  a lease file.  \<^verbatim>\<open>ctime\<close> and the file system are parameters.
\<close>

section \<open>The combined binary\<close>

text \<open>
  The start of the program chosen: \<open>Inl\<close> for the server, \<open>Inr\<close> for the client.  \<open>base_name\<close> is
  what follows the last slash, or all of the name.
\<close>

definition base_name :: "string \<Rightarrow> string" where
  "base_name argv0 = rev (takeWhile (\<lambda>c. c \<noteq> CHR ''/'') (rev argv0))"

definition frontend_main :: "string \<Rightarrow> boot_env \<Rightarrow> cboot \<Rightarrow> (outcome + coutcome) option" where
  "frontend_main argv0 srv cli =
     (if strstr (base_name argv0) ''dhcpd'' \<noteq> None then map_option Inl (udhcpd_init srv)
      else map_option Inr (udhcpc_init cli))"

section \<open>Listing a lease file\<close>

datatype dump_mode = REMAINING | ABSOLUTE

record lease_t =
  lt_chaddr :: "u8 list"
  lt_yiaddr :: u32
  lt_expires :: u32

text \<open>\<^verbatim>\<open>fread\<close> of one record of 24 bytes.\<close>

definition lease_at :: "u8 list \<Rightarrow> lease_t" where
  "lease_at bs = \<lparr>lt_chaddr = take 16 bs, lt_yiaddr = at32 bs 16, lt_expires = at32 bs 20\<rparr>"

text \<open>\<^verbatim>\<open>%02x\<close> of six bytes with colons between them, and \<^verbatim>\<open>%-15s\<close>.\<close>

definition mac_text :: "u8 list \<Rightarrow> string" where
  "mac_text ch = concat (map (\<lambda>i. hex2 (ch ! i) @ (if i \<noteq> 5 then '':'' else [])) [0..<6])"

definition pad15 :: "string \<Rightarrow> string" where
  "pad15 s = s @ replicate (15 - length s) (CHR '' '')"

text \<open>The unit is printed, and the time reduced, only when it is longer than the unit.\<close>

definition print_unit :: "nat \<Rightarrow> string \<Rightarrow> nat \<Rightarrow> string \<times> nat" where
  "print_unit u name expires =
     (if expires > u then (dec (expires div u) @ '' '' @ name @ '', '', expires mod u) else ([], expires))"

definition remaining_text :: "u32 \<Rightarrow> string" where
  "remaining_text expires =
     (if expires = 0 then ''expired'' @ [CHR 0x0A]
      else let (days, e1) = print_unit 86400 ''days'' (unat expires);
               (hours, e2) = print_unit 3600 ''hours'' e1;
               (minutes, e3) = print_unit 60 ''minutes'' e2 in
        days @ hours @ minutes @ dec e3 @ '' seconds'' @ [CHR 0x0A])"

definition dump_line :: "dump_mode \<Rightarrow> (u32 \<Rightarrow> string) \<Rightarrow> lease_t \<Rightarrow> string" where
  "dump_line mode ctime l =
     mac_text (lt_chaddr l) @ '' '' @ pad15 (inet_ntoa (lt_yiaddr l)) @ '' '' @
     (if mode = REMAINING then remaining_text (lt_expires l) else ctime (lt_expires l))"

function dump_loop :: "dump_mode \<Rightarrow> (u32 \<Rightarrow> string) \<Rightarrow> u8 list \<Rightarrow> string list" where
  "dump_loop mode ctime bs =
     (if length bs < 24 then [] else dump_line mode ctime (lease_at bs) # dump_loop mode ctime (drop 24 bs))"
  by pat_completeness auto
termination
  by (relation "measure (\<lambda>(mode, ctime, bs). length bs)") auto

declare dump_loop.simps [simp del]

text \<open>The options one after the other: the mode, the file name in 255 bytes, and what was printed.\<close>

definition dump_usage :: "string list" where
  "dump_usage = map (\<lambda>s. s @ [CHR 0x0A])
     [''Usage: dumpleases -f <file> -[ra]'' @ [CHR 0x0A],
      ''  -f, --file=FILENAME             Leases file to load'',
      ''  -r, --remaining                 Interepret lease times as time reemaing'',
      ''  -a, --absolute                  Interepret lease times as expire time'']"

fun dump_args :: "(char \<times> string) list \<Rightarrow> dump_mode \<times> string \<times> string list \<Rightarrow> dump_mode \<times> string \<times> string list" where
  "dump_args [] r = r"
| "dump_args ((c, optarg) # as) (mode, file, out) =
     dump_args as
       (if c = CHR ''a'' then (ABSOLUTE, file, out)
        else if c = CHR ''r'' then (REMAINING, file, out)
        else if c = CHR ''f'' then (mode, take 254 optarg, out)
        else if c = CHR ''h'' then (mode, file, out @ dump_usage)
        else (mode, file, out))"

definition dumpleases :: "(string \<Rightarrow> u8 list option) \<Rightarrow> (u32 \<Rightarrow> string) \<Rightarrow> (char \<times> string) list \<Rightarrow> string list" where
  "dumpleases fs ctime args =
     (let (mode, file, out) = dump_args args (REMAINING, ''/etc/udhcpd.leases'', []) in
      case fs file of None \<Rightarrow> out
      | Some bs \<Rightarrow> out @
          (''Mac Address       IP-Address      Expires '' @ (if mode = REMAINING then ''in'' else ''at'') @ [CHR 0x0A]) #
          dump_loop mode ctime bs)"

section \<open>Reading a listing\<close>

definition mac_of :: "string \<Rightarrow> u8 list" where
  "mac_of s = map (\<lambda>k. of_nat (digits_in 16 0 (slice s (3 * k) 2))) [0..<6]"

fun seconds_of :: "string list \<Rightarrow> nat" where
  "seconds_of (n # u # ws) = num_of n *
     (if u = ''days,'' then 86400 else if u = ''hours,'' then 3600 else if u = ''minutes,'' then 60 else 1) + seconds_of ws"
| "seconds_of ws = 0"

definition lease_bytes :: "lease_t \<Rightarrow> u8 list" where
  "lease_bytes l = lt_chaddr l @ be32_bytes (lt_yiaddr l) @ be32_bytes (lt_expires l)"

text \<open>What a line of a listing tells of a lease.\<close>

definition line_tells :: "lease_t \<Rightarrow> string \<Rightarrow> bool" where
  "line_tells l line \<longleftrightarrow> (\<exists>mac ip time. words_of line = mac # ip # time \<and> mac_of mac = take 6 (lt_chaddr l) \<and>
     inet_aton ip = Some (lt_yiaddr l) \<and> seconds_of time = unat (lt_expires l))"

lemma space_chars [simp]: "is_space (CHR '' '')" "is_space (CHR 0x0A)"
  by (simp_all add: is_space_def)

lemma words_of_simps [simp]: "words_of [] = []" "is_space c \<Longrightarrow> words_of (c # s) = words_of s"
  by (simp_all add: words_of_def)

lemma words_of_spaces [simp]: "words_of (replicate n (CHR '' '') @ s) = words_of s"
  by (induction n) simp_all

lemma dec_no_space: "\<forall>c \<in> set (dec n). \<not> is_space c"
  using dec_digits[of n] by (auto simp: list_all_iff is_digit_def is_space_def)

lemma digit_in_hex: "d < 16 \<Longrightarrow> digit_in 16 (hex_digit d) = Some d"
  by (auto simp: digit_in_def hex_digit_def Let_def of_char_of)

lemma hex_digit_no_space: "d < 16 \<Longrightarrow> \<not> is_space (hex_digit d)"
  by (auto simp: hex_digit_def is_space_def of_char_of)

lemma nibbles: "unat (b :: u8) div 16 < 16" "unat b mod 16 < 16"
  using unat_u8[of b] by simp_all

lemma digits_in_hex2: "digits_in 16 0 (hex2 b) = unat b"
  using nibbles[of b] by (simp add: hex2_def digit_in_hex)

lemma mac_text_eq:
  "mac_text ch = hex2 (ch ! 0) @ CHR '':'' # hex2 (ch ! 1) @ CHR '':'' # hex2 (ch ! 2) @ CHR '':'' # hex2 (ch ! 3) @
     CHR '':'' # hex2 (ch ! 4) @ CHR '':'' # hex2 (ch ! 5)"
  by (simp add: mac_text_def upt_rec numeral_eq_Suc)

lemma mac_of_mac_text:
  assumes "6 \<le> length ch"
  shows "mac_of (mac_text ch) = take 6 ch"
proof -
  have "slice (mac_text ch) (3 * k) 2 = hex2 (ch ! k)" if "k < 6" for k
  proof -
    have "k = 0 \<or> k = 1 \<or> k = 2 \<or> k = 3 \<or> k = 4 \<or> k = 5" using that by arith
    then show ?thesis by (elim disjE) (simp_all add: mac_text_eq slice_def hex2_def)
  qed
  then have "mac_of (mac_text ch) = map ((!) ch) [0..<6]" by (simp add: mac_of_def digits_in_hex2)
  with assms show ?thesis by (simp add: list_eq_iff_nth_eq)
qed

lemma mac_text_word: "\<forall>c \<in> set (mac_text ch). \<not> is_space c" "mac_text ch \<noteq> []"
proof -
  have "\<forall>c \<in> set (hex2 b). \<not> is_space c" for b using nibbles[of b] by (simp add: hex2_def hex_digit_no_space)
  then show "\<forall>c \<in> set (mac_text ch). \<not> is_space c" by (auto simp: mac_text_eq is_space_def)
  show "mac_text ch \<noteq> []" by (simp add: mac_text_eq hex2_def)
qed

lemma inet_ntoa_word: "\<forall>c \<in> set (inet_ntoa a). \<not> is_space c" "inet_ntoa a \<noteq> []"
  using dec_no_space by (auto simp: inet_ntoa_def is_space_def)

lemma words_of_unit:
  assumes "\<forall>c \<in> set name. \<not> is_space c"
  shows "words_of (fst (print_unit u name e) @ s) =
    (if e > u then dec (e div u) # (name @ '','') # words_of s else words_of s)"
proof -
  have "dec (e div u) @ '' '' @ name @ '', '' @ s = dec (e div u) @ CHR '' '' # ((name @ '','') @ CHR '' '' # s)" by simp
  moreover have "words_of (dec (e div u) @ CHR '' '' # x) = dec (e div u) # words_of x" for x
    using dec_no_space by (intro words_of_word) auto
  moreover have "words_of ((name @ '','') @ CHR '' '' # s) = (name @ '','') # words_of s"
    using assms by (intro words_of_word) (auto simp: is_space_def)
  ultimately show ?thesis by (simp add: print_unit_def)
qed

lemma words_of_seconds: "words_of (dec n @ '' seconds'' @ [CHR 0x0A]) = [dec n, ''seconds'']"
proof -
  have "dec n @ '' seconds'' @ [CHR 0x0A] = dec n @ CHR '' '' # (''seconds'' @ CHR 0x0A # [])" by simp
  moreover have "words_of (''seconds'' @ CHR 0x0A # []) = [''seconds'']"
    by (subst words_of_word) (auto simp: is_space_def)
  ultimately show ?thesis using dec_no_space[of n] by (simp only: words_of_word space_chars dec_nonempty not_False_eq_True)
qed

lemma seconds_of_unit:
  assumes "(u, name) \<in> {(86400, ''days''), (3600, ''hours''), (60, ''minutes'')}"
    "seconds_of (words_of s) = snd (print_unit u name e)"
  shows "seconds_of (words_of (fst (print_unit u name e) @ s)) = e"
proof -
  have n: "\<forall>c \<in> set name. \<not> is_space c" using assms(1) by (auto simp: is_space_def)
  have s: "snd (print_unit u name e) = (if e > u then e mod u else e)" by (simp add: print_unit_def)
  show ?thesis unfolding words_of_unit[OF n] using assms unfolding s by auto
qed

lemma seconds_of_remaining: "seconds_of (words_of (remaining_text e)) = unat e"
proof (cases "e = 0")
  case True
  have "words_of (''expired'' @ CHR 0x0A # []) = [''expired'']" by (subst words_of_word) (auto simp: is_space_def)
  with True show ?thesis by (simp add: remaining_text_def)
next
  case False
  have "seconds_of (words_of (dec n @ '' seconds'' @ [CHR 0x0A])) = n" for n unfolding words_of_seconds by simp
  then show ?thesis
    unfolding remaining_text_def if_not_P[OF False] Let_def case_prod_beta by (intro seconds_of_unit) auto
qed

lemma dump_line_tells:
  assumes "length (lt_chaddr l) = 16"
  shows "line_tells l (dump_line REMAINING ctime l)"
proof -
  let ?t = "remaining_text (lt_expires l)"
  have "dump_line REMAINING ctime l = mac_text (lt_chaddr l) @ CHR '' '' # (inet_ntoa (lt_yiaddr l) @
      CHR '' '' # (replicate (15 - length (inet_ntoa (lt_yiaddr l))) (CHR '' '') @ ?t))"
    by (simp add: dump_line_def pad15_def replicate_app_Cons_same)
  then have "words_of (dump_line REMAINING ctime l) = mac_text (lt_chaddr l) # inet_ntoa (lt_yiaddr l) # words_of ?t"
    using mac_text_word inet_ntoa_word by (simp add: words_of_word)
  with assms show ?thesis
    by (auto simp: line_tells_def mac_of_mac_text inet_aton_ntoa seconds_of_remaining)
qed

lemma lease_at_bytes: "length (lt_chaddr l) = 16 \<Longrightarrow> lease_at (lease_bytes l @ bs) = l"
  by (cases l) (auto intro!: at32_be32_bytes simp: lease_at_def lease_bytes_def slice_def)

lemma dump_loop_records:
  "list_all (\<lambda>l. length (lt_chaddr l) = 16) ls \<Longrightarrow>
   dump_loop mode ctime (concat (map lease_bytes ls)) = map (dump_line mode ctime) ls"
proof (induction ls)
  case Nil
  then show ?case by (subst dump_loop.simps) simp
next
  case (Cons l ls)
  then have "length (lease_bytes l) = 24" by (simp add: lease_bytes_def)
  with Cons show ?case by (subst dump_loop.simps) (simp add: lease_at_bytes)
qed

section \<open>Properties\<close>

lemma base_name_path:
  assumes "CHR ''/'' \<notin> set name"
  shows "base_name (dir @ CHR ''/'' # name) = name"
proof -
  have t: "takeWhile (\<lambda>c. c \<noteq> CHR ''/'') (rev name) = rev name" using assms by (subst takeWhile_eq_all_conv) auto
  have "rev (dir @ CHR ''/'' # name) = rev name @ CHR ''/'' # rev dir" by simp
  then show ?thesis unfolding base_name_def by (simp only: takeWhile_tail t rev_rev_ident not_True_eq_False simp_thms)
qed

text \<open>
  The links the build installs start the right program, from whatever directory: \<^verbatim>\<open>dhcpd\<close> the
  server, \<^verbatim>\<open>dhcpc\<close> the client, and the binary itself, \<^verbatim>\<open>udhcpd\<close>, the server.
\<close>

theorem frontend_links:
  "frontend_main (dir @ CHR ''/'' # ''dhcpd'') srv cli = map_option Inl (udhcpd_init srv) \<and>
   frontend_main (dir @ CHR ''/'' # ''udhcpd'') srv cli = map_option Inl (udhcpd_init srv) \<and>
   frontend_main (dir @ CHR ''/'' # ''dhcpc'') srv cli = map_option Inr (udhcpc_init cli)"
  unfolding frontend_main_def by (subst (1 2 3) base_name_path) simp_all


definition sample_lease_t :: lease_t where
  "sample_lease_t = \<lparr>lt_chaddr = [0, 0x25, 0x9E, 1, 2, 3] @ replicate 10 0, lt_yiaddr = 0xC0A80102, lt_expires = 90061\<rparr>"


text \<open>
  The lease file of the server has records of 88 bytes: the tool lists three leases for each
  first one, and only the first of the three lines is a lease; the hardware address of the
  second is the beginning of the host name.
\<close>

theorem dumpleases_server_file:
  assumes "length (l_chaddr l) = 16" "length (l_hostname l) = 64"
  shows "\<exists>l2 l3. dump_loop REMAINING ctime (lease_record l t) =
      map (dump_line REMAINING ctime) [\<lparr>lt_chaddr = l_chaddr l, lt_yiaddr = l_yiaddr l, lt_expires = t\<rparr>, l2, l3] \<and>
    lt_chaddr l2 = take 16 (l_hostname l)"
proof -
  let ?r = "lease_record l t" and ?c = ctime
  have len: "length ?r = 88" by (rule length_lease_record[OF assms])
  have "lease_at ?r = \<lparr>lt_chaddr = l_chaddr l, lt_yiaddr = l_yiaddr l, lt_expires = t\<rparr>"
    using lease_record_fields[OF assms(1), of t "[]"] by (simp add: lease_at_def)
  moreover have "lt_chaddr (lease_at (drop 24 ?r)) = take 16 (l_hostname l)"
    using assms by (simp add: lease_at_def lease_record_def)
  moreover have "dump_loop REMAINING ctime ?r =
      map (dump_line REMAINING ctime) [lease_at ?r, lease_at (drop 24 ?r), lease_at (drop 48 ?r)]"
    using len by (simp add: dump_loop.simps[of _ _ ?r] dump_loop.simps[of _ _ "drop 24 ?r"]
        dump_loop.simps[of _ _ "drop 48 ?r"] dump_loop.simps[of _ _ "drop 72 ?r"])
  ultimately show ?thesis by metis
qed

end
