(* ===== verification/Dns_Names.thy ===== *)
theory Dns_Names
  imports Cstrings
begin

text \<open>
  Domain names in the DNS proxy of the gateway, \<^verbatim>\<open>dnsmasq/src/rfc1035.c\<close> and \<^verbatim>\<open>dnsmasq/src/util.c\<close>:
  decoding, comparing, skipping and encoding the names of a DNS packet.  The packet is the
  byte buffer the datagram was read into, with the length \<^verbatim>\<open>plen\<close> of the datagram, and a pointer
  into it is an offset.  The name buffer is a list of bytes, which \<^verbatim>\<open>extract_name\<close> writes or
  compares with.  \<open>None\<close> is an access outside a buffer; the result 0 of the source is
  \<open>Some None\<close>.

  The inductive relation \<open>dname\<close> says which labels a packet holds at an offset;
  \<^verbatim>\<open>extract_name\<close> in its two modes and \<^verbatim>\<open>skip_name\<close> are compared with it.
\<close>

section \<open>Characters\<close>

text \<open>\<^verbatim>\<open>MAXDNAME\<close> and \<^verbatim>\<open>MAXLABEL\<close> of \<^verbatim>\<open>arpa/nameser.h\<close>.\<close>

definition MAXDNAME :: nat where "MAXDNAME = 1025"
definition MAXLABEL :: nat where "MAXLABEL = 63"

definition legal_char :: "u8 \<Rightarrow> bool" where
  "legal_char c \<longleftrightarrow> 65 \<le> c \<and> c \<le> 90 \<or> 97 \<le> c \<and> c \<le> 122 \<or> 48 \<le> c \<and> c \<le> 57 \<or> c = 45 \<or> c = 47 \<or> c = 95 \<or> c = 32"

definition lower8 :: "u8 \<Rightarrow> u8" where
  "lower8 c = (if 65 \<le> c \<and> c \<le> 90 then c + 32 else c)"

text \<open>The two strings without their NUL.\<close>

fun hostname_isequal :: "u8 list \<Rightarrow> u8 list \<Rightarrow> bool" where
  "hostname_isequal [] [] = True"
| "hostname_isequal [] (b # bs) = False"
| "hostname_isequal (a # as) [] = False"
| "hostname_isequal (a # as) (b # bs) = (lower8 a = lower8 b \<and> hostname_isequal as bs)"

text \<open>The loop of \<^verbatim>\<open>canonicalise\<close>: \<open>dotgap\<close> and \<open>nowhite\<close> as in the source.\<close>

fun canonical_loop :: "nat \<Rightarrow> bool \<Rightarrow> u8 list \<Rightarrow> bool" where
  "canonical_loop dotgap nowhite [] = nowhite"
| "canonical_loop dotgap nowhite (c # s) =
     (if c = 46 then canonical_loop 0 nowhite s
      else if \<not> legal_char c \<or> MAXLABEL < dotgap + 1 then False
      else canonical_loop (dotgap + 1) (nowhite \<or> c \<noteq> 32) s)"

text \<open>The string as it is left, and the result.\<close>

definition canonicalise :: "u8 list \<Rightarrow> u8 list \<times> bool" where
  "canonicalise s =
     (if s = [] \<or> MAXDNAME < length s then (s, False)
      else if last s = 46 then
        (if length s = 1 then (s, False) else (butlast s, canonical_loop 0 False (butlast s)))
      else (s, canonical_loop 0 False s))"

text \<open>What \<^verbatim>\<open>do_rfc1035_name\<close> stores.\<close>

function rfc1035_bytes :: "u8 list \<Rightarrow> u8 list" where
  "rfc1035_bytes sval =
     (if sval = [] then []
      else let l = takeWhile (\<lambda>c. c \<noteq> 46) sval in
        of_nat (length l) # l @ rfc1035_bytes (drop 1 (dropWhile (\<lambda>c. c \<noteq> 46) sval)))"
  by pat_completeness auto
termination
proof (relation "measure length")
  show "wf (measure length)" by simp
next
  fix sval :: "u8 list" and l
  assume "sval \<noteq> []"
  then show "(drop 1 (dropWhile (\<lambda>c. c \<noteq> 46) sval), sval) \<in> measure length"
    using length_dropWhile_le[of "\<lambda>c. c \<noteq> 46" sval] by (cases sval) (auto simp: less_Suc_eq_le le_diff_conv)
qed

declare rfc1035_bytes.simps [simp del]

definition do_rfc1035_name :: "u8 list \<Rightarrow> nat \<Rightarrow> u8 list \<Rightarrow> (u8 list \<times> nat) option" where
  "do_rfc1035_name pkt p sval = do {
     pkt' \<leftarrow> memcpy pkt p (rfc1035_bytes sval);
     Some (pkt', p + length (rfc1035_bytes sval)) }"

section \<open>Extracting a name\<close>

text \<open>The copy of a label of \<open>l\<close> bytes; \<open>Some None\<close> when a character is not legal.\<close>

fun copy_label :: "u8 list \<Rightarrow> nat \<Rightarrow> nat \<Rightarrow> u8 list \<Rightarrow> nat \<Rightarrow> (u8 list \<times> nat) option option" where
  "copy_label pkt 0 p name cp = Some (Some (name, cp))"
| "copy_label pkt (Suc l) p name cp = do {
     c \<leftarrow> rd pkt p;
     if legal_char c then do {
       name' \<leftarrow> wr name cp c;
       copy_label pkt l (p + 1) name' (cp + 1) }
     else Some None }"

text \<open>The comparison of a label: where \<^verbatim>\<open>cp\<close> is then, and \<^verbatim>\<open>retvalue\<close>.\<close>

fun cmp_label :: "u8 list \<Rightarrow> nat \<Rightarrow> nat \<Rightarrow> u8 list \<Rightarrow> nat \<Rightarrow> nat \<Rightarrow> (nat \<times> nat) option" where
  "cmp_label pkt 0 p name cp ret = Some (cp, ret)"
| "cmp_label pkt (Suc l) p name cp ret = do {
     c1 \<leftarrow> rd name cp;
     c2 \<leftarrow> rd pkt p;
     if c1 = 0 then cmp_label pkt l (p + 1) name cp 2
     else cmp_label pkt l (p + 1) name (cp + 1) (if lower8 c1 = lower8 c2 then ret else 2) }"

definition cmp_dot :: "u8 list \<Rightarrow> nat \<Rightarrow> nat \<Rightarrow> (nat \<times> nat) option" where
  "cmp_dot name cp ret = do {
     c \<leftarrow> rd name cp;
     Some (if c = 0 then (cp, ret) else (cp + 1, if c = 46 then ret else 2)) }"

text \<open>The digits of a bit string: the low half of a byte is read last and moves on to the next byte.\<close>

fun elt_digits :: "u8 list \<Rightarrow> nat \<Rightarrow> bool \<Rightarrow> nat \<Rightarrow> u8 list \<Rightarrow> nat \<Rightarrow> (nat \<times> u8 list \<times> nat) option" where
  "elt_digits pkt 0 low p name cp = Some (p, name, cp)"
| "elt_digits pkt (Suc n) low p name cp = do {
     b \<leftarrow> rd pkt p;
     let dig = (if low then b AND 15 else drop_bit 4 b);
     name' \<leftarrow> wr name cp (if dig < 10 then dig + 48 else dig + 55);
     elt_digits pkt n (\<not> low) (if low then p + 1 else p) name' (cp + 1) }"

definition elt_count :: "u8 \<Rightarrow> nat" where
  "elt_count b = (if b = 0 then 256 else unat b)"

definition elt_digs :: "u8 \<Rightarrow> nat" where
  "elt_digs b = (elt_count b - 1) div 4 + 1"

definition elt_label :: "u8 list \<Rightarrow> u8 \<Rightarrow> nat \<Rightarrow> u8 list \<Rightarrow> nat \<Rightarrow> (nat \<times> u8 list \<times> nat) option" where
  "elt_label pkt b p name cp = do {
     name1 \<leftarrow> memcpy name cp [92, 91, 120];
     (p', name2, cp2) \<leftarrow> elt_digits pkt (elt_digs b) False p name1 (cp + 3);
     let t = bytes_of (''/'' @ dec (elt_count b) @ '']'');
     name3 \<leftarrow> memcpy name2 cp2 (t @ [0]);
     name4 \<leftarrow> wr name3 (cp2 + length t) 46;
     Some (p', name4, cp2 + length t + 1) }"

lemma elt_digits_pos:
  "elt_digits pkt n low p name cp = Some (p', name', cp') \<Longrightarrow>
   p' = p + (n + (if low then 1 else 0)) div 2 \<and> cp' = cp + n \<and> length name' = length name"
  by (induction pkt n low p name cp rule: elt_digits.induct) (fastforce simp: bind_eq_Some_conv Let_def wr_def split: if_splits)+

lemma elt_label_pos:
  "elt_label pkt b p name cp = Some (p', name', cp') \<Longrightarrow> p' = p + elt_digs b div 2"
  by (auto simp: elt_label_def bind_eq_Some_conv Let_def dest: elt_digits_pos)

text \<open>
  The loop.  \<open>hops\<close> counts the compression pointers followed, \<open>p1\<close> is the place behind the first
  of them.  The result has \<^verbatim>\<open>retvalue\<close>, the name buffer and the new \<^verbatim>\<open>*pp\<close>.
\<close>

function extract_loop ::
  "u8 list \<Rightarrow> nat \<Rightarrow> bool \<Rightarrow> nat \<Rightarrow> nat \<Rightarrow> nat option \<Rightarrow> u8 list \<Rightarrow> nat \<Rightarrow> nat \<Rightarrow> (nat \<times> u8 list \<times> nat) option option" where
  "extract_loop pkt plen ext hops p p1 name cp ret = do {
     l \<leftarrow> rd pkt p;
     let lt = l AND 0xC0;
     if l = 0 then
       (let pp = (case p1 of None \<Rightarrow> p + 1 | Some q \<Rightarrow> q) in
        if ext then do {
          name' \<leftarrow> wr name (if cp \<noteq> 0 then cp - 1 else cp) 0;
          Some (Some (ret, name', pp)) }
        else do {
          c \<leftarrow> rd name cp;
          Some (Some (if c \<noteq> 0 then 2 else ret, name, pp)) })
     else if lt = 0xC0 then
       if plen \<le> p + 1 then Some None
       else do {
         b \<leftarrow> rd pkt (p + 1);
         let q = unat (l AND 0x3F) * 256 + unat b;
         if plen \<le> q then Some None
         else if 255 < hops + 1 then Some None
         else extract_loop pkt plen ext (hops + 1) q (case p1 of None \<Rightarrow> Some (p + 2) | Some r \<Rightarrow> Some r) name cp ret }
     else if lt = 0x80 then Some None
     else if lt = 0x40 then
       if l AND 0x3F \<noteq> 1 then Some None
       else if \<not> ext then Some None
       else do {
         b \<leftarrow> rd pkt (p + 1);
         if MAXDNAME \<le> cp + elt_digs b + 9 then Some None
         else if plen \<le> p + 2 + (elt_count b - 1) div 8 then Some None
         else do {
           (p', name', cp') \<leftarrow> elt_label pkt b (p + 2) name cp;
           if plen \<le> p' then Some None
           else extract_loop pkt plen ext hops p' p1 name' cp' ret } }
     else if MAXDNAME \<le> cp + unat l + 1 then Some None
     else if plen \<le> p + 1 then Some None
     else if ext then do {
       r \<leftarrow> copy_label pkt (unat l) (p + 1) name cp;
       (case r of None \<Rightarrow> Some None
        | Some (name1, cp1) \<Rightarrow> do {
            name2 \<leftarrow> wr name1 cp1 46;
            if plen \<le> p + 1 + unat l then Some None
            else extract_loop pkt plen ext hops (p + 1 + unat l) p1 name2 (cp1 + 1) ret }) }
     else do {
       (cp1, ret1) \<leftarrow> cmp_label pkt (unat l) (p + 1) name cp ret;
       (cp2, ret2) \<leftarrow> cmp_dot name cp1 ret1;
       if plen \<le> p + 1 + unat l then Some None
       else extract_loop pkt plen ext hops (p + 1 + unat l) p1 name cp2 ret2 } }"
  by pat_completeness auto
termination
  by (relation "measures [\<lambda>(pkt, plen, ext, hops, p, p1, name, cp, ret). 256 - hops,
      \<lambda>(pkt, plen, ext, hops, p, p1, name, cp, ret). plen - p]") (auto dest: elt_label_pos)

declare extract_loop.simps [simp del]

definition extract_name ::
  "u8 list \<Rightarrow> nat \<Rightarrow> nat \<Rightarrow> u8 list \<Rightarrow> bool \<Rightarrow> (nat \<times> u8 list \<times> nat) option option" where
  "extract_name pkt plen pp name isExtract = do {
     name' \<leftarrow> (if isExtract then wr name 0 0 else Some name);
     extract_loop pkt plen isExtract 0 pp None name' 0 1 }"

section \<open>Skipping a name\<close>

text \<open>Every turn that goes on moves forward, and one that starts at \<^verbatim>\<open>plen\<close> or behind it gives up.\<close>

function skip_name :: "u8 list \<Rightarrow> nat \<Rightarrow> nat \<Rightarrow> nat option option" where
  "skip_name pkt plen ansp = do {
     l \<leftarrow> rd pkt ansp;
     let lt = l AND 0xC0;
     if plen \<le> ansp then Some None
     else if lt = 0xC0 then Some (Some (ansp + 2))
     else if lt = 0x80 then Some None
     else if lt = 0x40 then
       if l AND 0x3F \<noteq> 1 then Some None
       else do {
         b \<leftarrow> rd pkt (ansp + 1);
         skip_name pkt plen (ansp + 2 + (if b = 0 then 32 else (unat b - 1) div 8 + 1)) }
     else if l AND 0x3F = 0 then Some (Some (ansp + 1))
     else skip_name pkt plen (ansp + 1 + unat (l AND 0x3F)) }"
  by pat_completeness auto
termination
  by (relation "measure (\<lambda>(pkt, plen, ansp). plen - ansp)") auto

declare skip_name.simps [simp del]

section \<open>The names of a packet\<close>

text \<open>The text of a bit string label.\<close>

fun elt_hex :: "u8 list \<Rightarrow> nat \<Rightarrow> bool \<Rightarrow> nat \<Rightarrow> u8 list" where
  "elt_hex pkt 0 low p = []"
| "elt_hex pkt (Suc n) low p =
     (let dig = (if low then pkt ! p AND 15 else drop_bit 4 (pkt ! p)) in
      (if dig < 10 then dig + 48 else dig + 55) # elt_hex pkt n (\<not> low) (if low then p + 1 else p))"

definition elt_text :: "u8 list \<Rightarrow> u8 \<Rightarrow> nat \<Rightarrow> u8 list" where
  "elt_text pkt b p = [92, 91, 120] @ elt_hex pkt (elt_digs b) False p @ bytes_of (''/'' @ dec (elt_count b) @ '']'')"

text \<open>
  \<open>dname pkt plen h p ls q\<close>: the labels \<open>ls\<close> start at \<open>p\<close>, the name is read with \<open>h\<close> jumps, and the
  packet goes on at \<open>q\<close>.
\<close>

inductive dname :: "u8 list \<Rightarrow> nat \<Rightarrow> nat \<Rightarrow> nat \<Rightarrow> u8 list list \<Rightarrow> nat \<Rightarrow> bool" for pkt plen where
  root: "rd pkt p = Some 0 \<Longrightarrow> dname pkt plen 0 p [] (p + 1)"
| label: "rd pkt p = Some l \<Longrightarrow> l \<noteq> 0 \<Longrightarrow> l AND 0xC0 = 0 \<Longrightarrow> rdn pkt (p + 1) (unat l) = Some bs \<Longrightarrow>
    p + 1 + unat l < plen \<Longrightarrow> dname pkt plen h (p + 1 + unat l) ls q \<Longrightarrow> dname pkt plen h p (bs # ls) q"
| pointer: "rd pkt p = Some l \<Longrightarrow> l AND 0xC0 = 0xC0 \<Longrightarrow> p + 1 < plen \<Longrightarrow> rd pkt (p + 1) = Some b \<Longrightarrow>
    t = unat (l AND 0x3F) * 256 + unat b \<Longrightarrow> t < plen \<Longrightarrow> dname pkt plen h t ls q \<Longrightarrow>
    dname pkt plen (Suc h) p ls (p + 2)"
| bits: "rd pkt p = Some l \<Longrightarrow> l AND 0xC0 = 0x40 \<Longrightarrow> l AND 0x3F = 1 \<Longrightarrow> rd pkt (p + 1) = Some b \<Longrightarrow>
    p + 2 + (elt_count b - 1) div 8 < plen \<Longrightarrow> p + 2 + elt_digs b div 2 < plen \<Longrightarrow>
    dname pkt plen h (p + 2 + elt_digs b div 2) ls q \<Longrightarrow> dname pkt plen h p (elt_text pkt b (p + 2) # ls) q"

definition name_text :: "u8 list list \<Rightarrow> u8 list" where
  "name_text ls = concat (map (\<lambda>l. l @ [46]) ls)"

definition dotted_name :: "u8 list list \<Rightarrow> u8 list" where
  "dotted_name ls = butlast (name_text ls)"

definition plain :: "u8 list list \<Rightarrow> bool" where
  "plain ls \<longleftrightarrow> list_all (\<lambda>l. l \<noteq> [] \<and> list_all legal_char l) ls"

lemma name_text_simps [simp]: "name_text [] = []" "name_text (l # ls) = l @ 46 # name_text ls"
  by (simp_all add: name_text_def)

lemma legal_char_nonzero: "legal_char c \<Longrightarrow> c \<noteq> 0" "legal_char c \<Longrightarrow> c \<noteq> 46"
  by (auto simp: legal_char_def)

lemma bit_label_masks:
  "bit (0xC0 :: u8) n \<longleftrightarrow> n = 6 \<or> n = 7" "bit (0x80 :: u8) n \<longleftrightarrow> n = 7" "bit (0x40 :: u8) n \<longleftrightarrow> n = 6"
  "bit (0x3F :: u8) n \<longleftrightarrow> n < 6"
proof -
  have "n < 8 \<Longrightarrow> n = 0 \<or> n = 1 \<or> n = 2 \<or> n = 3 \<or> n = 4 \<or> n = 5 \<or> n = 6 \<or> n = 7" by arith
  then show "bit (0xC0 :: u8) n \<longleftrightarrow> n = 6 \<or> n = 7" "bit (0x80 :: u8) n \<longleftrightarrow> n = 7" "bit (0x40 :: u8) n \<longleftrightarrow> n = 6"
    "bit (0x3F :: u8) n \<longleftrightarrow> n < 6"
    using bit_imp_le_length[of "0xC0 :: u8" n] bit_imp_le_length[of "0x80 :: u8" n]
      bit_imp_le_length[of "0x40 :: u8" n] bit_imp_le_length[of "0x3F :: u8" n]
    by (cases "n < 8"; force)+
qed

lemma label_type_eq: "(l :: u8) AND 0xC0 = (if bit l 7 then 0x80 else 0) OR (if bit l 6 then 0x40 else 0)"
  by (rule bit_word_eqI) (auto simp: bit_and_iff bit_or_iff bit_label_masks simp del: bit_numeral_word_iff split: if_splits)

lemma label_type_cases: "(l :: u8) AND 0xC0 = 0 \<or> l AND 0xC0 = 0x40 \<or> l AND 0xC0 = 0x80 \<or> l AND 0xC0 = 0xC0"
  unfolding label_type_eq by simp

lemma label_low: "(l :: u8) AND 0xC0 = 0 \<Longrightarrow> l AND 0x3F = l"
proof -
  assume "l AND 0xC0 = 0"
  then have "\<not> bit l 6 \<and> \<not> bit l 7" by (metis bit_and_iff bit_label_masks(1) bit_0_eq bot_apply bot_bool_def)
  then have "bit l n \<Longrightarrow> n < 8 \<Longrightarrow> n < 6" for n by (cases "n = 6"; cases "n = 7") auto
  then show ?thesis
    by (intro bit_word_eqI) (auto simp: bit_and_iff bit_label_masks simp del: bit_numeral_word_iff)
qed

lemma label_length: "(l :: u8) AND 0xC0 = 0 \<Longrightarrow> unat l < 64"
proof -
  assume "l AND 0xC0 = 0"
  then have "l \<le> 0x3F" by (metis label_low word_and_le1)
  then show ?thesis by (simp add: word_le_nat_alt)
qed

text \<open>The writers of the name buffer append text.\<close>

lemma copy_label_text:
  assumes "p + n \<le> length pkt" "cp + n \<le> length name"
  shows "copy_label pkt n p name cp =
    Some (if list_all legal_char (slice pkt p n) then Some (blit name cp (slice pkt p n), cp + n) else None)"
  using assms
proof (induction n arbitrary: p name cp)
  case 0
  then show ?case by (simp add: slice_def blit_def)
next
  case (Suc n)
  have s: "slice pkt p (Suc n) = pkt ! p # slice pkt (p + 1) n" using Suc.prems by (simp add: slice_def Cons_nth_drop_Suc[symmetric])
  have b: "blit (name[cp := pkt ! p]) (cp + 1) (slice pkt (p + 1) n) = blit name cp (pkt ! p # slice pkt (p + 1) n)"
    using blit_blit[of cp "[pkt ! p]" "slice pkt (p + 1) n" name] Suc.prems by (simp add: update_blit)
  show ?case unfolding s using Suc by (simp add: rd_in wr_in b[simplified])
qed

lemma blit_snoc: "cp + length a < length m \<Longrightarrow> (blit m cp a)[cp + length a := c] = blit m cp (a @ [c])"
  by (simp add: update_blit blit_blit)

lemma length_elt_hex [simp]: "length (elt_hex pkt n low p) = n"
  by (induction pkt n low p rule: elt_hex.induct) (simp_all add: Let_def)

lemma elt_digits_text:
  assumes "p + (n + (if low then 1 else 0) + 1) div 2 \<le> length pkt" "cp + n \<le> length name"
  shows "elt_digits pkt n low p name cp = Some (p + (n + (if low then 1 else 0)) div 2, blit name cp (elt_hex pkt n low p), cp + n)"
  using assms
proof (induction n arbitrary: low p name cp)
  case 0
  then show ?case by (simp add: blit_def)
next
  case (Suc n)
  let ?d = "if low then pkt ! p AND 15 else drop_bit 4 (pkt ! p)"
  let ?c = "if ?d < 10 then ?d + 48 else ?d + 55"
  let ?p = "if low then p + 1 else p"
  have p: "p < length pkt" using Suc.prems(1) by (auto split: if_splits)
  have b: "blit (name[cp := ?c]) (cp + 1) (elt_hex pkt n (\<not> low) ?p) = blit name cp (?c # elt_hex pkt n (\<not> low) ?p)"
    using blit_blit[of cp "[?c]" "elt_hex pkt n (\<not> low) ?p" name] Suc.prems(2)
    by (simp add: update_blit)
  have "elt_digits pkt n (\<not> low) ?p (name[cp := ?c]) (cp + 1) =
      Some (?p + (n + (if \<not> low then 1 else 0)) div 2, blit (name[cp := ?c]) (cp + 1) (elt_hex pkt n (\<not> low) ?p), cp + 1 + n)"
    by (rule Suc.IH) (use Suc.prems in \<open>auto split: if_splits\<close>)
  then show ?case using p Suc.prems(2) unfolding elt_digits.simps elt_hex.simps Let_def
    by (simp only: rd_in wr_in bind.simps b less_le_trans[of cp "cp + Suc n" "length name"]) auto
qed

lemma elt_count_bounds: "0 < elt_count b" "elt_count b \<le> 256"
  using unat_u8[of b] by (auto simp: elt_count_def unat_gt_0)

lemma length_elt_text: "length (elt_text pkt b p) \<le> elt_digs b + 8" "0 < length (elt_text pkt b p)"
  using length_dec_le3[of "elt_count b"] elt_count_bounds[of b] by (simp_all add: elt_text_def)

lemma elt_label_text:
  assumes "p + (elt_count b - 1) div 8 < length pkt" "cp + elt_digs b + 9 \<le> length name"
  shows "elt_label pkt b p name cp =
    Some (p + elt_digs b div 2, blit name cp (elt_text pkt b p @ [46]), cp + length (elt_text pkt b p) + 1)"
proof -
  let ?h = "elt_hex pkt (elt_digs b) False p" and ?t = "bytes_of (''/'' @ dec (elt_count b) @ '']'')"
  have t: "elt_text pkt b p = ([92, 91, 120] @ ?h) @ ?t" "length ?t \<le> 5"
    using length_dec_le3[of "elt_count b"] elt_count_bounds[of b] by (simp_all add: elt_text_def)
  have "p + (elt_digs b + 1) div 2 \<le> length pkt" using assms(1) by (simp add: elt_digs_def)
  then have d: "elt_digits pkt (elt_digs b) False p (blit name cp [92, 91, 120]) (cp + 3) =
      Some (p + elt_digs b div 2, blit name cp ([92, 91, 120] @ ?h), cp + 3 + elt_digs b)"
    using assms(2) blit_blit[of cp "[92, 91, 120]" ?h name] by (subst elt_digits_text) (simp_all add: numeral_3_eq_3)
  have "blit (blit name cp ([92, 91, 120] @ ?h)) (cp + 3 + elt_digs b) (?t @ [0]) = blit name cp (elt_text pkt b p @ [0])"
    using blit_blit[of cp "[92, 91, 120] @ ?h" "?t @ [0]" name] assms(2) t by (simp add: add.assoc numeral_3_eq_3)
  then have m: "memcpy (blit name cp ([92, 91, 120] @ ?h)) (cp + 3 + elt_digs b) (?t @ [0]) = Some (blit name cp (elt_text pkt b p @ [0]))"
    using assms(2) t(2) by (simp add: memcpy_def)
  have l: "cp + 3 + elt_digs b + length ?t = cp + length (elt_text pkt b p)" by (simp add: t(1))
  have "(blit name cp (elt_text pkt b p @ [0]))[cp + length (elt_text pkt b p) := 46] = blit name cp (elt_text pkt b p @ [46])"
    using assms(2) length_elt_text(1)[of pkt b p] by (simp add: blit_def list_update_append)
  then have w: "wr (blit name cp (elt_text pkt b p @ [0])) (cp + length (elt_text pkt b p)) 46 = Some (blit name cp (elt_text pkt b p @ [46]))"
    using assms(2) length_elt_text(1)[of pkt b p] by (simp add: wr_def)
  have "memcpy name cp [92, 91, 120] = Some (blit name cp [92, 91, 120])" using assms(2) by (simp add: memcpy_def)
  then show ?thesis unfolding elt_label_def Let_def by (simp only: bind.simps prod.case d m l w)
qed

lemma elt_hex_nonzero: "0 \<notin> set (elt_hex pkt n low p)"
proof (induction pkt n low p rule: elt_hex.induct)
  case (2 pkt n low p)
  have n: "(x :: u8) \<le> 15 \<Longrightarrow> (if x < 10 then x + 48 else x + 55) \<noteq> 0" for x by (auto simp: word_le_nat_alt word_less_nat_alt unat_word_ariths dest!: arg_cong[where f = unat])
  have "drop_bit 4 (pkt ! p) \<le> 15" using unat_u8[of "pkt ! p"] by (simp add: word_le_nat_alt drop_bit_eq_div unat_div)
  moreover have "pkt ! p AND 15 \<le> 15" by (rule word_and_le1)
  ultimately show ?case using n 2 by (auto simp: Let_def)
qed simp

lemma elt_text_nonzero: "0 \<notin> set (elt_text pkt b p)"
proof -
  have "of_nat (of_char c) \<noteq> (0 :: u8)" if "is_digit c" for c
  proof -
    have "(of_char c :: nat) < 256" "0 < (of_char c :: nat)" using that by (auto simp: is_digit_def)
    then show ?thesis by (metis less_irrefl unat_0 unat_of_nat_u8_small)
  qed
  then have "0 \<notin> set (bytes_of (dec n))" for n using dec_digits[of n] by (auto simp: bytes_of_def list_all_iff)
  then show ?thesis using elt_hex_nonzero by (simp add: elt_text_def bytes_of_def)
qed

text \<open>One pass of the loop when a name is extracted.\<close>

lemma extract_step_root:
  assumes "rd pkt p = Some 0" "cp - 1 < length name"
  shows "extract_loop pkt plen True hops p p1 name cp ret =
    Some (Some (ret, name[cp - 1 := 0], case p1 of None \<Rightarrow> p + 1 | Some q \<Rightarrow> q))"
  using assms by (subst extract_loop.simps) (cases cp; simp add: wr_in)

lemma extract_step_pointer:
  assumes "rd pkt p = Some l" "l AND 0xC0 = 0xC0" "p + 1 < plen" "rd pkt (p + 1) = Some b"
  shows "extract_loop pkt plen ext hops p p1 name cp ret =
    (let t = unat (l AND 0x3F) * 256 + unat b in
     if plen \<le> t \<or> 255 < hops + 1 then Some None
     else extract_loop pkt plen ext (hops + 1) t (case p1 of None \<Rightarrow> Some (p + 2) | Some r \<Rightarrow> Some r) name cp ret)"
proof -
  have "l \<noteq> 0" using assms(2) by auto
  with assms show ?thesis by (subst extract_loop.simps) (simp add: Let_def)
qed

lemma extract_step_label:
  assumes "rd pkt p = Some l" "l \<noteq> 0" "l AND 0xC0 = 0" "p + 1 + unat l \<le> length pkt" "length name = MAXDNAME"
  shows "extract_loop pkt plen True hops p p1 name cp ret =
    (if MAXDNAME \<le> cp + unat l + 1 \<or> plen \<le> p + 1 + unat l \<or> \<not> list_all legal_char (slice pkt (p + 1) (unat l)) then Some None
     else extract_loop pkt plen True hops (p + 1 + unat l) p1 (blit name cp (slice pkt (p + 1) (unat l) @ [46]))
       (cp + unat l + 1) ret)"
proof (cases "MAXDNAME \<le> cp + unat l + 1")
  case True
  with assms show ?thesis by (subst extract_loop.simps) simp
next
  case False
  let ?bs = "slice pkt (p + 1) (unat l)"
  have c: "copy_label pkt (unat l) (p + 1) name cp =
      Some (if list_all legal_char ?bs then Some (blit name cp ?bs, cp + unat l) else None)"
    using False assms(4,5) by (intro copy_label_text) simp_all
  have len: "length ?bs = unat l" using assms(4) by simp
  have "wr (blit name cp ?bs) (cp + unat l) 46 = Some (blit name cp (?bs @ [46]))"
    using False assms(5) blit_snoc[of cp ?bs name 46] len by (simp add: wr_in)
  with False assms c show ?thesis by (subst extract_loop.simps) (simp add: Let_def)
qed

lemma extract_step_bits:
  assumes "rd pkt p = Some l" "l AND 0xC0 = 0x40" "rd pkt (p + 1) = Some b" "plen \<le> length pkt" "length name = MAXDNAME"
  shows "extract_loop pkt plen True hops p p1 name cp ret =
    (if l AND 0x3F \<noteq> 1 \<or> MAXDNAME \<le> cp + elt_digs b + 9 \<or> plen \<le> p + 2 + (elt_count b - 1) div 8 \<or>
        plen \<le> p + 2 + elt_digs b div 2 then Some None
     else extract_loop pkt plen True hops (p + 2 + elt_digs b div 2) p1 (blit name cp (elt_text pkt b (p + 2) @ [46]))
       (cp + length (elt_text pkt b (p + 2)) + 1) ret)"
proof -
  have nz: "l \<noteq> 0" using assms(2) by auto
  show ?thesis
  proof (cases "l AND 0x3F \<noteq> 1 \<or> MAXDNAME \<le> cp + elt_digs b + 9 \<or> plen \<le> p + 2 + (elt_count b - 1) div 8")
    case True
    with assms nz show ?thesis by (subst extract_loop.simps) (auto simp: Let_def)
  next
    case False
    then have "elt_label pkt b (p + 2) name cp = Some (p + 2 + elt_digs b div 2,
        blit name cp (elt_text pkt b (p + 2) @ [46]), cp + length (elt_text pkt b (p + 2)) + 1)"
      using assms(4,5) by (intro elt_label_text) simp_all
    with False assms nz show ?thesis by (subst extract_loop.simps) (simp add: Let_def)
  qed
qed

lemma extract_step_end:
  assumes "rd pkt p = Some l" "l AND 0xC0 = 0x80 \<or> l AND 0xC0 = 0xC0 \<and> plen \<le> p + 1"
  shows "extract_loop pkt plen ext hops p p1 name cp ret = Some None"
proof -
  have "l \<noteq> 0" using assms(2) by auto
  with assms show ?thesis by (subst extract_loop.simps) auto
qed

text \<open>
  What a run of the loop has extracted: a name of the packet, appended to what the buffer held
  before \<open>cp\<close>, with its final dot overwritten.
\<close>

definition extracted ::
  "u8 list \<Rightarrow> nat \<Rightarrow> nat \<Rightarrow> nat \<Rightarrow> nat option \<Rightarrow> u8 list \<Rightarrow> nat \<Rightarrow> nat \<Rightarrow> (nat \<times> u8 list \<times> nat) option \<Rightarrow> bool" where
  "extracted pkt plen hops p p1 name cp ret r \<longleftrightarrow> (\<forall>v name' q. r = Some (v, name', q) \<longrightarrow> v = ret \<and>
     (\<exists>h ls q'. dname pkt plen h p ls q' \<and> hops + h \<le> 255 \<and> q = (case p1 of None \<Rightarrow> q' | Some x \<Rightarrow> x) \<and>
        0 \<notin> set (name_text ls) \<and> cp + length (name_text ls) < MAXDNAME \<and>
        name' = (blit name cp (name_text ls))[cp + length (name_text ls) - 1 := 0]))"

lemma extracted_none [simp]: "extracted pkt plen hops p p1 name cp ret None"
  by (simp add: extracted_def)

lemma extracted_prepend:
  assumes "extracted pkt plen hops p' p1 (blit name cp (bs @ [46])) (cp + length bs + 1) ret r"
    "\<And>h ls q. dname pkt plen h p' ls q \<Longrightarrow> dname pkt plen h p (bs # ls) q" "0 \<notin> set bs" "length name = MAXDNAME"
  shows "extracted pkt plen hops p p1 name cp ret r"
  unfolding extracted_def
proof (intro allI impI)
  fix v name' q
  assume "r = Some (v, name', q)"
  with assms(1) obtain h ls q' where
    1: "v = ret" "dname pkt plen h p' ls q'" "hops + h \<le> 255" "q = (case p1 of None \<Rightarrow> q' | Some x \<Rightarrow> x)"
    "0 \<notin> set (name_text ls)" "cp + length bs + 1 + length (name_text ls) < MAXDNAME"
    "name' = (blit (blit name cp (bs @ [46])) (cp + length bs + 1) (name_text ls))[cp + length bs + 1 + length (name_text ls) - 1 := 0]"
    unfolding extracted_def by blast
  have "blit (blit name cp (bs @ [46])) (cp + length bs + 1) (name_text ls) = blit name cp (name_text (bs # ls))"
    using blit_blit[of cp "bs @ [46]" "name_text ls" name] 1(6) assms(4) by simp
  then have "name' = (blit name cp (name_text (bs # ls)))[cp + length (name_text (bs # ls)) - 1 := 0]"
    using 1(7) by (simp add: add.assoc)
  then show "v = ret \<and> (\<exists>h ls q'. dname pkt plen h p ls q' \<and> hops + h \<le> 255 \<and> q = (case p1 of None \<Rightarrow> q' | Some x \<Rightarrow> x) \<and>
        0 \<notin> set (name_text ls) \<and> cp + length (name_text ls) < MAXDNAME \<and>
        name' = (blit name cp (name_text ls))[cp + length (name_text ls) - 1 := 0])"
    using 1 assms(2)[OF 1(2)] assms(3) by (intro conjI exI[of _ h] exI[of _ "bs # ls"] exI[of _ q']) auto
qed

text \<open>
  Extraction ends and stays inside both buffers; 64 bytes behind the packet are enough for the
  last label.
\<close>

lemma extract_loop_sound:
  assumes "plen + 64 \<le> length pkt" "p \<le> plen" "length name = MAXDNAME" "cp < MAXDNAME" "hops \<le> 255"
  shows "\<exists>r. extract_loop pkt plen True hops p p1 name cp ret = Some r \<and> extracted pkt plen hops p p1 name cp ret r"
  using assms
proof (induction "(256 - hops) * (plen + 1) + (plen - p)" arbitrary: hops p p1 name cp rule: less_induct)
  case less
  note pk = less.prems(1) and p = less.prems(2) and nm = less.prems(3,4) and hp = less.prems(5)
  obtain l where l: "rd pkt p = Some l" using pk p by (simp add: rd_in)
  consider (zero) "l = 0" | (stop) "l AND 0xC0 = 0x80 \<or> l AND 0xC0 = 0xC0 \<and> plen \<le> p + 1"
    | (jump) "l AND 0xC0 = 0xC0" "p + 1 < plen" | (bits) "l AND 0xC0 = 0x40" | (label) "l \<noteq> 0" "l AND 0xC0 = 0"
    using label_type_cases[of l] by force
  then show ?case
  proof cases
    case zero
    then have "dname pkt plen 0 p [] (p + 1)" using l dname.root by simp
    then show ?thesis unfolding extract_step_root[OF l[unfolded zero] less_imp_diff_less[OF nm(2)[folded nm(1)]]]
      using hp nm unfolding extracted_def by (fastforce simp: blit_def split: option.splits)
  next
    case stop
    with extract_step_end[OF l] show ?thesis by simp
  next
    case jump
    then obtain b where b: "rd pkt (p + 1) = Some b" using pk by (simp add: rd_in)
    define t where "t = unat (l AND 0x3F) * 256 + unat b"
    let ?p1 = "case p1 of None \<Rightarrow> Some (p + 2) | Some r \<Rightarrow> Some r"
    note st = extract_step_pointer[OF l jump b, of True hops p1 name cp ret, unfolded Let_def t_def[symmetric]]
    show ?thesis
    proof (cases "plen \<le> t \<or> 255 < hops + 1")
      case False
      then have "256 - hops = Suc (256 - (hops + 1))" by arith
      then have m: "(256 - (hops + 1)) * (plen + 1) + (plen - t) < (256 - hops) * (plen + 1) + (plen - p)" by simp
      from less.hyps[OF m pk _ nm, of ?p1] False obtain r where
        r: "extract_loop pkt plen True (hops + 1) t ?p1 name cp ret = Some r" "extracted pkt plen (hops + 1) t ?p1 name cp ret r" by auto
      have "extracted pkt plen hops p p1 name cp ret r"
        unfolding extracted_def
      proof (intro allI impI)
        fix v name' q assume "r = Some (v, name', q)"
        with r(2) obtain h ls q' where "v = ret" "dname pkt plen h t ls q'" "hops + 1 + h \<le> 255"
          "q = (case p1 of None \<Rightarrow> p + 2 | Some x \<Rightarrow> x)" "0 \<notin> set (name_text ls)" "cp + length (name_text ls) < MAXDNAME"
          "name' = (blit name cp (name_text ls))[cp + length (name_text ls) - 1 := 0]"
          unfolding extracted_def by (cases p1) auto
        with dname.pointer[OF l jump b t_def] False
        show "v = ret \<and> (\<exists>h ls q'. dname pkt plen h p ls q' \<and> hops + h \<le> 255 \<and> q = (case p1 of None \<Rightarrow> q' | Some x \<Rightarrow> x) \<and>
          0 \<notin> set (name_text ls) \<and> cp + length (name_text ls) < MAXDNAME \<and>
          name' = (blit name cp (name_text ls))[cp + length (name_text ls) - 1 := 0])"
          by (intro conjI exI[of _ "Suc h"] exI[of _ ls] exI[of _ "p + 2"]) auto
      qed
      with r(1) False show ?thesis unfolding st by auto
    qed (simp add: st)
  next
    case bits
    obtain b where b: "rd pkt (p + 1) = Some b" using pk p by (simp add: rd_in)
    let ?t = "elt_text pkt b (p + 2)" and ?p = "p + 2 + elt_digs b div 2"
    have "plen \<le> length pkt" using pk by simp
    note st = extract_step_bits[OF l bits b this nm(1), of hops p1 cp ret]
    show ?thesis
    proof (cases "l AND 0x3F \<noteq> 1 \<or> MAXDNAME \<le> cp + elt_digs b + 9 \<or> plen \<le> p + 2 + (elt_count b - 1) div 8 \<or> plen \<le> ?p")
      case False
      have m: "(256 - hops) * (plen + 1) + (plen - ?p) < (256 - hops) * (plen + 1) + (plen - p)"
        by (rule add_strict_left_mono) (use False in auto)
      have c: "length (blit name cp (?t @ [46])) = MAXDNAME" "cp + length ?t + 1 < MAXDNAME"
        using False nm length_elt_text(1)[of pkt b "p + 2"] by auto
      from less.hyps[OF m pk _ c hp, of p1] False obtain r where
        r: "extract_loop pkt plen True hops ?p p1 (blit name cp (?t @ [46])) (cp + length ?t + 1) ret = Some r"
        "extracted pkt plen hops ?p p1 (blit name cp (?t @ [46])) (cp + length ?t + 1) ret r" by auto
      from extracted_prepend[OF r(2) dname.bits[OF l bits _ b] elt_text_nonzero nm(1)] False r(1) show ?thesis unfolding st by auto
    qed (simp add: st)
  next
    case label
    let ?bs = "slice pkt (p + 1) (unat l)" and ?p = "p + 1 + unat l"
    have e: "?p \<le> length pkt" using pk p label_length[OF label(2)] by simp
    note st = extract_step_label[OF l label e nm(1), of plen hops p1 cp ret]
    show ?thesis
    proof (cases "MAXDNAME \<le> cp + unat l + 1 \<or> plen \<le> ?p \<or> \<not> list_all legal_char ?bs")
      case False
      have m: "(256 - hops) * (plen + 1) + (plen - ?p) < (256 - hops) * (plen + 1) + (plen - p)"
        by (rule add_strict_left_mono) (use False in auto)
      have c: "length (blit name cp (?bs @ [46])) = MAXDNAME" "cp + unat l + 1 < MAXDNAME" using False nm e by auto
      from less.hyps[OF m pk _ c hp, of p1] False obtain r where
        r: "extract_loop pkt plen True hops ?p p1 (blit name cp (?bs @ [46])) (cp + unat l + 1) ret = Some r"
        "extracted pkt plen hops ?p p1 (blit name cp (?bs @ [46])) (cp + length ?bs + 1) ret r" using e by auto
      have "rdn pkt (p + 1) (unat l) = Some ?bs" "0 \<notin> set ?bs" using e False legal_char_nonzero(1) by (auto simp: rdn_def list_all_iff)
      from extracted_prepend[OF r(2) dname.label[OF l label this(1)] this(2) nm(1)] False r(1) show ?thesis unfolding st by auto
    qed (simp add: st)
  qed
qed

section \<open>Names of legal labels\<close>

lemma plain_simps [simp]:
  "plain []" "plain (l # ls) \<longleftrightarrow> l \<noteq> [] \<and> list_all legal_char l \<and> plain ls"
  by (simp_all add: plain_def)

lemma elt_text_not_plain: "\<not> list_all legal_char (elt_text pkt b p)"
  by (simp add: elt_text_def legal_char_def)

lemma label_slice:
  "rdn pkt (p + 1) (unat l) = Some bs \<Longrightarrow> bs = slice pkt (p + 1) (unat l) \<and> length bs = unat l \<and> p + 1 + unat l \<le> length pkt"
  by (auto simp: rdn_def split: if_splits)

lemma extract_loop_complete:
  assumes "dname pkt plen h p ls q" "plain ls" "hops + h \<le> 255" "cp + length (name_text ls) < MAXDNAME" "length name = MAXDNAME"
  shows "extract_loop pkt plen True hops p p1 name cp ret =
    Some (Some (ret, (blit name cp (name_text ls))[cp + length (name_text ls) - 1 := 0], case p1 of None \<Rightarrow> q | Some x \<Rightarrow> x))"
  using assms
proof (induction arbitrary: hops p1 name cp rule: dname.induct)
  case (root p)
  then show ?case by (subst extract_step_root) (simp_all add: blit_def)
next
  case (label p l bs h ls q)
  note b = label_slice[OF label.hyps(4)]
  have c: "blit (blit name cp (bs @ [46])) (cp + unat l + 1) (name_text ls) = blit name cp (name_text (bs # ls))"
    using blit_blit[of cp "bs @ [46]" "name_text ls" name] label.prems(3,4) b by simp
  have "extract_loop pkt plen True hops (p + 1 + unat l) p1 (blit name cp (bs @ [46])) (cp + unat l + 1) ret =
      Some (Some (ret, (blit name cp (name_text (bs # ls)))[cp + unat l + 1 + length (name_text ls) - 1 := 0],
        case p1 of None \<Rightarrow> q | Some x \<Rightarrow> x))"
    unfolding c[symmetric] by (rule label.IH) (use label.prems b in simp_all)
  then show ?case using label.prems label.hyps(5) b
    by (subst extract_step_label[OF label.hyps(1-3) _ label.prems(4)]) (simp_all add: add.assoc)
next
  case (pointer p l b t h ls q)
  have "extract_loop pkt plen True (hops + 1) t (case p1 of None \<Rightarrow> Some (p + 2) | Some r \<Rightarrow> Some r) name cp ret =
      Some (Some (ret, (blit name cp (name_text ls))[cp + length (name_text ls) - 1 := 0], case p1 of None \<Rightarrow> p + 2 | Some x \<Rightarrow> x))"
    using pointer.IH[of "hops + 1" cp name "case p1 of None \<Rightarrow> Some (p + 2) | Some r \<Rightarrow> Some r"] pointer.prems
    by (simp split: option.splits)
  then show ?case
    unfolding extract_step_pointer[OF pointer.hyps(1-4)] Let_def pointer.hyps(5)[symmetric]
    using pointer.hyps(6) pointer.prems(2) by simp
next
  case (bits p l b h ls q)
  then show ?case using elt_text_not_plain by simp
qed

lemma skip_name_complete: "dname pkt plen h p ls q \<Longrightarrow> plain ls \<Longrightarrow> p < plen \<Longrightarrow> skip_name pkt plen p = Some (Some q)"
proof (induction rule: dname.induct)
  case (root p)
  then show ?case by (subst skip_name.simps) simp
next
  case (label p l bs h ls q)
  then show ?case using label_low[OF label.hyps(3)] by (subst skip_name.simps) simp
next
  case (pointer p l b t h ls q)
  then show ?case by (subst skip_name.simps) simp
next
  case (bits p l b h ls q)
  then show ?case using elt_text_not_plain by simp
qed

text \<open>A C string in the name buffer, and the comparison with it.\<close>

definition cstring_at :: "u8 list \<Rightarrow> nat \<Rightarrow> u8 list \<Rightarrow> bool" where
  "cstring_at nm cp s \<longleftrightarrow> cp + length s < length nm \<and> slice nm cp (length s) = s \<and> nm ! (cp + length s) = 0 \<and> 0 \<notin> set s"

lemma cstring_at_Nil [simp]: "cstring_at nm cp [] \<longleftrightarrow> cp < length nm \<and> nm ! cp = 0"
  by (simp add: cstring_at_def slice_def)

lemma cstring_at_Cons [simp]:
  "cstring_at nm cp (c # s) \<longleftrightarrow> cp < length nm \<and> nm ! cp = c \<and> c \<noteq> 0 \<and> cstring_at nm (Suc cp) s"
  by (auto simp: cstring_at_def slice_def Cons_nth_drop_Suc[symmetric])

lemma cmp_label_rest:
  assumes "cstring_at nm cp rest" "p + n \<le> length pkt" "ret = 1 \<or> ret = 2"
  shows "\<exists>cp' ret' rest'. cmp_label pkt n p nm cp ret = Some (cp', ret') \<and> cstring_at nm cp' rest' \<and> cp' \<le> cp + n \<and>
    (ret' = 1 \<or> ret' = 2) \<and> (ret' = 1 \<longleftrightarrow> ret = 1 \<and> n \<le> length rest \<and> map lower8 (take n rest) = map lower8 (slice pkt p n)) \<and>
    (ret' = 1 \<longrightarrow> rest' = drop n rest)"
  using assms
proof (induction n arbitrary: p cp ret rest)
  case 0
  then show ?case by (auto simp: slice_def)
next
  case (Suc n)
  have s: "slice pkt p (Suc n) = pkt ! p # slice pkt (Suc p) n" using Suc.prems(2) by (simp add: slice_def Cons_nth_drop_Suc[symmetric])
  show ?case
  proof (cases rest)
    case Nil
    have "cstring_at nm cp []" "p + 1 + n \<le> length pkt" "(2 :: nat) = 1 \<or> (2 :: nat) = 2" using Suc.prems Nil by auto
    from Suc.IH[OF this] obtain cp' ret' rest' where
      1: "cmp_label pkt n (p + 1) nm cp 2 = Some (cp', ret')" "cstring_at nm cp' rest'" "cp' \<le> cp + n" "ret' = 1 \<or> ret' = 2"
      "ret' = 1 \<longleftrightarrow> (2 :: nat) = 1 \<and> n \<le> length ([] :: u8 list) \<and> map lower8 (take n []) = map lower8 (slice pkt (p + 1) n)"
      by (elim exE conjE) (rule that)
    have "cmp_label pkt (Suc n) p nm cp ret = Some (cp', ret')" using Suc.prems Nil 1(1) by (simp add: rd_in)
    moreover have "cp' \<le> cp + Suc n" "\<not> Suc n \<le> length rest" "ret' \<noteq> 1" using 1(3,5) Nil by simp_all
    ultimately show ?thesis using 1(2,4) by blast
  next
    case (Cons c r)
    let ?ret = "if lower8 c = lower8 (pkt ! p) then ret else 2"
    have "cstring_at nm (cp + 1) r" "p + 1 + n \<le> length pkt" "?ret = 1 \<or> ?ret = 2" using Suc.prems Cons by auto
    from Suc.IH[OF this] obtain cp' ret' rest' where
      1: "cmp_label pkt n (p + 1) nm (cp + 1) ?ret = Some (cp', ret')" "cstring_at nm cp' rest'" "cp' \<le> cp + 1 + n"
      "ret' = 1 \<or> ret' = 2"
      "ret' = 1 \<longleftrightarrow> ?ret = 1 \<and> n \<le> length r \<and> map lower8 (take n r) = map lower8 (slice pkt (p + 1) n)"
      "ret' = 1 \<longrightarrow> rest' = drop n r" by (elim exE conjE) (rule that)
    have "cmp_label pkt (Suc n) p nm cp ret = Some (cp', ret')" using Suc.prems Cons 1(1) by (simp add: rd_in)
    moreover have "?ret = 1 \<longleftrightarrow> ret = 1 \<and> lower8 c = lower8 (pkt ! p)" by simp
    then have "ret' = 1 \<longleftrightarrow> ret = 1 \<and> Suc n \<le> length rest \<and> map lower8 (take (Suc n) rest) = map lower8 (slice pkt p (Suc n))"
      unfolding 1(5) s Cons by auto
    moreover have "cp' \<le> cp + Suc n" "ret' = 1 \<longrightarrow> rest' = drop (Suc n) rest" using 1(3,6) Cons by simp_all
    ultimately show ?thesis using 1(2,4) by blast
  qed
qed

text \<open>The string \<open>rest\<close> matches the labels; a final dot is allowed.\<close>

fun matches :: "u8 list list \<Rightarrow> u8 list \<Rightarrow> bool" where
  "matches [] rest \<longleftrightarrow> rest = []"
| "matches (l # ls) rest \<longleftrightarrow> length l \<le> length rest \<and> map lower8 (take (length l) rest) = map lower8 l \<and>
     (case drop (length l) rest of [] \<Rightarrow> matches ls [] | c # r \<Rightarrow> c = 46 \<and> matches ls r)"

lemma extract_loop_compare:
  assumes "dname pkt plen h p ls q" "plain ls" "hops + h \<le> 255" "cp + length (name_text ls) < MAXDNAME" "cstring_at nm cp rest"
    "ret = 1 \<or> ret = 2"
  shows "\<exists>r. extract_loop pkt plen False hops p p1 nm cp ret = Some (Some (r, nm, case p1 of None \<Rightarrow> q | Some x \<Rightarrow> x)) \<and>
    (r = 1 \<or> r = 2) \<and> (r = 1 \<longleftrightarrow> ret = 1 \<and> matches ls rest)"
  using assms
proof (induction arbitrary: hops p1 cp rest ret rule: dname.induct)
  case (root p)
  have "cp < length nm" "nm ! cp = 0 \<longleftrightarrow> rest = []" using root.prems(4) by (cases rest; simp)+
  then show ?case using root.hyps root.prems(5) by (subst extract_loop.simps) (auto simp: rd_in)
next
  case (label p l bs h ls q)
  note b = label_slice[OF label.hyps(4)]
  obtain cp1 ret1 rest1 where 1: "cmp_label pkt (unat l) (p + 1) nm cp ret = Some (cp1, ret1)" "cstring_at nm cp1 rest1" "cp1 \<le> cp + unat l"
    "ret1 = 1 \<or> ret1 = 2" "ret1 = 1 \<longleftrightarrow> ret = 1 \<and> length bs \<le> length rest \<and> map lower8 (take (length bs) rest) = map lower8 bs"
    "ret1 = 1 \<longrightarrow> rest1 = drop (length bs) rest"
    using cmp_label_rest[OF label.prems(4), of "p + 1" "unat l" pkt ret] label.prems(5) b by auto
  define ret2 where "ret2 = (case rest1 of [] \<Rightarrow> ret1 | c # r \<Rightarrow> if c = 46 then ret1 else 2)"
  define cp2 where "cp2 = (case rest1 of [] \<Rightarrow> cp1 | c # r \<Rightarrow> cp1 + 1)"
  have d: "cmp_dot nm cp1 ret1 = Some (cp2, ret2)" "cstring_at nm cp2 (tl rest1)" "cp2 \<le> cp1 + 1" "ret2 = 1 \<or> ret2 = 2"
    using 1(2,4) by (cases rest1; simp add: cmp_dot_def rd_in ret2_def cp2_def)+
  have "cp2 + length (name_text ls) < MAXDNAME" "plain ls" using label.prems(1,3) 1(3) d(3) b by simp_all
  from label.IH[OF this(2) label.prems(2) this(1) d(2,4), of p1] obtain r where
    r: "extract_loop pkt plen False hops (p + 1 + unat l) p1 nm cp2 ret2 = Some (Some (r, nm, case p1 of None \<Rightarrow> q | Some x \<Rightarrow> x))"
    "r = 1 \<or> r = 2" "r = 1 \<longleftrightarrow> ret2 = 1 \<and> matches ls (tl rest1)" by blast
  have "extract_loop pkt plen False hops p p1 nm cp ret = extract_loop pkt plen False hops (p + 1 + unat l) p1 nm cp2 ret2"
    using label.hyps label.prems(3) b 1(1) d(1) by (subst extract_loop.simps) (simp add: Let_def)
  moreover have "ret2 = 1 \<and> matches ls (tl rest1) \<longleftrightarrow> ret = 1 \<and> matches (bs # ls) rest"
    using 1(5,6) by (auto simp: ret2_def split: list.splits if_splits)
  ultimately show ?case using r by auto
next
  case (pointer p l b t h ls q)
  from pointer.IH[of "hops + 1" cp rest ret "case p1 of None \<Rightarrow> Some (p + 2) | Some r \<Rightarrow> Some r"] pointer.prems obtain r where
    "extract_loop pkt plen False (hops + 1) t (case p1 of None \<Rightarrow> Some (p + 2) | Some r \<Rightarrow> Some r) nm cp ret =
      Some (Some (r, nm, case p1 of None \<Rightarrow> p + 2 | Some x \<Rightarrow> x))" "r = 1 \<or> r = 2" "r = 1 \<longleftrightarrow> ret = 1 \<and> matches ls rest"
    by (auto split: option.splits)
  then show ?case
    unfolding extract_step_pointer[OF pointer.hyps(1-4)] Let_def pointer.hyps(5)[symmetric]
    using pointer.hyps(6) pointer.prems(2) by simp
next
  case (bits p l b h ls q)
  then show ?case using elt_text_not_plain by simp
qed

lemma hostname_isequal_iff: "hostname_isequal a b \<longleftrightarrow> map lower8 a = map lower8 b"
  by (induction a b rule: hostname_isequal.induct) auto

lemma lower8_dot [simp]: "lower8 c = 46 \<longleftrightarrow> c = 46" "lower8 46 = 46"
  by (auto simp: lower8_def word_le_nat_alt unat_word_ariths dest!: arg_cong[where f = unat])

lemma dotted_name_simps [simp]:
  "dotted_name [] = []" "dotted_name (l # ls) = (if ls = [] then l else l @ 46 # dotted_name ls)"
  by (cases ls; simp add: dotted_name_def butlast_append)+

lemma dotted_name_nonempty: "plain ls \<Longrightarrow> ls \<noteq> [] \<Longrightarrow> dotted_name ls \<noteq> []"
  by (cases ls) auto

lemma matches_iff:
  "plain ls \<Longrightarrow> matches ls rest \<longleftrightarrow>
     map lower8 rest = map lower8 (dotted_name ls) \<or> ls \<noteq> [] \<and> map lower8 rest = map lower8 (name_text ls)"
proof (induction ls arbitrary: rest)
  case (Cons l ls)
  then have pl: "plain ls" by simp
  show ?case
  proof (cases "length l \<le> length rest")
    case True
    define a r where "a = take (length l) rest" and "r = drop (length l) rest"
    have rest: "rest = a @ r" and la: "length a = length l" using True by (simp_all add: a_def r_def)
    have sp: "map lower8 rest = map lower8 l @ Y \<longleftrightarrow> map lower8 a = map lower8 l \<and> map lower8 r = Y" for Y
      using la by (simp add: rest)
    have "matches (l # ls) rest \<longleftrightarrow> map lower8 a = map lower8 l \<and> (case r of [] \<Rightarrow> matches ls [] | c # r \<Rightarrow> c = 46 \<and> matches ls r)"
      using la by (simp add: rest)
    also have "(case r of [] \<Rightarrow> matches ls [] | c # r \<Rightarrow> c = 46 \<and> matches ls r) \<longleftrightarrow>
        (if ls = [] then map lower8 r = [] else map lower8 r = 46 # map lower8 (dotted_name ls)) \<or> map lower8 r = 46 # map lower8 (name_text ls)"
      using Cons.IH[OF pl] dotted_name_nonempty[OF pl] by (cases r) (auto simp: dotted_name_def)
    finally show ?thesis using sp[of "[]"] sp[of "46 # map lower8 (dotted_name ls)"] sp[of "46 # map lower8 (name_text ls)"] by auto
  next
    case False
    then have "map lower8 rest \<noteq> map lower8 l @ Y" for Y by (metis length_append length_map le_add1)
    with False show ?thesis by (metis (no_types, lifting) append_Nil2 dotted_name_simps(2) map_append matches.simps(2) name_text_simps(2))
  qed
qed simp

section \<open>Encoding a name\<close>

definition enc_name :: "u8 list list \<Rightarrow> u8 list" where
  "enc_name ls = concat (map (\<lambda>l. of_nat (length l) # l) ls)"

lemma enc_name_simps [simp]: "enc_name [] = []" "enc_name (l # ls) = of_nat (length l) # l @ enc_name ls"
  by (simp_all add: enc_name_def)

lemma legal_no_dot: "list_all legal_char l \<Longrightarrow> takeWhile (\<lambda>c. c \<noteq> 46) l = l \<and> dropWhile (\<lambda>c. c \<noteq> 46) l = []"
  using legal_char_nonzero(2) by (auto simp: takeWhile_eq_all_conv dropWhile_eq_Nil_conv list_all_iff)

lemma rfc1035_bytes_dotted: "plain ls \<Longrightarrow> rfc1035_bytes (dotted_name ls) = enc_name ls"
proof (induction ls)
  case Nil
  then show ?case by (simp add: rfc1035_bytes.simps)
next
  case (Cons l ls)
  have "takeWhile (\<lambda>c. c \<noteq> 46) (l @ 46 # x) = l" "dropWhile (\<lambda>c. c \<noteq> 46) (l @ 46 # x) = 46 # x" for x
    using legal_no_dot[of l] Cons.prems legal_char_nonzero(2) by (simp_all add: takeWhile_tail dropWhile_append3 list_all_iff)
  moreover have "rfc1035_bytes l = of_nat (length l) # l"
    using legal_no_dot[of l] Cons.prems rfc1035_bytes.simps[of "[]"]
    by (subst rfc1035_bytes.simps) (simp del: takeWhile_eq_all_conv dropWhile_eq_Nil_conv)
  ultimately show ?case using Cons
    by (cases "ls = []") (simp_all add: rfc1035_bytes.simps[of "l @ 46 # dotted_name ls"])
qed

lemma small_label: "n \<le> 63 \<Longrightarrow> (of_nat n :: u8) AND 0xC0 = 0 \<and> unat (of_nat n :: u8) = n"
proof -
  assume n: "n \<le> 63"
  then have u: "unat (of_nat n :: u8) = n" by (simp add: unat_of_nat_u8_small del: unat_of_nat)
  then have "take_bit 6 (of_nat n :: u8) = of_nat n"
    using n by (simp add: word_unat_eq_iff take_bit_eq_mod unat_mod del: unat_of_nat)
  then have "(of_nat n :: u8) AND mask 6 = of_nat n" by (simp only: take_bit_eq_mask)
  then have "(of_nat n :: u8) AND 0xC0 = of_nat n AND (mask 6 AND 0xC0)" by (metis and.assoc)
  also have "mask 6 AND 0xC0 = (0 :: u8)" by (simp add: mask_eq_exp_minus_1)
  finally show ?thesis using u by simp
qed

lemma dname_enc:
  assumes "plain ls" "list_all (\<lambda>l. length l \<le> MAXLABEL) ls" "p + length (enc_name ls) < plen" "plen \<le> length pkt"
    "slice pkt p (length (enc_name ls) + 1) = enc_name ls @ [0]"
  shows "dname pkt plen 0 p ls (p + length (enc_name ls) + 1)"
  using assms
proof (induction ls arbitrary: p)
  case Nil
  then have "rd pkt p = Some 0" by (simp add: rd_in slice_def take_Suc hd_drop_conv_nth split: list.splits)
  then show ?case using dname.root by simp
next
  case (Cons l ls)
  let ?n = "length (enc_name ls)"
  have n: "length l \<le> 63" using Cons.prems(2) by (simp add: MAXLABEL_def)
  note sm = small_label[OF n]
  have d: "take (Suc (length l) + (?n + 1)) (drop p pkt) = of_nat (length l) # l @ enc_name ls @ [0]"
    using Cons.prems(5) by (simp add: slice_def ac_simps)
  have 1: "rd pkt p = Some (of_nat (length l))"
    using arg_cong[OF d, of hd] Cons.prems(3,4) by (simp add: rd_in hd_drop_conv_nth)
  have "take (Suc (length l)) (take (Suc (length l) + (?n + 1)) (drop p pkt)) = of_nat (length l) # l" unfolding d by simp
  then have "take (length l) (drop (p + 1) pkt) = l"
    using Cons.prems(3,4) by (simp add: Cons_nth_drop_Suc[symmetric])
  then have 2: "rdn pkt (p + 1) (unat (of_nat (length l) :: u8)) = Some l"
    using Cons.prems(3,4) sm by (simp add: rdn_def slice_def)
  have "drop (Suc (length l)) (take (Suc (length l) + (?n + 1)) (drop p pkt)) = enc_name ls @ [0]" unfolding d by simp
  then have 3: "slice pkt (p + 1 + length l) (?n + 1) = enc_name ls @ [0]" by (simp add: slice_def drop_take ac_simps)
  have 4: "dname pkt plen 0 (p + 1 + length l) ls (p + 1 + length l + ?n + 1)"
    by (rule Cons.IH) (use Cons.prems 3 in simp_all)
  have nz: "(of_nat (length l) :: u8) \<noteq> 0" using sm Cons.prems(1) by (metis length_0_conv plain_simps(2) unat_0)
  have "dname pkt plen 0 p (l # ls) (p + 1 + length l + ?n + 1)"
    by (rule dname.label[OF 1 nz _ 2]) (use sm 4 Cons.prems(3) in simp_all)
  then show ?case by (simp add: ac_simps)
qed

section \<open>Properties\<close>

text \<open>The C string a run of the loop leaves in the buffer.\<close>

lemma name_text_dotted: "ls \<noteq> [] \<Longrightarrow> name_text ls = dotted_name ls @ [46]"
  by (induction ls) auto

lemma cstr_extracted:
  assumes "0 \<notin> set (name_text ls)" "length (name_text ls) < length name"
  shows "cstr ((blit name 0 (name_text ls))[length (name_text ls) - 1 := 0]) = dotted_name ls"
proof (cases "ls = []")
  case True
  with assms(2) show ?thesis by (cases name) (simp_all add: cstr_def blit_def)
next
  case False
  note t = name_text_dotted[OF False]
  have "(blit name 0 (name_text ls))[length (name_text ls) - 1 := 0] = dotted_name ls @ 0 # drop (length (name_text ls)) name"
    unfolding t by (simp add: blit_def list_update_append)
  moreover have "0 \<notin> set (dotted_name ls)" using assms(1) t by auto
  then have "cstr (dotted_name ls @ 0 # x) = dotted_name ls" for x unfolding cstr_def by (subst takeWhile_append2) auto
  ultimately show ?thesis by simp
qed

text \<open>The labels of a string.\<close>

fun labels_of :: "u8 list \<Rightarrow> u8 list list" where
  "labels_of [] = [[]]"
| "labels_of (c # s) = (if c = 46 then [] # labels_of s else (c # hd (labels_of s)) # tl (labels_of s))"

lemma labels_of_nonempty [simp]: "labels_of s \<noteq> []"
  by (induction s) auto

lemma dotted_labels: "dotted_name (labels_of s) = s"
proof (induction s)
  case (Cons c s)
  obtain l ls where "labels_of s = l # ls" by (cases "labels_of s") auto
  with Cons show ?case by (cases ls) auto
qed simp

lemma canonical_labels:
  "canonical_loop g w s \<Longrightarrow> g \<le> MAXLABEL \<Longrightarrow> list_all legal_char (hd (labels_of s)) \<and> g + length (hd (labels_of s)) \<le> MAXLABEL \<and>
     list_all (\<lambda>l. list_all legal_char l \<and> length l \<le> MAXLABEL) (tl (labels_of s))"
proof (induction g w s rule: canonical_loop.induct)
  case (2 g w c s)
  then show ?case by (cases "labels_of s") (auto split: if_splits)
qed simp

lemma canonicalise_labels:
  assumes "canonicalise t = (s, True)" "[] \<notin> set (labels_of s)"
  shows "plain (labels_of s) \<and> list_all (\<lambda>l. length l \<le> MAXLABEL) (labels_of s) \<and> s \<noteq> []"
proof -
  have "canonical_loop 0 False s" using assms(1) by (auto simp: canonicalise_def split: if_splits)
  then have "list_all legal_char (hd (labels_of s)) \<and> length (hd (labels_of s)) \<le> MAXLABEL \<and>
     list_all (\<lambda>l. list_all legal_char l \<and> length l \<le> MAXLABEL) (tl (labels_of s))"
    using canonical_labels[of 0 False s] by simp
  then show ?thesis using assms(2) by (cases "labels_of s") (auto simp: plain_def list_all_iff)
qed

lemma length_enc_name: "length (enc_name ls) = length (name_text ls)"
  by (induction ls) auto

lemma dname_stored:
  assumes "plain ls" "list_all (\<lambda>l. length l \<le> MAXLABEL) ls" "p + length (enc_name ls) < plen" "plen \<le> length pkt"
  shows "dname ((blit pkt p (enc_name ls))[p + length (enc_name ls) := 0]) plen 0 p ls (p + length (enc_name ls) + 1)"
proof (rule dname_enc[OF assms(1-3)])
  have "(blit pkt p (enc_name ls))[p + length (enc_name ls) := 0] = blit pkt p (enc_name ls @ [0])"
    using assms(3,4) by (intro blit_snoc) simp
  then show "slice ((blit pkt p (enc_name ls))[p + length (enc_name ls) := 0]) p (length (enc_name ls) + 1) = enc_name ls @ [0]"
    using assms(3,4) by (simp add: slice_def blit_def)
qed (use assms in \<open>simp add: blit_def\<close>)

lemma extract_name_loop:
  assumes "length name = MAXDNAME"
  shows "extract_name pkt plen p name True = extract_loop pkt plen True 0 p None (name[0 := 0]) 0 1"
  using assms by (simp add: extract_name_def wr_in MAXDNAME_def)

lemma extract_name_complete:
  assumes "dname pkt plen h p ls q" "plain ls" "h \<le> 255" "length (name_text ls) < MAXDNAME" "length name = MAXDNAME"
  shows "\<exists>name'. extract_name pkt plen p name True = Some (Some (1, name', q)) \<and> length name' = MAXDNAME \<and> cstr name' = dotted_name ls"
proof -
  let ?n = "(blit (name[0 := 0]) 0 (name_text ls))[length (name_text ls) - 1 := 0]"
  have "extract_name pkt plen p name True = Some (Some (1, ?n, q))"
    unfolding extract_name_loop[OF assms(5)]
    using extract_loop_complete[OF assms(1,2), of 0 0 "name[0 := 0]" None 1] assms(3-5) by simp
  moreover have "0 \<notin> set (name_text ls)"
    using assms(2) legal_char_nonzero(1) by (auto simp: name_text_def plain_def list_all_iff)
  then have "cstr ?n = dotted_name ls" using assms(4,5) by (intro cstr_extracted) simp_all
  moreover have "length ?n = MAXDNAME" using assms(4,5) by (simp add: blit_def)
  ultimately show ?thesis by blast
qed


text \<open>A packet with the name \<^verbatim>\<open>www.a\<close> at 12 and the name \<^verbatim>\<open>b.a\<close> at 19, the latter compressed; the last pointer points to itself.\<close>

definition sample_names :: "u8 list" where
  "sample_names = replicate 12 0 @ [3, 119, 119, 119, 1, 97, 0, 1, 98, 0xC0, 16, 0xC0, 23] @ replicate 64 0"

lemma sample_names_at:
  "rd sample_names 16 = Some 1" "rdn sample_names 17 1 = Some [97]" "rd sample_names 18 = Some 0"
  "rd sample_names 19 = Some 1" "rdn sample_names 20 1 = Some [98]" "rd sample_names 21 = Some 0xC0" "rd sample_names 22 = Some 16"
  "rd sample_names 23 = Some 0xC0" "rd sample_names 24 = Some 23" "length sample_names = 89"
  by code_simp+

lemma sample_name: "dname sample_names 25 1 19 [[98], [97]] 23"
proof -
  note a = sample_names_at
  have "dname sample_names 25 0 18 [] 19" using dname.root[OF a(3), of 25] by simp
  then have "dname sample_names 25 0 16 [[97]] 19"
    using dname.label[OF a(1), of "[97]" 25 0 "[]" 19] a(2) by simp
  then have "dname sample_names 25 1 21 [[97]] 23"
    using dname.pointer[OF a(6), of 25 16 16 0 "[[97]]" 19] a(7) by simp
  then show ?thesis using dname.label[OF a(4), of "[98]" 25 1 "[[97]]" 23] a(5) by simp
qed


text \<open>
  C28: The three readers of a name agree.  For a name of legal labels that a packet holds, however it is compressed,
  extracting stores the dotted name, \<^verbatim>\<open>skip_name\<close> stops at the same place without following a pointer, and comparing with a
  string that has no final dot answers 1 exactly when \<^verbatim>\<open>hostname_isequal\<close> accepts the string and the name,
  and 2 otherwise.
\<close>

theorem name_views_agree:
  assumes "dname pkt plen h p ls q" "plain ls" "h \<le> 255" "length (name_text ls) < MAXDNAME" "p < plen"
    "length name = MAXDNAME" "cstring_at nm 0 s" "s = [] \<or> last s \<noteq> 46"
  shows "(\<exists>name'. extract_name pkt plen p name True = Some (Some (1, name', q)) \<and> cstr name' = dotted_name ls) \<and>
    skip_name pkt plen p = Some (Some q) \<and>
    extract_name pkt plen p nm False = Some (Some (if hostname_isequal s (dotted_name ls) then 1 else 2, nm, q))"
proof -
  obtain r where r: "extract_name pkt plen p nm False = Some (Some (r, nm, q))" "r = 1 \<or> r = 2" "r = 1 \<longleftrightarrow> matches ls s"
    using extract_loop_compare[OF assms(1,2), of 0 0 nm s 1 None] assms(3,4,7) by (auto simp: extract_name_def)
  have "map lower8 s \<noteq> map lower8 (name_text ls)" if "ls \<noteq> []"
  proof
    assume e: "map lower8 s = map lower8 (name_text ls)"
    then have "s \<noteq> []" using that by (auto simp: name_text_dotted)
    then have "lower8 (last s) = 46" using arg_cong[OF e, of last] that by (simp add: last_map name_text_dotted)
    with assms(8) \<open>s \<noteq> []\<close> show False by simp
  qed
  then have "matches ls s \<longleftrightarrow> hostname_isequal s (dotted_name ls)"
    using matches_iff[OF assms(2)] by (auto simp: hostname_isequal_iff)
  with r have "extract_name pkt plen p nm False = Some (Some (if hostname_isequal s (dotted_name ls) then 1 else 2, nm, q))" by auto
  with extract_name_complete[OF assms(1-4,6)] skip_name_complete[OF assms(1,2,5)] show ?thesis by blast
qed

theorem name_views_agree_witness:
  "(\<exists>name'. extract_name sample_names 25 19 (replicate MAXDNAME 7) True = Some (Some (1, name', 23)) \<and> cstr name' = [98, 46, 97]) \<and>
   skip_name sample_names 25 19 = Some (Some 23) \<and>
   extract_name sample_names 25 19 [66, 46, 97, 0] False = Some (Some (1, [66, 46, 97, 0], 23)) \<and>
   extract_name sample_names 25 19 [98, 46, 98, 0] False = Some (Some (2, [98, 46, 98, 0], 23))"
proof -
  have h: "plain [[98], [97]]" "length (name_text [[98], [97]]) < MAXDNAME" "dotted_name [[98], [97]] = [98, 46, 97]"
    by (simp_all add: legal_char_def MAXDNAME_def)
  note v = name_views_agree[OF sample_name h(1) _ h(2), of "replicate MAXDNAME 7", unfolded h(3)]
  have "hostname_isequal [66, 46, 97] [98, 46, 97]" "\<not> hostname_isequal [98, 46, 98] [98, 46, 97]" by (simp_all add: lower8_def)
  then show ?thesis using v[of "[66, 46, 97, 0]" "[66, 46, 97]"] v[of "[98, 46, 98, 0]" "[98, 46, 98]"] by simp
qed

text \<open>
  C29: A configured host name survives the wire.  A string that \<^verbatim>\<open>canonicalise\<close> accepts and that has no empty label is
  written by \<^verbatim>\<open>do_rfc1035_name\<close> and a final zero byte in its length plus two bytes, and \<^verbatim>\<open>extract_name\<close> and \<^verbatim>\<open>skip_name\<close> at
  that place read the same string back and stop behind it.
\<close>

theorem rfc1035_name_roundtrip:
  assumes "canonicalise t = (s, True)" "[] \<notin> set (labels_of s)" "length s + 1 < MAXDNAME"
    "p + length s + 2 \<le> plen" "plen \<le> length pkt" "length name = MAXDNAME"
  shows "\<exists>pkt' name'. do_rfc1035_name pkt p s = Some (pkt', p + length s + 1) \<and>
    extract_name (pkt'[p + length s + 1 := 0]) plen p name True = Some (Some (1, name', p + length s + 2)) \<and>
    cstr name' = s \<and> skip_name (pkt'[p + length s + 1 := 0]) plen p = Some (Some (p + length s + 2))"
proof -
  note l = canonicalise_labels[OF assms(1,2)]
  have e: "rfc1035_bytes s = enc_name (labels_of s)" using rfc1035_bytes_dotted[of "labels_of s"] l by (simp add: dotted_labels)
  have "name_text (labels_of s) = s @ [46]" using name_text_dotted[of "labels_of s"] by (simp add: dotted_labels)
  then have n: "length (enc_name (labels_of s)) = length s + 1" "length (name_text (labels_of s)) = length s + 1"
    by (simp_all add: length_enc_name)
  let ?k = "(blit pkt p (enc_name (labels_of s)))[p + length s + 1 := 0]"
  have d: "dname ?k plen 0 p (labels_of s) (p + length s + 2)"
    using dname_stored[of "labels_of s" p plen pkt] l assms(4,5) n by simp
  have "do_rfc1035_name pkt p s = Some (blit pkt p (enc_name (labels_of s)), p + length s + 1)"
    unfolding do_rfc1035_name_def e using assms(4,5) n by (simp add: memcpy_def)
  moreover have "skip_name ?k plen p = Some (Some (p + length s + 2))"
    using skip_name_complete[OF d] l assms(4) by simp
  moreover obtain name' where "extract_name ?k plen p name True = Some (Some (1, name', p + length s + 2))" "cstr name' = s"
    using extract_name_complete[OF d _ _ _ assms(6)] l assms(3) n by (auto simp: dotted_labels)
  ultimately show ?thesis by blast
qed

theorem rfc1035_name_roundtrip_witness:
  "\<exists>pkt' name'. do_rfc1035_name (replicate 32 7) 12 (bytes_of ''www.a'') = Some (pkt', 18) \<and>
     extract_name (pkt'[18 := 0]) 32 12 (replicate MAXDNAME 7) True = Some (Some (1, name', 19)) \<and> cstr name' = bytes_of ''www.a'' \<and>
     skip_name (pkt'[18 := 0]) 32 12 = Some (Some 19)"
proof -
  have "canonicalise (bytes_of ''www.a.'') = (bytes_of ''www.a'', True)" "[] \<notin> set (labels_of (bytes_of ''www.a''))"
    by code_simp+
  moreover have "6 < MAXDNAME" by (simp add: MAXDNAME_def)
  ultimately show ?thesis
    using rfc1035_name_roundtrip[of "bytes_of ''www.a.''" "bytes_of ''www.a''" 12 32 "replicate 32 7" "replicate MAXDNAME 7"]
    by simp
qed

text \<open>
  An empty label gets through \<^verbatim>\<open>canonicalise\<close>, and the name on the wire ends at it: \<^verbatim>\<open>a..b\<close> is sent as \<^verbatim>\<open>a\<close>, followed by
  bytes that the reader takes for the next field.
\<close>

lemma canonicalise_empty_label:
  "canonicalise (bytes_of ''a..b'') = (bytes_of ''a..b'', True)" "rfc1035_bytes (bytes_of ''a..b'') = [1, 97, 0, 1, 98]"
  by (code_simp, simp add: bytes_of_def rfc1035_bytes.simps)

lemma empty_label_read_back:
  "dname ([1, 97, 0, 1, 98, 0] @ rest) 6 0 0 [[97]] 3"
proof -
  have "dname ([1, 97, 0, 1, 98, 0] @ rest) 6 0 2 [] 3"
    using dname.root[of "[1, 97, 0, 1, 98, 0] @ rest" 2 6] by (simp add: rd_def)
  then show ?thesis
    using dname.label[of "[1, 97, 0, 1, 98, 0] @ rest" 0 1 "[97]" 6 0 "[]" 3] by (simp add: rd_def rdn_def slice_def numeral_2_eq_2)
qed

text \<open>
  A bit string with an odd number of hexadecimal digits: extracting leaves the pointer on the byte of the last
  digit, skipping moves behind it.  Here the label is \<^verbatim>\<open>\\[x0/4]\<close>; the extracted name ends at the label's own byte
  and what follows is taken for the next field one byte too early.
\<close>

lemma odd_bit_string_misread:
  "skip_name ([0x41, 4, 0, 0, 9, 9] @ rest) 6 0 = Some (Some 4)"
  "dname ([0x41, 4, 0, 0, 9, 9] @ rest) 6 0 0 [[92, 91, 120, 48, 47, 52, 93]] 3"
proof -
  show "skip_name ([0x41, 4, 0, 0, 9, 9] @ rest) 6 0 = Some (Some 4)"
    by (subst skip_name.simps, simp add: rd_def, subst skip_name.simps, simp add: rd_def)
  have k: "elt_count 4 = 4" "elt_digs 4 = 1" by (simp_all add: elt_count_def elt_digs_def)
  have "dname ([0x41, 4, 0, 0, 9, 9] @ rest) 6 0 2 [] 3"
    using dname.root[of "[0x41, 4, 0, 0, 9, 9] @ rest" 2 6] by (simp add: rd_def)
  then have "dname ([0x41, 4, 0, 0, 9, 9] @ rest) 6 0 0 [elt_text ([0x41, 4, 0, 0, 9, 9] @ rest) 4 2] 3"
    using dname.bits[of "[0x41, 4, 0, 0, 9, 9] @ rest" 0 "0x41" 4 6 0 "[]" 3] by (simp add: rd_def k numeral_2_eq_2)
  moreover have "elt_text ([0x41, 4, 0, 0, 9, 9] @ rest) 4 2 = [92, 91, 120, 48, 47, 52, 93]"
    by (simp add: elt_text_def k dec.simps digit_def bytes_of_def)
  ultimately show "dname ([0x41, 4, 0, 0, 9, 9] @ rest) 6 0 0 [[92, 91, 120, 48, 47, 52, 93]] 3" by simp
qed

text \<open>
  The bytes of a label are read before they are compared with the end of the datagram: in a buffer that ends with the datagram,
  a label that claims 63 bytes is read past the end.
\<close>

lemma label_over_read: "length name = MAXDNAME \<Longrightarrow> extract_name [63, 97, 97] 3 0 name True = None"
proof -
  assume n: "length name = MAXDNAME"
  have 63: "(63 :: nat) = Suc (Suc (Suc 60))" by simp
  have "copy_label [63, 97, 97] 63 1 nm 0 = None" for nm unfolding 63
    by (simp only: copy_label.simps) (simp add: rd_def wr_def legal_char_def)
  with n show ?thesis unfolding extract_name_def by (subst extract_loop.simps) (simp add: MAXDNAME_def rd_def wr_def)
qed

end
