(* ===== verification/Spec2Isabelle.thy ===== *)
theory Spec2Isabelle
  imports Dhcp_Exchange Dhcp_Tools Dns_Names
begin

text \<open>
  Verification of the DHCP server of the Huawei EchoLife HG553 home gateway
  (\<^verbatim>\<open>src/userapps/opensource/udhcp\<close>, the udhcpd of Moreton Bay with the extensions of Broadcom
  and Huawei), as it is built for the profile 96358GWV: BCM6358, big endian, with
  \<^verbatim>\<open>VDF_FORCERENEW\<close>, \<^verbatim>\<open>VDF_RESERVED\<close>, \<^verbatim>\<open>VDF_OPTION\<close>, \<^verbatim>\<open>SUPPORT_VDF_DHCP\<close> and \<^verbatim>\<open>SUPPORT_OPTION61\<close>
  defined, and without \<^verbatim>\<open>SUPPORT_MACMATCHIP\<close>, \<^verbatim>\<open>SUPPORT_DHCP_FRAG\<close>, \<^verbatim>\<open>SUPPORT_CHINATELECOM_DHCP\<close>,
  \<^verbatim>\<open>SUPPORT_PORTMAPING\<close>, \<^verbatim>\<open>SUPPORT_DHCP_VENDOR\<close> and \<^verbatim>\<open>DEBUG\<close>.

  \<^bold>\<open>The program.\<close>  The daemon (\<^verbatim>\<open>dhcpd.c\<close>) reads its configuration and the lease files
  (\<^verbatim>\<open>files.c\<close>), then waits for datagrams.  A datagram is read into a message (\<^verbatim>\<open>packet.c\<close>),
  its options are looked up (\<^verbatim>\<open>options.c\<close>), the client is looked up in the lease table
  (\<^verbatim>\<open>leases.c\<close>), and a reply is built and sent (\<^verbatim>\<open>serverpacket.c\<close>, \<^verbatim>\<open>packet.c\<close>); before an address
  is offered an ARP probe asks whether somebody uses it (\<^verbatim>\<open>arpping.c\<close>, \<^verbatim>\<open>socket.c\<close>).  A vendor
  class selects between two pools, IP phones get options and packet marks of their own, and
  a device that identifies itself in option 125 is reported to the TR-069 client.

  \<^bold>\<open>How the code is modelled.\<close>  A struct is a record with its fields in the order of the
  source, each with a prefix of the record; a C buffer is a list of bytes; an integer has its
  width.  Reads and writes of a buffer (\<open>rd\<close>, \<open>rdn\<close>, \<open>rd32\<close>, \<open>wr\<close>, \<open>memcpy\<close>) return \<open>None\<close> outside
  it, so that the outer \<open>None\<close> of an operation is a memory error (or, for the address search,
  a loop that never ends), and a theorem \<open>f x = Some y\<close> says that the operation stays inside its
  buffers and ends.  Errors the source returns are values: negative results, \<open>None\<close> inside.
  The whole state of the process is the record \<open>dhcpd\<close>; a handler takes and returns it, and
  appends what it does to the outside world to \<open>d_out\<close> (frames, shell commands, files, log
  lines).  What the outside world answers is an argument (\<open>env\<close>, \<open>boot_env\<close>, \<open>turn\<close>): the uptime,
  the interfaces, the sockets, ARP replies, files, the board's serial number, the allocator's
  \<^verbatim>\<open>malloc(0)\<close>.  Theorems quantify over it.

  \<^bold>\<open>The theories.\<close>
  \<^item> \<open>Prelude\<close>: machine words, big endian layout, buffers, C strings.
  \<^item> \<open>Cstrings\<close>: the string functions of the C library the sources use (\<^verbatim>\<open>strstr\<close>, \<^verbatim>\<open>strtok_r\<close>,
    \<^verbatim>\<open>strtoul\<close>, \<^verbatim>\<open>inet_aton\<close>, \<^verbatim>\<open>inet_ntoa\<close>, ...); printing and parsing an address are inverse.
  \<^item> \<open>Dhcp_Types\<close>: \<^verbatim>\<open>packet.h\<close>, \<^verbatim>\<open>leases.h\<close>, \<^verbatim>\<open>dhcpd.h\<close>: constants, the message with its 1264 byte
    memory image, leases, configuration.
  \<^item> \<open>Dhcp_Options\<close>: \<^verbatim>\<open>options.c\<close>.  An option field denotes a list of options (\<open>repr\<close>);
    \<^verbatim>\<open>get_option\<close> refines the lookup in that list, the writers refine appending to it, and the
    locale \<open>option_field\<close> states what the reply builders rely on.
  \<^item> \<open>Dhcp_Vi\<close>: the vendor identity of option 125 (\<^verbatim>\<open>options.c\<close>, \<^verbatim>\<open>write_viTable\<close> of \<^verbatim>\<open>files.c\<close>):
    building and parsing it, the device list, the notification.
  \<^item> \<open>Dhcp_Packet\<close>: \<^verbatim>\<open>packet.c\<close>: receiving, the Internet checksum (against its definition modulo
    65535), sending on a packet socket or a kernel socket, the uptime.
  \<^item> \<open>Dhcp_Net\<close>: \<^verbatim>\<open>socket.c\<close>, \<^verbatim>\<open>arpping.c\<close>.
  \<^item> \<open>Dhcp_Leases\<close>: \<^verbatim>\<open>leases.c\<close>: the table (invariant \<open>lease_inv\<close>, locale \<open>lease_store\<close>
    interpreted by \<open>lt\<close>) and the search for a free address.
  \<^item> \<open>Dhcp_Server\<close>: \<^verbatim>\<open>serverpacket.c\<close>: OFFER, ACK, NAK, INFORM.  Every piece of a reply is a builder
    (\<open>appends\<close>); each handler has a specification (\<open>sendOffer_spec\<close>, \<open>sendACK_spec\<close>, ...) in
    terms of what a client decodes from the frame and of the lease table.
  \<^item> \<open>Dhcp_Files\<close>: \<^verbatim>\<open>files.c\<close>: configuration, lease files, NTP file.
  \<^item> \<open>Dhcp_Daemon\<close>: \<^verbatim>\<open>dhcpd.c\<close>, \<^verbatim>\<open>pidfile.c\<close>: start-up (\<open>udhcpd_init\<close>), the body of the main loop
    (\<open>udhcpd_turn\<close>), one message (\<open>handle_packet\<close>), the signals (\<open>udhcpd_signal\<close>); \<open>steps\<close> is the
    relation of all runs.

  \<^bold>\<open>What is shown.\<close>  The invariant \<open>pools_ok\<close> (both pools well formed, no address and no client
  twice in a table) holds after start-up with the defaults and along all runs, and no turn
  of the loop leaves a buffer or hangs, for messages that avoid the memory errors
  listed below (\<open>benign\<close>).  DISCOVER, OFFER, REQUEST and ACK compose: the client that follows
  the protocol gets the address, and the table says so.  The parts are shown correct in
  themselves: option lookup and construction, checksum and frame layout, receive against
  send, lease table, address search, ARP probe, configuration lists, lease file, identity
  option.

  \<^bold>\<open>What is shown to be wrong.\<close>  Several theorems state a defect: an option 50 of 5 to 127 bytes
  and a host name of 128 bytes or more are memory errors; the overload option is misread;
  a pool that ends at 255.255.255.255 is searched forever; the lease file is not read back;
  the second configuration is overwritten; T2 wraps for an infinite lease; descriptors leak;
  the device list is cut.

  \<^bold>\<open>Bounds.\<close>  There is no fuel: loops are structural or have a termination proof, and the address
  search, which need not end, is a partial function into \<open>option\<close> that is proved to return for
  every pool that ends below 255.255.255.255.  The message has 1264 bytes, its option
  field 1024, the lookup window 308, the table of IP phones 255 entries, as in the source.
  The serial number of the board is assumed to have at most 110 characters, the length for
  which the identity option fits its buffer.

  \<^bold>\<open>Not modelled.\<close>  Signals are handled between two turns of the loop and not in the middle of
  a handler.  The uptime does not advance while one message is handled.  \<^verbatim>\<open>DEBUG\<close> and \<^verbatim>\<open>LOG\<close>
  output is left out except for the \<^verbatim>\<open>syslog\<close> lines the handlers write themselves.  Code under
  the switches listed above as not defined is not compiled into this firmware and not
  modelled.  The DHCP client of the same directory (\<^verbatim>\<open>dhcpc.c\<close>, \<^verbatim>\<open>clientpacket.c\<close>, \<^verbatim>\<open>script.c\<close>), the
  flash and board parameter code, the kernel and the other programs of the firmware are
  outside this development.
\<close>

section \<open>Client and server together\<close>

text \<open>
  C3: the client and the server of this firmware get a lease from each other.  Whenever the
  server has an address for the client (\<open>servable\<close>), the client's timer sends a DISCOVER that
  the server decodes and answers with one frame, the client decodes the OFFER and asks for
  the address, the server decodes the REQUEST and answers with one frame, and when the client
  has decoded that one it is bound to the address which the table of the server holds for its
  hardware address, for the lease time the server noted, and will renew after half of it.
\<close>

theorem client_server_handshake:
  assumes client: "client_ok c" "y_state c = INIT_SELECTING" "y_packet_num c < 2" "short_name (y_config c)"
      "\<not> blank_chaddr (q_arp (y_config c) @ replicate 10 0)"
    and client_world: "cenv_ok e1" "cenv_ok e2" "cenv_ok e3" "cenv_ok e4" "client_sock_works (w_sock (u_world e1))"
      "client_sock_works (w_sock (u_world e3))" "length (w_vi_serial (u_world e1)) \<le> 64" "length (w_vi_serial (u_world e3)) \<le> 64"
    and server: "server_ready st" "length (g_serial env1) \<le> 110" "length (g_serial env2) \<le> 110" "sock_works (g_sock env2)"
      "0 \<le> e_result (g_sock env2)" "0 < g_now env2" "servable env1 st (q_arp (y_config c) @ replicate 10 0)"
  shows "\<exists>c1 es f1 p1 n1 st1 f2 c2. client_timeout e1 c = Some (CRunning c1) \<and> y_out c1 = y_out c @ es @ [Sent f1] \<and>
    get_packet (Some (frame_payload f1)) = Some (p1, n1) \<and> handle_packet env1 p1 st = Some st1 \<and> sends st st1 [Sent f2] \<and>
    client_receive e2 (Some (wire f2)) c1 = Some (CRunning c2) \<and>
    completes e3 e4 env2 st1 (q_arp (y_config c) @ replicate 10 0) c2"
proof -
  from discover_arrives[OF client(1) client_world(1,5) client(2,3)] obtain c1 es f1 p1 where
    1: "client_timeout e1 c = Some (CRunning c1)" "client_ok c1" "y_state c1 = INIT_SELECTING" "y_out c1 = y_out c @ es @ [Sent f1]"
    "arrives f1 c (y_xid c1) (discover_options (u_world e1) (y_vendor_class_id c) (y_config c) (y_requested_ip c)) p1"
    "y_config c1 = y_config c\<lparr>q_clientid := client_id (u_world e1)\<rparr>" by (elim exE conjE) (rule that)
  note ready1 = client_ready_ok[OF client(1) client_world(1)]
  obtain n1 where n1: "get_packet (Some (frame_payload f1)) = Some (p1, n1)" "m_chaddr p1 = q_arp (y_config c) @ replicate 10 0"
    using 1(5) unfolding arrives_def by (elim exE conjE) (rule that)
  from offer_taken[OF server(1,2) client_world(7) 1(5) ready1 client(4) 1(2,3), of e2, unfolded n1(2), OF server(7)]
  obtain st1 f2 ex c2 where
    2: "handle_packet env1 p1 st = Some st1" "server_ready st1" "sends st st1 [Sent f2]"
    "bound (leases_of st1) (q_arp (y_config c) @ replicate 10 0) (y_requested_ip c2) ex"
    "client_receive e2 (Some (wire f2)) c1 = Some (CRunning c2)" "client_ok c2" "y_state c2 = REQUESTING"
    "y_server_addr c2 = c_server (d_config st1)" "y_packet_num c2 = 0" "y_config c2 = y_config c1"
    by (elim exE conjE) (rule that)
  have h: "short_name (y_config c2)" "q_arp (y_config c) @ replicate 10 0 = q_arp (y_config c2) @ replicate 10 0"
    using client(4) 1(6) 2(10) by (simp_all add: short_name_def)
  note request_completed[OF 2(6,7,9) h(1) client_world(3,6,8,4) 2(2) server(3-6) 2(8,4) client(5) h(2)]
  with 1(1,4) n1(1) 2(1,3,5) show ?thesis by blast
qed

definition sample_client :: client where
  "sample_client = (start_client sample_boot)\<lparr>y_config := sample_client_config\<lparr>q_arp := [9, 0, 0, 0, 0, 0]\<rparr>\<rparr>"

text \<open>A client the table of the server has no entry for.\<close>

lemma sample_servable: "servable sample_world sample_state (q_arp (y_config sample_client) @ replicate 10 0)"
proof -
  have "candidate sample_env sample_leases 1000 False 0 sample_config 0xC0A80103"
    by (simp add: candidate_def not_taken_def find_lease_by_yiaddr_def sample_leases_def zero_lease_def
        sample_config_def zero_config_def reservedIp_def sample_env_def arpping_def arpCheck_def)
  then have "\<exists>b. 0xC0A80102 \<le> b \<and> b \<le> 0xC0A80103 \<and> candidate sample_env sample_leases 1000 False 0 sample_config b"
    by (intro exI[of _ "0xC0A80103"]) simp
  moreover have "\<exists>l. l \<in> set sample_leases \<and> lease_expired l 1000"
    by (intro exI[of _ zero_lease]) (simp add: sample_leases_def lease_expired_def zero_lease_def)
  moreover have "leases_of sample_state = sample_leases"
    "find_lease_by_chaddr sample_leases (q_arp (y_config sample_client) @ replicate 10 0) = None"
    by (simp_all add: leases_of_def sample_state_def sample_config_def zero_config_def sample_leases_def
        find_lease_by_chaddr_def sample_client_def zero_lease_def)
  ultimately show ?thesis using sample_known(3)
    by (simp add: servable_def pool_room_def sample_world_def sample_config_pool) (simp add: sample_state_def sample_config_pool)
qed

theorem client_server_handshake_witness:
  "\<exists>c1 es f1 p1 n1 st1 f2 c2. client_timeout (sample_cenv 10) sample_client = Some (CRunning c1) \<and>
    y_out c1 = y_out sample_client @ es @ [Sent f1] \<and>
    get_packet (Some (frame_payload f1)) = Some (p1, n1) \<and> handle_packet sample_world p1 sample_state = Some st1 \<and>
    sends sample_state st1 [Sent f2] \<and> client_receive (sample_cenv 11) (Some (wire f2)) c1 = Some (CRunning c2) \<and>
    completes (sample_cenv 12) (sample_cenv 13) sample_world st1 (q_arp (y_config sample_client) @ replicate 10 0) c2"
proof -
  have c: "client_ok sample_client" "y_state sample_client = INIT_SELECTING" "y_packet_num sample_client < 2"
    "short_name (y_config sample_client)" "\<not> blank_chaddr (q_arp (y_config sample_client) @ replicate 10 0)"
    using start_client_ok[of sample_boot] sample_boot_ok
    by (simp_all add: sample_client_def client_ok_def cboot_ok_def sample_client_config_def short_name_def blank_chaddr_def start_client_def)
  have w: "client_sock_works (w_sock (u_world (sample_cenv t)))" "length (w_vi_serial (u_world (sample_cenv t))) \<le> 64" for t
    by (simp_all add: sample_cenv_def client_sock_works_def sock_works_def)
  have s: "server_ready sample_state" "0 < g_now sample_world"
    using sample_pools by (simp_all add: server_ready_def sample_state_def sample_world_def)
  show ?thesis
    by (rule client_server_handshake[OF c sample_cenv_ok sample_cenv_ok sample_cenv_ok sample_cenv_ok w(1) w(1) w(2) w(2) s(1)
      sample_world_serial sample_world_serial sample_known(3,4,2) sample_servable])
qed

end
